(* ===== verification/Prelude.thy ===== *)
theory Prelude
  imports Main "HOL-Library.Monad_Syntax" "HOL-Library.State_Monad" "HOL-Library.Word"
    "HOL-Library.Multiset"
begin

text \<open>
  Shared vocabulary of the development: Go errors as values, the state monad in which the
  stateful code is written, the \<open>defer\<close> statement, loops over slices, and the generic
  lemmas on two-state relations that carry the monotonicity proofs of all components.
\<close>

section \<open>Errors\<close>

text \<open>
  A Go call of type \<open>(T, error)\<close> returns \<open>error + 'a\<close>: \<open>Inl\<close> is a non-nil error.
  The code tests one error for identity, gorm's \<open>ErrRecordNotFound\<close>; every other error
  only carries its text.
\<close>

datatype error = ErrRecordNotFound | Err string

fun Error :: "error \<Rightarrow> string" where
  "Error ErrRecordNotFound = ''record not found''"
| "Error (Err msg) = msg"

text \<open>\<open>uuid.UUID\<close> is an array of 16 bytes; \<open>uuid.Nil\<close> is all zero.\<close>

type_synonym uuid = "128 word"

abbreviation uuid_Nil :: uuid where
  "uuid_Nil \<equiv> 0"

section \<open>Named collections\<close>

named_theorems step_defs \<open>unfolding equations of the modelled operations\<close>

named_theorems evolve_intros \<open>an operation only moves the world along the evolution relation\<close>

section \<open>Decimal numerals\<close>

text \<open>\<open>strconv.Itoa\<close>, which makes the label values of some collectors.\<close>

fun digits :: "nat \<Rightarrow> string" where
  "digits n = (if n < 10 then [''0123456789'' ! n] else digits (n div 10) @ [''0123456789'' ! (n mod 10)])"

declare digits.simps [simp del]

definition Itoa :: "int \<Rightarrow> string" where
  "Itoa i = (if i < 0 then CHR ''-'' # digits (nat (- i)) else digits (nat i))"

section \<open>Stateful code\<close>

text \<open>\<open>defer d()\<close> at the head of a body \<open>m\<close>: \<open>d\<close> runs when \<open>m\<close> returns.\<close>

definition deferred :: "('s, unit) state \<Rightarrow> ('s, 'a) state \<Rightarrow> ('s, 'a) state" where
  "deferred d m = do { r \<leftarrow> m; d; State_Monad.return r }"

lemma run_state_deferred [simp]:
  "run_state (deferred d m) s =
     (case run_state m s of (r, s') \<Rightarrow> (r, snd (run_state d s')))"
  by (simp add: deferred_def split: prod.split)

text \<open>\<open>for _, x := range xs\<close> with a body that never leaves the loop.\<close>

fun for_each :: "'a list \<Rightarrow> ('a \<Rightarrow> ('s, unit) state) \<Rightarrow> ('s, unit) state" where
  "for_each [] f = State_Monad.return ()"
| "for_each (x # xs) f = do { f x; for_each xs f }"

lemma run_state_update [simp]: "run_state (State_Monad.update f) s = ((), f s)"
  by (simp add: State_Monad.update_def)

text \<open>A body of a loop that ignores the result of a call that can fail.\<close>

definition ignore :: "('s, 'a) state \<Rightarrow> ('s, unit) state" where
  "ignore m = do { _ \<leftarrow> m; State_Monad.return () }"

lemma run_state_ignore [simp]: "run_state (ignore m) s = ((), snd (run_state m s))"
  by (simp add: ignore_def split: prod.split)

section \<open>Two-state relations of stateful code\<close>

text \<open>
  \<open>state_io_rel R m\<close> says that every run of \<open>m\<close> relates its first and last state by
  \<open>R\<close>. For a reflexive and transitive \<open>R\<close> it is closed under all the ways the code
  composes calls.
\<close>

locale preorder_relation =
  fixes R :: "'s \<Rightarrow> 's \<Rightarrow> bool"
  assumes R_refl: "R s s"
    and R_trans: "R s t \<Longrightarrow> R t u \<Longrightarrow> R s u"
begin

lemma io_return: "state_io_rel R (State_Monad.return x)"
  by (rule state_io_relI) (auto intro: R_refl)

lemma io_bind:
  assumes "state_io_rel R m" and "\<And>x. state_io_rel R (f x)"
  shows "state_io_rel R (Monad_Syntax.bind m f)"
  by (rule state_io_relI)
     (auto split: prod.splits dest: state_io_relD [OF assms(1)] state_io_relD [OF assms(2)]
       intro: R_trans)

lemma io_deferred:
  assumes "state_io_rel R d" and "state_io_rel R m"
  shows "state_io_rel R (deferred d m)"
  unfolding deferred_def by (intro io_bind io_return assms)

lemma io_ignore: "state_io_rel R m \<Longrightarrow> state_io_rel R (ignore m)"
  unfolding ignore_def by (intro io_bind io_return)

lemma io_for_each:
  assumes "\<And>x. state_io_rel R (f x)"
  shows "state_io_rel R (for_each xs f)"
  by (induction xs) (auto intro!: io_return io_bind assms)

lemma io_if:
  assumes "b \<Longrightarrow> state_io_rel R m" and "\<not> b \<Longrightarrow> state_io_rel R n"
  shows "state_io_rel R (if b then m else n)"
  using assms by simp

lemma io_case_sum:
  assumes "\<And>e. state_io_rel R (f e)" and "\<And>a. state_io_rel R (g a)"
  shows "state_io_rel R (case r of Inl e \<Rightarrow> f e | Inr a \<Rightarrow> g a)"
  using assms by (simp split: sum.split)

lemma io_case_option:
  assumes "state_io_rel R m" and "\<And>a. state_io_rel R (g a)"
  shows "state_io_rel R (case r of None \<Rightarrow> m | Some a \<Rightarrow> g a)"
  using assms by (simp split: option.split)

lemma io_case_prod:
  assumes "\<And>a b. state_io_rel R (f a b)"
  shows "state_io_rel R (case p of (a, b) \<Rightarrow> f a b)"
  using assms by (simp split: prod.split)

lemmas io_rules = io_return io_bind io_deferred io_ignore io_for_each io_if io_case_sum
  io_case_option io_case_prod

end

section \<open>Lists\<close>

text \<open>Updating the elements of a list that satisfy a predicate, as \<open>UPDATE ... WHERE\<close> does.\<close>

definition update_where :: "('a \<Rightarrow> bool) \<Rightarrow> ('a \<Rightarrow> 'a) \<Rightarrow> 'a list \<Rightarrow> 'a list" where
  "update_where P f xs = map (\<lambda>x. if P x then f x else x) xs"

lemma length_update_where [simp]: "length (update_where P f xs) = length xs"
  by (simp add: update_where_def)

lemma update_where_simps [simp]:
  "update_where P f [] = []"
  "update_where P f (x # xs) = (if P x then f x else x) # update_where P f xs"
  by (simp_all add: update_where_def)

lemma set_update_where:
  "set (update_where P f xs) = {y. \<exists>x \<in> set xs. y = (if P x then f x else x)}"
  by (auto simp: update_where_def)

lemma map_update_where:
  "(\<And>x. P x \<Longrightarrow> g (f x) = g x) \<Longrightarrow> map g (update_where P f xs) = map g xs"
  by (auto simp: update_where_def)

lemma update_where_none: "(\<And>x. x \<in> set xs \<Longrightarrow> \<not> P x) \<Longrightarrow> update_where P f xs = xs"
  by (auto simp: update_where_def intro!: map_idI)

lemma distinct_key_unique:
  "distinct (map k xs) \<Longrightarrow> x \<in> set xs \<Longrightarrow> y \<in> set xs \<Longrightarrow> k x = k y \<Longrightarrow> x = y"
  by (auto simp: distinct_map inj_on_def)

lemma length_filter_key:
  assumes "distinct (map k xs)" and "x \<in> set xs"
  shows "length (filter (\<lambda>y. k y = k x) xs) = 1"
  using assms by (induction xs) (force simp: filter_empty_conv image_iff)+

end
