(* ===== verification/Json.thy ===== *)
theory Json
  imports Prelude
begin

text \<open>
  JSON texts as the program produces and consumes them: Go's \<open>encoding/json\<close> (package
  \<open>json\<close>) marshals dependencies, inputs and events, and both \<open>json.Unmarshal\<close> and the
  \<open>jsonb\<close> columns read such texts back. A text is a list of bytes (type \<^typ>\<open>string\<close>,
  UTF-8). The printer follows \<open>json.Marshal\<close>: compact, with the HTML characters and the
  line separators U+2028 and U+2029 escaped. The parser is a recursive descent for the JSON grammar, with fuel for the
  nesting; \<open>json_parse_print\<close> shows that the fuel used is enough for every printed value.
  A number is kept as its text.
\<close>

section \<open>Values and the printer\<close>

datatype json =
    JNull
  | JBool bool
  | JNum string
  | JStr string
  | JArr "json list"
  | JObj "(string \<times> json) list"

abbreviation quote :: char where "quote \<equiv> CHR 0x22"
abbreviation bslash :: char where "bslash \<equiv> CHR 0x5C"

definition code :: "char \<Rightarrow> nat" where
  "code c = of_char c"

definition hex_digit :: "nat \<Rightarrow> char" where
  "hex_digit n = ''0123456789abcdef'' ! n"

definition escape_char :: "char \<Rightarrow> string" where
  "escape_char c =
     (if c = quote \<or> c = bslash then [bslash, c]
      else if c = CHR 0x08 then [bslash, CHR ''b'']
      else if c = CHR 0x0C then [bslash, CHR ''f'']
      else if c = CHR 0x0A then [bslash, CHR ''n'']
      else if c = CHR 0x0D then [bslash, CHR ''r'']
      else if c = CHR 0x09 then [bslash, CHR ''t'']
      else if code c < 32 \<or> c = CHR ''<'' \<or> c = CHR ''>'' \<or> c = CHR 0x26
      then [bslash, CHR ''u'', CHR ''0'', CHR ''0'', hex_digit (code c div 16), hex_digit (code c mod 16)]
      else [c])"

fun escape :: "string \<Rightarrow> string" where
  "escape [] = []"
| "escape (a # s) =
     (case s of
        b # c # s' \<Rightarrow>
          if a = CHR 0xE2 \<and> b = CHR 0x80 \<and> (c = CHR 0xA8 \<or> c = CHR 0xA9)
          then [bslash, CHR ''u'', CHR ''2'', CHR ''0'', CHR ''2'',
                if c = CHR 0xA8 then CHR ''8'' else CHR ''9''] @ escape s'
          else escape_char a @ escape s
      | _ \<Rightarrow> escape_char a @ escape s)"

definition print_string :: "string \<Rightarrow> string" where
  "print_string s = quote # escape s @ [quote]"

fun commas :: "string list \<Rightarrow> string" where
  "commas [] = []"
| "commas [x] = x"
| "commas (x # xs) = x @ CHR '','' # commas xs"

fun json_print :: "json \<Rightarrow> string" where
  "json_print JNull = ''null''"
| "json_print (JBool b) = (if b then ''true'' else ''false'')"
| "json_print (JNum n) = n"
| "json_print (JStr s) = print_string s"
| "json_print (JArr vs) = CHR ''['' # commas (map json_print vs) @ '']''"
| "json_print (JObj kvs) =
     CHR ''{'' # commas (map (\<lambda>(k, v). print_string k @ CHR '':'' # json_print v) kvs) @ ''}''"

section \<open>The parser\<close>

definition is_ws :: "char \<Rightarrow> bool" where
  "is_ws c \<longleftrightarrow> c = CHR 0x20 \<or> c = CHR 0x09 \<or> c = CHR 0x0A \<or> c = CHR 0x0D"

abbreviation skip_ws :: "string \<Rightarrow> string" where
  "skip_ws s \<equiv> dropWhile is_ws s"

definition hex_value :: "char \<Rightarrow> nat option" where
  "hex_value c =
     (let n = code c in
      if 48 \<le> n \<and> n \<le> 57 then Some (n - 48)
      else if 97 \<le> n \<and> n \<le> 102 then Some (n - 87)
      else if 65 \<le> n \<and> n \<le> 70 then Some (n - 55)
      else None)"

fun hex4 :: "string \<Rightarrow> (nat \<times> string) option" where
  "hex4 (a # b # c # d # r) =
     (case (hex_value a, hex_value b, hex_value c, hex_value d) of
        (Some i, Some j, Some k, Some l) \<Rightarrow> Some (i * 4096 + j * 256 + k * 16 + l, r)
      | _ \<Rightarrow> None)"
| "hex4 _ = None"

definition utf8 :: "nat \<Rightarrow> string" where
  "utf8 n =
     (if n < 128 then [char_of n]
      else if n < 2048 then [char_of (192 + n div 64), char_of (128 + n mod 64)]
      else if n < 65536
      then [char_of (224 + n div 4096), char_of (128 + n div 64 mod 64), char_of (128 + n mod 64)]
      else [char_of (240 + n div 262144), char_of (128 + n div 4096 mod 64),
            char_of (128 + n div 64 mod 64), char_of (128 + n mod 64)])"

text \<open>
  What follows a backslash inside a string. A surrogate pair stands for one code point; a
  lone surrogate is refused (\<open>json.Marshal\<close> never writes one).
\<close>

definition low_surrogate :: "string \<Rightarrow> (nat \<times> string) option" where
  "low_surrogate s =
     (case s of
        b # u # r \<Rightarrow>
          if b = bslash \<and> u = CHR ''u''
          then (case hex4 r of
                  Some (m, r') \<Rightarrow> if 56320 \<le> m \<and> m < 57344 then Some (m - 56320, r') else None
                | None \<Rightarrow> None)
          else None
      | _ \<Rightarrow> None)"

definition decode_escape :: "string \<Rightarrow> (string \<times> string) option" where
  "decode_escape s =
     (case s of
        [] \<Rightarrow> None
      | e # r \<Rightarrow>
          if e = quote \<or> e = bslash \<or> e = CHR ''/'' then Some ([e], r)
          else if e = CHR ''b'' then Some ([CHR 0x08], r)
          else if e = CHR ''f'' then Some ([CHR 0x0C], r)
          else if e = CHR ''n'' then Some ([CHR 0x0A], r)
          else if e = CHR ''r'' then Some ([CHR 0x0D], r)
          else if e = CHR ''t'' then Some ([CHR 0x09], r)
          else if e = CHR ''u''
          then (case hex4 r of
                  None \<Rightarrow> None
                | Some (n, r') \<Rightarrow>
                    if 55296 \<le> n \<and> n < 56320
                    then map_option (\<lambda>(m, r''). (utf8 (65536 + (n - 55296) * 1024 + m), r''))
                           (low_surrogate r')
                    else if 56320 \<le> n \<and> n < 57344 then None
                    else Some (utf8 n, r'))
          else None)"

lemma hex4_length: "hex4 s = Some (n, r) \<Longrightarrow> length r < length s"
  by (induction s rule: hex4.induct) (auto split: option.splits)

lemma low_surrogate_length: "low_surrogate s = Some (n, r) \<Longrightarrow> length r < length s"
  by (force simp: low_surrogate_def dest: hex4_length split: list.splits if_splits option.splits)

lemma decode_escape_length: "decode_escape s = Some (d, r) \<Longrightarrow> length r < length s"
  by (force simp: decode_escape_def dest: hex4_length low_surrogate_length
      split: list.splits if_splits option.splits)

text \<open>The body of a string, up to and including its closing quote.\<close>

function parse_chars :: "string \<Rightarrow> (string \<times> string) option" where
  "parse_chars [] = None"
| "parse_chars (c # s) =
     (if c = quote then Some ([], s)
      else if c = bslash
      then (case decode_escape s of
              None \<Rightarrow> None
            | Some (d, r) \<Rightarrow> map_option (\<lambda>(x, r'). (d @ x, r')) (parse_chars r))
      else if code c < 32 then None
      else map_option (\<lambda>(x, r'). (c # x, r')) (parse_chars s))"
  by pat_completeness auto
termination
  by (relation "measure length") (auto dest: decode_escape_length)

definition is_digit :: "char \<Rightarrow> bool" where
  "is_digit c \<longleftrightarrow> 48 \<le> code c \<and> code c \<le> 57"

definition number_char :: "char \<Rightarrow> bool" where
  "number_char c \<longleftrightarrow> is_digit c \<or> c \<in> {CHR ''+'', CHR ''-'', CHR ''.'', CHR ''e'', CHR ''E''}"

definition valid_exponent :: "string \<Rightarrow> bool" where
  "valid_exponent s =
     (case s of
        [] \<Rightarrow> True
      | e # r \<Rightarrow>
          (e = CHR ''e'' \<or> e = CHR ''E'') \<and>
          (let d = (case r of x # r' \<Rightarrow> if x = CHR ''+'' \<or> x = CHR ''-'' then r' else r | [] \<Rightarrow> [])
           in d \<noteq> [] \<and> list_all is_digit d))"

definition valid_number :: "string \<Rightarrow> bool" where
  "valid_number s =
     (let u = (case s of c # r \<Rightarrow> if c = CHR ''-'' then r else s | [] \<Rightarrow> []);
          i = takeWhile is_digit u; r1 = dropWhile is_digit u
      in list_all number_char s \<and> i \<noteq> [] \<and> (length i = 1 \<or> hd i \<noteq> CHR ''0'') \<and>
         (case r1 of
            c # r2 \<Rightarrow>
              if c = CHR ''.''
              then takeWhile is_digit r2 \<noteq> [] \<and> valid_exponent (dropWhile is_digit r2)
              else valid_exponent r1
          | [] \<Rightarrow> True))"

definition parse_number :: "string \<Rightarrow> (json \<times> string) option" where
  "parse_number s =
     (let n = takeWhile number_char s in
      if valid_number n then Some (JNum n, dropWhile number_char s) else None)"

definition parse_literal :: "string \<Rightarrow> (json \<times> string) option" where
  "parse_literal s =
     (if take 4 s = ''null'' then Some (JNull, drop 4 s)
      else if take 4 s = ''true'' then Some (JBool True, drop 4 s)
      else if take 5 s = ''false'' then Some (JBool False, drop 5 s)
      else parse_number s)"

fun parse_value :: "nat \<Rightarrow> string \<Rightarrow> (json \<times> string) option"
  and parse_elements :: "nat \<Rightarrow> string \<Rightarrow> (json list \<times> string) option"
  and parse_members :: "nat \<Rightarrow> string \<Rightarrow> ((string \<times> json) list \<times> string) option" where
  "parse_value 0 s = None"
| "parse_value (Suc n) s =
     (case skip_ws s of
        [] \<Rightarrow> None
      | c # r \<Rightarrow>
          if c = quote then map_option (\<lambda>(x, r'). (JStr x, r')) (parse_chars r)
          else if c = CHR ''[''
          then (case skip_ws r of
                  [] \<Rightarrow> None
                | d # r' \<Rightarrow>
                    if d = CHR '']'' then Some (JArr [], r')
                    else map_option (\<lambda>(vs, r''). (JArr vs, r'')) (parse_elements n r))
          else if c = CHR ''{''
          then (case skip_ws r of
                  [] \<Rightarrow> None
                | d # r' \<Rightarrow>
                    if d = CHR ''}'' then Some (JObj [], r')
                    else map_option (\<lambda>(kvs, r''). (JObj kvs, r'')) (parse_members n r))
          else parse_literal (c # r))"
| "parse_elements 0 s = None"
| "parse_elements (Suc n) s =
     (case parse_value n s of
        None \<Rightarrow> None
      | Some (v, r) \<Rightarrow>
          (case skip_ws r of
             [] \<Rightarrow> None
           | c # r' \<Rightarrow>
               if c = CHR '']'' then Some ([v], r')
               else if c = CHR '','' then map_option (\<lambda>(vs, r''). (v # vs, r'')) (parse_elements n r')
               else None))"
| "parse_members 0 s = None"
| "parse_members (Suc n) s =
     (case skip_ws s of
        [] \<Rightarrow> None
      | q # r \<Rightarrow>
          if q \<noteq> quote then None
          else (case parse_chars r of
             None \<Rightarrow> None
           | Some (k, r1) \<Rightarrow>
               (case skip_ws r1 of
                  [] \<Rightarrow> None
                | col # r2 \<Rightarrow>
                    if col \<noteq> CHR '':'' then None
                    else (case parse_value n r2 of
                       None \<Rightarrow> None
                     | Some (v, r3) \<Rightarrow>
                         (case skip_ws r3 of
                            [] \<Rightarrow> None
                          | c # r4 \<Rightarrow>
                              if c = CHR ''}'' then Some ([(k, v)], r4)
                              else if c = CHR '',''
                              then map_option (\<lambda>(kvs, r5). ((k, v) # kvs, r5)) (parse_members n r4)
                              else None)))))"

definition json_parse :: "string \<Rightarrow> json option" where
  "json_parse s =
     (case parse_value (Suc (length s)) s of
        Some (v, r) \<Rightarrow> if skip_ws r = [] then Some v else None
      | None \<Rightarrow> None)"

section \<open>Strings: escaping and reading back\<close>

lemma hex_value_hex_digit: "n < 16 \<Longrightarrow> hex_value (hex_digit n) = Some n"
proof -
  assume "n < 16"
  moreover have "list_all (\<lambda>n. hex_value (hex_digit n) = Some n) [0..<16]"
    by code_simp
  ultimately show ?thesis by (simp add: list_all_iff)
qed

lemma code_less: "code c < 256"
proof -
  have "code c mod 256 = code c" by (simp add: code_def)
  then show ?thesis by (metis mod_less_divisor zero_less_numeral)
qed

lemma char_of_code: "char_of (code c) = c"
  by (simp add: code_def)

lemma hex4_low_byte:
  "hex4 (CHR ''0'' # CHR ''0'' # hex_digit (code c div 16) # hex_digit (code c mod 16) # t) =
     Some (code c, t)"
proof -
  have "code c div 16 < 16" using code_less [of c] by simp
  moreover have "hex_value (CHR ''0'') = Some 0" by code_simp
  ultimately show ?thesis by (simp add: hex_value_hex_digit)
qed

abbreviation prepend :: "string \<Rightarrow> (string \<times> string) option \<Rightarrow> (string \<times> string) option" where
  "prepend d m \<equiv> map_option (\<lambda>(x, r). (d @ x, r)) m"

lemma low_byte_cases:
  "code c < 32 \<or> c = CHR ''<'' \<or> c = CHR ''>'' \<or> c = CHR 0x26 \<Longrightarrow> code c < 128"
  by (auto simp: code_def)

lemma decode_escape_low_byte:
  assumes "code c < 128"
  shows "decode_escape (CHR ''u'' # CHR ''0'' # CHR ''0'' # hex_digit (code c div 16) #
           hex_digit (code c mod 16) # t) = Some ([c], t)"
proof -
  have "utf8 (code c) = [c]" using assms by (simp add: utf8_def char_of_code)
  with assms show ?thesis by (simp add: decode_escape_def hex4_low_byte del: hex4.simps)
qed

lemma parse_chars_escape_char:
  "parse_chars (escape_char c @ t) = prepend [c] (parse_chars t)"
proof (cases "code c < 32 \<or> c = CHR ''<'' \<or> c = CHR ''>'' \<or> c = CHR 0x26")
  case True
  have "decode_escape [] = None" by (simp add: decode_escape_def)
  note low = decode_escape_low_byte [OF low_byte_cases [OF True]]
  show ?thesis
  proof (cases "escape_char c = [bslash, CHR ''u'', CHR ''0'', CHR ''0'',
           hex_digit (code c div 16), hex_digit (code c mod 16)]")
    case True
    then show ?thesis by (simp add: low)
  next
    case False
    with True show ?thesis
      by (auto simp: escape_char_def decode_escape_def split: if_splits)
  qed
next
  case False
  then show ?thesis
    by (auto simp: escape_char_def decode_escape_def)
qed

lemma parse_chars_line_separator:
  assumes "c = CHR 0xA8 \<or> c = CHR 0xA9"
  shows "parse_chars ([bslash, CHR ''u'', CHR ''2'', CHR ''0'', CHR ''2'',
             if c = CHR 0xA8 then CHR ''8'' else CHR ''9''] @ t) =
         prepend [CHR 0xE2, CHR 0x80, c] (parse_chars t)"
proof -
  have "hex_value (CHR ''0'') = Some 0" "hex_value (CHR ''2'') = Some 2"
    "hex_value (CHR ''8'') = Some 8" "hex_value (CHR ''9'') = Some 9"
    by code_simp+
  moreover have "utf8 8232 = [CHR 0xE2, CHR 0x80, CHR 0xA8]"
    by (simp add: utf8_def char_of_eq_iff)
  moreover have "utf8 8233 = [CHR 0xE2, CHR 0x80, CHR 0xA9]"
    by (simp add: utf8_def char_of_eq_iff)
  ultimately show ?thesis
    using assms by (elim disjE) (simp_all add: decode_escape_def)
qed

declare parse_chars.simps(2) [simp del]

lemma parse_chars_quote: "parse_chars (quote # r) = Some ([], r)"
  by (simp add: parse_chars.simps(2))

theorem parse_chars_escape: "parse_chars (escape s @ quote # r) = Some (s, r)"
proof (induction s rule: escape.induct)
  case 1
  then show ?case by (simp add: parse_chars_quote)
next
  case (2 a s)
  show ?case
  proof (cases "\<exists>b c s'. s = b # c # s' \<and>
      a = CHR 0xE2 \<and> b = CHR 0x80 \<and> (c = CHR 0xA8 \<or> c = CHR 0xA9)")
    case True
    then obtain b c s' where s: "s = b # c # s'"
      and abc: "a = CHR 0xE2 \<and> b = CHR 0x80 \<and> (c = CHR 0xA8 \<or> c = CHR 0xA9)"
      by blast
    then have "parse_chars (escape s' @ quote # r) = Some (s', r)"
      using 2(3) by simp
    with s abc parse_chars_line_separator [of c "escape s' @ quote # r"] show ?thesis
      by simp
  next
    case False
    then have "escape (a # s) = escape_char a @ escape s"
      by (auto split: list.split)
    moreover have "parse_chars (escape s @ quote # r) = Some (s, r)"
      using 2 False by (cases s rule: list.exhaust; cases "tl s") auto
    ultimately show ?thesis
      by (simp add: parse_chars_escape_char)
  qed
qed

text \<open>
  A string that needs no escaping inside quotes: what \<open>fmt.Sprintf\<close> may paste between two
  quotes without changing the meaning of the text around it.
\<close>

definition plain :: "string \<Rightarrow> bool" where
  "plain s \<longleftrightarrow> list_all (\<lambda>c. c \<noteq> quote \<and> c \<noteq> bslash \<and> 32 \<le> code c) s"

lemma parse_chars_plain: "plain s \<Longrightarrow> parse_chars (s @ quote # r) = Some (s, r)"
  by (induction s) (auto simp: plain_def parse_chars.simps(2) parse_chars_quote)

section \<open>Values: reading back what was printed\<close>

fun wf_json :: "json \<Rightarrow> bool" where
  "wf_json (JNum n) = valid_number n"
| "wf_json (JArr vs) = list_all wf_json vs"
| "wf_json (JObj kvs) = list_all (\<lambda>(k, v). wf_json v) kvs"
| "wf_json _ = True"

fun nesting :: "json \<Rightarrow> nat" where
  "nesting (JArr vs) = Suc (foldr (\<lambda>v n. Suc (max (nesting v) n)) vs 0)"
| "nesting (JObj kvs) = Suc (foldr (\<lambda>(k, v) n. Suc (max (nesting v) n)) kvs 0)"
| "nesting _ = 1"

text \<open>What may follow a number: the end, or a character that is not part of a number.\<close>

definition ends_number :: "string \<Rightarrow> bool" where
  "ends_number r \<longleftrightarrow> (case r of [] \<Rightarrow> True | c # _ \<Rightarrow> \<not> number_char c)"

lemma ends_number_simps [simp]:
  "ends_number []" "ends_number (CHR '','' # r)" "ends_number (CHR '']'' # r)"
  "ends_number (CHR ''}'' # r)"
  by (simp_all add: ends_number_def number_char_def is_digit_def code_def)

lemma is_ws_simps [simp]:
  "\<not> is_ws quote" "\<not> is_ws (CHR ''['')" "\<not> is_ws (CHR ''{'')" "\<not> is_ws (CHR '']'')"
  "\<not> is_ws (CHR ''}'')" "\<not> is_ws (CHR '','')" "\<not> is_ws (CHR '':'')"
  by (simp_all add: is_ws_def)

lemma valid_number_chars: "valid_number n \<Longrightarrow> list_all number_char n"
  by (simp add: valid_number_def Let_def)

lemma parse_number_print:
  assumes "valid_number n" and "ends_number r"
  shows "parse_number (n @ r) = Some (JNum n, r)"
proof -
  have "\<forall>c \<in> set n. number_char c"
    using valid_number_chars [OF assms(1)] by (simp add: list_all_iff)
  moreover have "takeWhile number_char r = []" "dropWhile number_char r = r"
    using assms(2) by (auto simp: ends_number_def split: list.splits)
  ultimately show ?thesis
    using assms(1) by (simp add: parse_number_def)
qed

lemma valid_number_Cons: "valid_number n \<Longrightarrow> \<exists>c m. n = c # m \<and> number_char c"
  by (cases n) (auto simp: valid_number_def Let_def)

lemma number_char_not:
  "number_char c \<Longrightarrow> \<not> is_ws c \<and> c \<noteq> quote \<and> c \<noteq> CHR ''['' \<and> c \<noteq> CHR ''{'' \<and>
     c \<noteq> CHR ''n'' \<and> c \<noteq> CHR ''t'' \<and> c \<noteq> CHR ''f'' \<and> c \<noteq> CHR '']''"
  by (auto simp: number_char_def is_digit_def is_ws_def code_def)

text \<open>The first character of a printed value: never white space, never a closing bracket.\<close>

lemma print_head:
  assumes "wf_json v"
  shows "\<exists>c s. json_print v = c # s \<and> \<not> is_ws c \<and> c \<noteq> CHR '']''"
proof (cases v)
  case (JNum n)
  with assms show ?thesis
    using valid_number_Cons [of n] number_char_not by fastforce
qed (auto simp: print_string_def is_ws_def)

lemma parse_literal_number:
  "valid_number n \<Longrightarrow> parse_literal (n @ r) = parse_number (n @ r)"
  by (drule valid_number_Cons) (auto simp: parse_literal_def dest: number_char_not)

text \<open>What the recursive descent does on one printed value, for any larger fuel.\<close>

definition reads_back :: "json \<Rightarrow> bool" where
  "reads_back v \<longleftrightarrow>
     (\<forall>n r. nesting v \<le> n \<longrightarrow> ends_number r \<longrightarrow>
        parse_value n (json_print v @ r) = Some (v, r))"

lemma commas_Cons: "xs \<noteq> [] \<Longrightarrow> commas (x # xs) = x @ CHR '','' # commas xs"
  by (cases xs) simp_all

lemma parse_elements_print:
  assumes "vs \<noteq> []" and "\<forall>v \<in> set vs. reads_back v"
    and "foldr (\<lambda>v n. Suc (max (nesting v) n)) vs 0 \<le> n"
  shows "parse_elements n (commas (map json_print vs) @ CHR '']'' # r) = Some (vs, r)"
  using assms
proof (induction vs arbitrary: n)
  case Nil
  then show ?case by simp
next
  case (Cons v vs)
  from Cons.prems obtain m where n: "n = Suc m" and m: "nesting v \<le> m"
    "foldr (\<lambda>v n. Suc (max (nesting v) n)) vs 0 \<le> m"
    by (cases n) auto
  have v: "ends_number s \<Longrightarrow> parse_value m (json_print v @ s) = Some (v, s)" for s
    using Cons.prems(2) m(1) by (simp add: reads_back_def)
  show ?case
  proof (cases "vs = []")
    case True
    with v [of "CHR '']'' # r"] n show ?thesis by simp
  next
    case False
    with Cons have "parse_elements m (commas (map json_print vs) @ CHR '']'' # r) = Some (vs, r)"
      using m(2) by simp
    with v [of "CHR '','' # commas (map json_print vs) @ CHR '']'' # r"] n False show ?thesis
      by (simp add: commas_Cons)
  qed
qed

lemma parse_members_print:
  assumes "kvs \<noteq> []" and "\<forall>(k, v) \<in> set kvs. reads_back v"
    and "foldr (\<lambda>(k, v) n. Suc (max (nesting v) n)) kvs 0 \<le> n"
  shows "parse_members n
           (commas (map (\<lambda>(k, v). print_string k @ CHR '':'' # json_print v) kvs) @ CHR ''}'' # r) =
         Some (kvs, r)"
  using assms
proof (induction kvs arbitrary: n)
  case Nil
  then show ?case by simp
next
  case (Cons kv kvs)
  obtain k v where kv: "kv = (k, v)" by (cases kv)
  from Cons.prems kv obtain m where n: "n = Suc m" and m: "nesting v \<le> m"
    "foldr (\<lambda>(k, v) n. Suc (max (nesting v) n)) kvs 0 \<le> m"
    by (cases n) auto
  have v: "ends_number s \<Longrightarrow> parse_value m (json_print v @ s) = Some (v, s)" for s
    using Cons.prems(2) kv m(1) by (simp add: reads_back_def)
  show ?case
  proof (cases "kvs = []")
    case True
    with v [of "CHR ''}'' # r"] n kv show ?thesis
      by (simp add: print_string_def parse_chars_escape)
  next
    case False
    let ?s = "commas (map (\<lambda>(k, v). print_string k @ CHR '':'' # json_print v) kvs) @ CHR ''}'' # r"
    from False Cons have "parse_members m ?s = Some (kvs, r)"
      using m(2) by simp
    with v [of "CHR '','' # ?s"] n kv False show ?thesis
      by (simp add: commas_Cons print_string_def parse_chars_escape)
  qed
qed

lemma reads_backI:
  "wf_json v \<Longrightarrow> reads_back v"
proof (induction v)
  case (JNum x)
  show ?case
    unfolding reads_back_def
  proof (intro allI impI)
    fix n r
    assume "nesting (JNum x) \<le> n" "ends_number r"
    obtain c s where x: "x = c # s" "number_char c"
      using JNum valid_number_Cons [of x] by auto
    obtain m where "n = Suc m" using \<open>nesting (JNum x) \<le> n\<close> by (cases n) auto
    with x JNum \<open>ends_number r\<close> number_char_not [OF x(2)]
      parse_literal_number [of x r] parse_number_print [of x r]
    show "parse_value n (json_print (JNum x) @ r) = Some (JNum x, r)"
      by simp
  qed
next
  case (JArr vs)
  show ?case
    unfolding reads_back_def
  proof (intro allI impI)
    fix n r
    assume n: "nesting (JArr vs) \<le> n"
    then obtain m where m: "n = Suc m" by (cases n) auto
    show "parse_value n (json_print (JArr vs) @ r) = Some (JArr vs, r)"
    proof (cases vs)
      case Nil
      with m show ?thesis by simp
    next
      case (Cons v ws)
      from JArr have "\<forall>v \<in> set vs. reads_back v" by (auto simp: list_all_iff)
      with n m Cons have "parse_elements m (commas (map json_print vs) @ CHR '']'' # r) = Some (vs, r)"
        by (intro parse_elements_print) auto
      moreover obtain c s where "json_print v = c # s" "\<not> is_ws c" "c \<noteq> CHR '']''"
        using JArr.prems Cons print_head [of v] by auto
      then have "\<exists>c t. commas (map json_print vs) = c # t \<and> \<not> is_ws c \<and> c \<noteq> CHR '']''"
        using Cons by (cases ws) auto
      ultimately show ?thesis using m by fastforce
    qed
  qed
next
  case (JObj kvs)
  show ?case
    unfolding reads_back_def
  proof (intro allI impI)
    fix n r
    assume n: "nesting (JObj kvs) \<le> n"
    then obtain m where m: "n = Suc m" by (cases n) auto
    show "parse_value n (json_print (JObj kvs) @ r) = Some (JObj kvs, r)"
    proof (cases kvs)
      case Nil
      with m show ?thesis by simp
    next
      case (Cons kv ws)
      let ?s = "commas (map (\<lambda>(k, v). print_string k @ CHR '':'' # json_print v) kvs)"
      from JObj have "\<forall>(k, v) \<in> set kvs. reads_back v"
        by (fastforce simp: list_all_iff)
      with n m Cons have "parse_members m (?s @ CHR ''}'' # r) = Some (kvs, r)"
        by (intro parse_members_print) auto
      moreover have "\<exists>t. ?s = quote # t"
        using Cons by (cases ws) (auto simp: print_string_def split: prod.split)
      ultimately show ?thesis using m by fastforce
    qed
  qed
qed (auto simp: reads_back_def print_string_def parse_chars_escape parse_literal_def is_ws_def
       Suc_le_eq gr0_conv_Suc)

section \<open>Enough fuel: the round trip\<close>

lemma length_print_string: "2 \<le> length (print_string s)"
  by (simp add: print_string_def)

lemma nesting_le_print: "wf_json v \<Longrightarrow> nesting v \<le> length (json_print v)"
proof (induction v)
  case (JNum n)
  then show ?case using valid_number_Cons [of n] by auto
next
  case (JArr vs)
  then have "\<forall>v \<in> set vs. nesting v \<le> length (json_print v)"
    by (auto simp: list_all_iff)
  then have "foldr (\<lambda>v n. Suc (max (nesting v) n)) vs 0 \<le> Suc (length (commas (map json_print vs)))"
  proof (induction vs)
    case (Cons v vs)
    then show ?case by (cases vs) auto
  qed simp
  then show ?case by simp
next
  case (JObj kvs)
  then have "\<forall>(k, v) \<in> set kvs. nesting v \<le> length (json_print v)"
    by (fastforce simp: list_all_iff)
  then have "foldr (\<lambda>(k, v) n. Suc (max (nesting v) n)) kvs 0 \<le>
      Suc (length (commas (map (\<lambda>(k, v). print_string k @ CHR '':'' # json_print v) kvs)))"
  proof (induction kvs)
    case (Cons kv kvs)
    then show ?case by (cases kvs) (auto split: prod.splits)
  qed simp
  then show ?case by simp
qed (simp_all add: print_string_def)

theorem json_parse_print: "wf_json v \<Longrightarrow> json_parse (json_print v) = Some v"
proof -
  assume wf: "wf_json v"
  have "nesting v \<le> Suc (length (json_print v))"
    using nesting_le_print [OF wf] by simp
  then have "parse_value (Suc (length (json_print v))) (json_print v @ []) = Some (v, [])"
    using reads_backI [OF wf] unfolding reads_back_def by (metis ends_number_simps(1))
  then show ?thesis by (simp add: json_parse_def del: parse_value.simps)
qed

section \<open>Arrays of strings\<close>

text \<open>
  The dependencies of a task travel as an array of strings. \<open>json.Marshal\<close> of a nil
  slice writes \<open>null\<close>; the mapper's slice is nil when the request leaves the field out.
\<close>

definition marshal_strings :: "string list \<Rightarrow> string" where
  "marshal_strings xs = json_print (JArr (map JStr xs))"

fun string_element :: "json \<Rightarrow> string option" where
  "string_element (JStr s) = Some s"
| "string_element _ = None"

definition string_array :: "string \<Rightarrow> string list option" where
  "string_array s =
     (case json_parse s of
        Some (JArr vs) \<Rightarrow> those (map string_element vs)
      | _ \<Rightarrow> None)"

lemma those_map_string_element: "those (map string_element (map JStr xs)) = Some xs"
  by (induction xs) auto

theorem string_array_marshal: "string_array (marshal_strings xs) = Some xs"
proof -
  have "wf_json (JArr (map JStr xs))" by (simp add: list_all_iff)
  then show ?thesis
    by (simp add: string_array_def marshal_strings_def json_parse_print those_map_string_element
        del: map_map json_print.simps)
qed

text \<open>
  The one-element array the repository writes with \<open>fmt.Sprintf\<close>: with a plain name it
  is the array of that name.
\<close>

lemma string_array_singleton:
  assumes "plain x"
  shows "string_array ([CHR ''['', quote] @ x @ [quote, CHR '']'']) = Some [x]"
proof -
  let ?s = "[CHR ''['', quote] @ x @ [quote, CHR '']'']"
  have "parse_chars (x @ [quote, CHR '']'']) = Some (x, [CHR '']''])"
    using parse_chars_plain [OF assms, of "[CHR '']'']"] by simp
  then have "parse_value (Suc (Suc (Suc (Suc (Suc (length x)))))) ?s = Some (JArr [JStr x], [])"
    by simp
  moreover have "Suc (length ?s) = Suc (Suc (Suc (Suc (Suc (length x)))))" by simp
  ultimately have "json_parse ?s = Some (JArr [JStr x])"
    unfolding json_parse_def by (simp del: parse_value.simps)
  then show ?thesis by (simp add: string_array_def)
qed

end
