(* ===== verification/Domain.thy ===== *)
theory Domain
  imports Json
begin

text \<open>
  Package \<open>internal/domain\<close>: tasks, workflow executions and the two events, with their
  factories and methods. The two status types are Go strings with a closed set of
  constants; the constants are the constructors. \<open>uuid.New()\<close> and \<open>time.Now()\<close> are
  arguments of the factories (\<open>newID\<close>, \<open>now\<close>). Counters are unbounded integers; the
  bounds that keep them far from the width of Go's \<open>int\<close> are theorems about the system.
\<close>

section \<open>Status types\<close>

datatype TaskStatus =
    StatusPending | StatusQueued | StatusRunning | StatusCompleted | StatusFailed | StatusSkipped

fun TaskStatus_string :: "TaskStatus \<Rightarrow> string" where
  "TaskStatus_string StatusPending = ''PENDING''"
| "TaskStatus_string StatusQueued = ''QUEUED''"
| "TaskStatus_string StatusRunning = ''RUNNING''"
| "TaskStatus_string StatusCompleted = ''COMPLETED''"
| "TaskStatus_string StatusFailed = ''FAILED''"
| "TaskStatus_string StatusSkipped = ''SKIPPED''"

datatype WorkflowStatus = WorkflowRunning | WorkflowCompleted | WorkflowFailed | WorkflowPaused

fun WorkflowStatus_string :: "WorkflowStatus \<Rightarrow> string" where
  "WorkflowStatus_string WorkflowRunning = ''RUNNING''"
| "WorkflowStatus_string WorkflowCompleted = ''COMPLETED''"
| "WorkflowStatus_string WorkflowFailed = ''FAILED''"
| "WorkflowStatus_string WorkflowPaused = ''PAUSED''"

text \<open>A termination type travels as JSON, where any string decodes into it.\<close>

type_synonym TaskTerminationType = string

definition TaskTerminationFailed :: TaskTerminationType where
  "TaskTerminationFailed = ''failed''"

definition TaskTerminationSkipped :: TaskTerminationType where
  "TaskTerminationSkipped = ''skipped''"

lemma TaskTermination_distinct [simp]:
  "TaskTerminationFailed \<noteq> TaskTerminationSkipped" "TaskTerminationSkipped \<noteq> TaskTerminationFailed"
  by (simp_all add: TaskTerminationFailed_def TaskTerminationSkipped_def)

text \<open>The database column holds the string, so no two constants may share one.\<close>

lemma TaskStatus_string_inject [simp]:
  "TaskStatus_string a = TaskStatus_string b \<longleftrightarrow> a = b"
  by (cases a; cases b) simp_all

lemma WorkflowStatus_string_inject [simp]:
  "WorkflowStatus_string a = WorkflowStatus_string b \<longleftrightarrow> a = b"
  by (cases a; cases b) simp_all

section \<open>Tasks\<close>

record Task =
  ID :: uuid
  ExecutionID :: uuid
  RefID :: string
  Action :: string
  Status :: TaskStatus
  RetryCount :: int
  MaxRetries :: int
  LastError :: string
  Dependencies :: string
  InDegree :: int
  SkipHint :: bool
  WorkerID :: "string option"
  Version :: int
  Input :: string
  Output :: string
  CreatedAt :: int
  UpdatedAt :: int

text \<open>Fields a composite literal leaves out are zero values.\<close>

definition NewTask :: "uuid \<Rightarrow> int \<Rightarrow> uuid \<Rightarrow> string \<Rightarrow> string \<Rightarrow> Task" where
  "NewTask newID now executionID refID action =
     \<lparr>ID = newID, ExecutionID = executionID, RefID = refID, Action = action,
      Status = StatusPending, RetryCount = 0, MaxRetries = 0, LastError = '''',
      Dependencies = '''', InDegree = 0, SkipHint = False, WorkerID = None, Version = 1,
      Input = '''', Output = '''', CreatedAt = now, UpdatedAt = 0\<rparr>"

definition CanRetry :: "Task \<Rightarrow> int \<Rightarrow> bool" where
  "CanRetry t maxRetry \<longleftrightarrow> RetryCount t < maxRetry"

text \<open>
  The \<open>default\<close> tags of the struct. On an insert gorm writes the tag's value for a field
  that is tagged and zero. Status is never zero here: the factory sets it.
\<close>

definition task_column_defaults :: "Task \<Rightarrow> Task" where
  "task_column_defaults t =
     t\<lparr>MaxRetries := (if MaxRetries t = 0 then 3 else MaxRetries t),
       Version := (if Version t = 0 then 1 else Version t)\<rparr>"

section \<open>Workflow executions\<close>

record WorkflowExecution =
  we_ID :: uuid
  UserID :: uuid
  WorkflowType :: string
  we_Status :: WorkflowStatus
  Tasks :: "Task list"
  we_CreatedAt :: int
  we_UpdatedAt :: int

definition NewWorkflow :: "uuid \<Rightarrow> int \<Rightarrow> uuid \<Rightarrow> string \<Rightarrow> WorkflowExecution" where
  "NewWorkflow newID now userID workflowType =
     \<lparr>we_ID = newID, UserID = userID, WorkflowType = workflowType, we_Status = WorkflowRunning,
      Tasks = [], we_CreatedAt = now, we_UpdatedAt = 0\<rparr>"

definition IsFinished :: "WorkflowExecution \<Rightarrow> bool" where
  "IsFinished w \<longleftrightarrow> we_Status w = WorkflowCompleted \<or> we_Status w = WorkflowFailed"

section \<open>Events\<close>

record TaskCompletedEvent =
  tc_ExecutionID :: uuid
  tc_TaskID :: uuid
  tc_RefID :: string

record TaskTerminatedEvent =
  tt_ExecutionID :: uuid
  tt_TaskID :: uuid
  tt_RefID :: string
  tt_Type :: TaskTerminationType
  tt_Error :: string

definition NewTaskTerminatedEvent ::
  "uuid \<Rightarrow> uuid \<Rightarrow> string \<Rightarrow> TaskTerminationType \<Rightarrow> string \<Rightarrow> TaskTerminatedEvent" where
  "NewTaskTerminatedEvent executionID taskID refID terminationType errorMsg =
     \<lparr>tt_ExecutionID = executionID, tt_TaskID = taskID, tt_RefID = refID,
      tt_Type = terminationType, tt_Error = errorMsg\<rparr>"

section \<open>The monotone order of task and execution rows\<close>

text \<open>
  What no operation of the program may undo. The identity, the action and the dependencies
  of a row never change; the retry counter and the version never decrease; the in-degree
  never increases; and a skip hint, once set, stays set.
\<close>

definition task_evolves :: "Task \<Rightarrow> Task \<Rightarrow> bool" where
  "task_evolves t t' \<longleftrightarrow>
     ID t' = ID t \<and> ExecutionID t' = ExecutionID t \<and> RefID t' = RefID t \<and>
     Action t' = Action t \<and> Dependencies t' = Dependencies t \<and> Input t' = Input t \<and>
     MaxRetries t' = MaxRetries t \<and> CreatedAt t' = CreatedAt t \<and>
     RetryCount t \<le> RetryCount t' \<and> Version t \<le> Version t' \<and> InDegree t' \<le> InDegree t \<and>
     (SkipHint t \<longrightarrow> SkipHint t') \<and> (Version t' = Version t \<longrightarrow> RetryCount t' = RetryCount t)"

text \<open>A failed execution stays failed; nothing but the status ever changes.\<close>

definition execution_evolves :: "WorkflowExecution \<Rightarrow> WorkflowExecution \<Rightarrow> bool" where
  "execution_evolves e e' \<longleftrightarrow>
     we_ID e' = we_ID e \<and> UserID e' = UserID e \<and> WorkflowType e' = WorkflowType e \<and>
     we_CreatedAt e' = we_CreatedAt e \<and>
     (we_Status e = WorkflowFailed \<longrightarrow> we_Status e' = WorkflowFailed)"

lemma task_evolves_refl [simp]: "task_evolves t t"
  by (simp add: task_evolves_def)

lemma task_evolves_trans: "task_evolves s t \<Longrightarrow> task_evolves t u \<Longrightarrow> task_evolves s u"
  by (simp add: task_evolves_def)

lemma execution_evolves_refl [simp]: "execution_evolves e e"
  by (simp add: execution_evolves_def)

lemma execution_evolves_trans:
  "execution_evolves s t \<Longrightarrow> execution_evolves t u \<Longrightarrow> execution_evolves s u"
  by (simp add: execution_evolves_def)

text \<open>Rows are only ever updated in place or appended.\<close>

definition rows_evolve :: "('a \<Rightarrow> 'a \<Rightarrow> bool) \<Rightarrow> 'a list \<Rightarrow> 'a list \<Rightarrow> bool" where
  "rows_evolve R xs ys \<longleftrightarrow> (\<exists>zs new. ys = zs @ new \<and> list_all2 R xs zs)"

lemma rows_evolve_append: "(\<And>x. R x x) \<Longrightarrow> rows_evolve R xs (xs @ new)"
  unfolding rows_evolve_def by (intro exI conjI) (rule refl, rule list.rel_refl)

lemma rows_evolve_refl: "(\<And>x. R x x) \<Longrightarrow> rows_evolve R xs xs"
  using rows_evolve_append [of R xs "[]"] by simp

lemma rows_evolve_trans:
  assumes "\<And>x y z. R x y \<Longrightarrow> R y z \<Longrightarrow> R x z"
    and "rows_evolve R xs ys" and "rows_evolve R ys zs"
  shows "rows_evolve R xs zs"
proof -
  obtain ys' new where ys: "ys = ys' @ new" "list_all2 R xs ys'"
    using assms(2) by (auto simp: rows_evolve_def)
  obtain zs' new' where zs: "zs = zs' @ new'" "list_all2 R ys zs'"
    using assms(3) by (auto simp: rows_evolve_def)
  from ys(1) zs(2) obtain us vs where "zs' = us @ vs" "list_all2 R ys' us"
    by (auto simp: list_all2_append1)
  moreover from this ys(2) have "list_all2 R xs us"
    by (auto intro: list_all2_trans [OF assms(1)])
  ultimately show ?thesis using zs(1) by (auto simp: rows_evolve_def)
qed

lemma rows_evolve_update:
  assumes "\<And>x. x \<in> set xs \<Longrightarrow> P x \<Longrightarrow> R x (f x)" and "\<And>x. R x x"
  shows "rows_evolve R xs (update_where P f xs)"
proof -
  have "list_all2 R xs (update_where P f xs)"
    using assms by (auto simp: update_where_def list_all2_conv_all_nth)
  then show ?thesis by (auto simp: rows_evolve_def)
qed

lemma rows_evolveE:
  assumes "rows_evolve R xs ys" and "x \<in> set xs"
  obtains y where "y \<in> set ys" and "R x y"
proof -
  from assms(1) obtain zs new where ys: "ys = zs @ new" "list_all2 R xs zs"
    by (auto simp: rows_evolve_def)
  from assms(2) obtain i where i: "i < length xs" "x = xs ! i"
    by (auto simp: in_set_conv_nth)
  with ys(2) have "R x (zs ! i)" "zs ! i \<in> set zs"
    by (auto simp: list_all2_conv_all_nth)
  with ys(1) that show thesis by auto
qed

end
