(* ===== verification/Dto_Mapper.thy ===== *)
theory Dto_Mapper
  imports Domain "HOL-Library.List_Lexorder" "HOL-Library.Char_ord"
begin

text \<open>
  \<open>internal/api/dto\<close> and \<open>internal/mapper/workflow_mapper.go\<close>: a request, and what it becomes
  as an execution and its tasks. A nil slice or map is \<open>None\<close>: the members of a task are
  not validated, because the \<open>binding\<close> tag of \<open>Tasks\<close> does not say \<open>dive\<close>. An input is
  the decoded JSON value, with a number as the text \<open>json.Marshal\<close> writes for it.
\<close>

section \<open>Requests\<close>

record TaskDTO =
  dto_RefID :: string
  dto_Action :: string
  dto_Dependencies :: "string list option"
  dto_Input :: "(string \<times> json) list option"

record CreateWorkflowRequest =
  req_Type :: string
  req_UserID :: uuid
  req_Tasks :: "TaskDTO list"

record CreateWorkflowResponse =
  resp_ID :: uuid

text \<open>What the binding checks: \<open>required\<close> on the three fields, and \<open>min=1\<close>.\<close>

definition binding_ok :: "CreateWorkflowRequest \<Rightarrow> bool" where
  "binding_ok req \<longleftrightarrow> req_Type req \<noteq> [] \<and> req_UserID req \<noteq> uuid_Nil \<and> 1 \<le> length (req_Tasks req)"

section \<open>Marshalling\<close>

text \<open>\<open>json.Marshal\<close> writes the members of a map in the byte order of their keys.\<close>

fun sort_members :: "json \<Rightarrow> json" where
  "sort_members (JArr vs) = JArr (map sort_members vs)"
| "sort_members (JObj kvs) = JObj (sort_key fst (map (\<lambda>(k, v). (k, sort_members v)) kvs))"
| "sort_members v = v"

definition marshal_input :: "(string \<times> json) list option \<Rightarrow> string" where
  "marshal_input m = (case m of None \<Rightarrow> json_print JNull | Some kvs \<Rightarrow> json_print (sort_members (JObj kvs)))"

definition marshal_dependencies :: "string list option \<Rightarrow> string" where
  "marshal_dependencies deps =
     (case deps of None \<Rightarrow> json_print JNull | Some ds \<Rightarrow> marshal_strings ds)"

text \<open>\<open>len\<close> of a slice that may be nil.\<close>

definition slice_len :: "'a list option \<Rightarrow> int" where
  "slice_len s = (case s of None \<Rightarrow> 0 | Some xs \<Rightarrow> int (length xs))"

section \<open>The mapper\<close>

text \<open>\<open>newID\<close> and \<open>now\<close> are the results of \<open>uuid.New()\<close> and \<open>time.Now()\<close> in \<open>NewTask\<close>.\<close>

definition ToTask :: "uuid \<Rightarrow> int \<Rightarrow> uuid \<Rightarrow> TaskDTO \<Rightarrow> Task" where
  "ToTask newID now workflowID taskDTO =
     (let task = NewTask newID now workflowID (dto_RefID taskDTO) (dto_Action taskDTO);
          task = task\<lparr>Dependencies := marshal_dependencies (dto_Dependencies taskDTO)\<rparr>;
          task = task\<lparr>InDegree := slice_len (dto_Dependencies taskDTO)\<rparr>;
          task = task\<lparr>Input := marshal_input (dto_Input taskDTO)\<rparr>
      in if InDegree task = 0 then task\<lparr>Status := StatusQueued\<rparr> else task\<lparr>Status := StatusPending\<rparr>)"

text \<open>The calls of \<open>uuid.New()\<close> and \<open>time.Now()\<close> are numbered in the order they are made.\<close>

fun ToTasks :: "(nat \<Rightarrow> uuid) \<Rightarrow> (nat \<Rightarrow> int) \<Rightarrow> nat \<Rightarrow> uuid \<Rightarrow> TaskDTO list \<Rightarrow> Task list" where
  "ToTasks ids clock n workflowID [] = []"
| "ToTasks ids clock n workflowID (taskDTO # rest) =
     ToTask (ids n) (clock n) workflowID taskDTO # ToTasks ids clock (Suc n) workflowID rest"

definition ToWorkflowExecution ::
  "(nat \<Rightarrow> uuid) \<Rightarrow> (nat \<Rightarrow> int) \<Rightarrow> CreateWorkflowRequest \<Rightarrow> WorkflowExecution \<times> Task list" where
  "ToWorkflowExecution ids clock req =
     (let execution = NewWorkflow (ids 0) (clock 0) (req_UserID req) (req_Type req)
      in (execution, ToTasks ids clock 1 (we_ID execution) (req_Tasks req)))"

section \<open>What the mapper makes\<close>

lemma slice_len_nonneg [simp]: "0 \<le> slice_len s"
  by (simp add: slice_len_def split: option.split)

lemma ToTask_fields [simp]:
  "ID (ToTask i now ex d) = i"
  "ExecutionID (ToTask i now ex d) = ex"
  "RefID (ToTask i now ex d) = dto_RefID d"
  "Action (ToTask i now ex d) = dto_Action d"
  "Status (ToTask i now ex d) = (if slice_len (dto_Dependencies d) = 0 then StatusQueued else StatusPending)"
  "RetryCount (ToTask i now ex d) = 0"
  "MaxRetries (ToTask i now ex d) = 0"
  "LastError (ToTask i now ex d) = []"
  "Dependencies (ToTask i now ex d) = marshal_dependencies (dto_Dependencies d)"
  "InDegree (ToTask i now ex d) = slice_len (dto_Dependencies d)"
  "\<not> SkipHint (ToTask i now ex d)"
  "WorkerID (ToTask i now ex d) = None"
  "Version (ToTask i now ex d) = 1"
  "Input (ToTask i now ex d) = marshal_input (dto_Input d)"
  "Output (ToTask i now ex d) = []"
  "CreatedAt (ToTask i now ex d) = now"
  by (simp_all add: ToTask_def NewTask_def Let_def)

lemma ToTasks_conv:
  "ToTasks ids clock n ex ds =
     map (\<lambda>(i, d). ToTask (ids i) (clock i) ex d) (zip [n..<n + length ds] ds)"
  by (induction ds arbitrary: n) (simp_all add: upt_conv_Cons del: upt_Suc)

lemma length_ToTasks [simp]: "length (ToTasks ids clock n ex ds) = length ds"
  by (simp add: ToTasks_conv)

lemma nth_ToTasks [simp]:
  "i < length ds \<Longrightarrow> ToTasks ids clock n ex ds ! i = ToTask (ids (n + i)) (clock (n + i)) ex (ds ! i)"
  by (simp add: ToTasks_conv)

lemma in_ToTasksE:
  assumes "t \<in> set (ToTasks ids clock n ex ds)"
  obtains i where "i < length ds" and "t = ToTask (ids (n + i)) (clock (n + i)) ex (ds ! i)"
  using assms by (metis in_set_conv_nth length_ToTasks nth_ToTasks)

lemma map_ToTasks:
  "map ID (ToTasks ids clock n ex ds) = map ids [n..<n + length ds]"
  "map RefID (ToTasks ids clock n ex ds) = map dto_RefID ds"
  by (induction ds arbitrary: n) (simp_all add: upt_conv_Cons del: upt_Suc)

lemma ToWorkflowExecution_simps:
  "ToWorkflowExecution ids clock req =
     (NewWorkflow (ids 0) (clock 0) (req_UserID req) (req_Type req),
      ToTasks ids clock 1 (ids 0) (req_Tasks req))"
  by (simp add: ToWorkflowExecution_def NewWorkflow_def Let_def)

text \<open>Dependencies read back as the list of the request; nil reads back as null.\<close>

lemma string_array_dependencies:
  "string_array (marshal_dependencies deps) = deps"
proof (cases deps)
  case None
  have "json_parse (json_print JNull) = Some JNull" by (rule json_parse_print) simp
  with None show ?thesis
    by (simp add: marshal_dependencies_def string_array_def del: json_print.simps)
next
  case (Some ds)
  then show ?thesis by (simp add: marshal_dependencies_def string_array_marshal)
qed

text \<open>The marshalled input is a JSON text of the same value, its members in key order.\<close>

lemma wf_sort_members: "wf_json v \<Longrightarrow> wf_json (sort_members v)"
proof (induction v rule: sort_members.induct)
  case (2 kvs)
  then show ?case by (force simp: list_all_iff)
qed (auto simp: list_all_iff)

lemma marshal_input_parse:
  assumes "\<And>kvs. m = Some kvs \<Longrightarrow> wf_json (JObj kvs)"
  shows "json_parse (marshal_input m) =
           Some (case m of None \<Rightarrow> JNull | Some kvs \<Rightarrow> sort_members (JObj kvs))"
proof (cases m)
  case None
  then show ?thesis using json_parse_print [of JNull] by (simp add: marshal_input_def)
next
  case (Some kvs)
  with assms have "wf_json (sort_members (JObj kvs))" by (blast intro: wf_sort_members)
  from json_parse_print [OF this] Some show ?thesis
    by (simp add: marshal_input_def del: sort_members.simps json_print.simps)
qed

lemma sort_members_perm:
  "sort_members (JObj kvs) = JObj kvs' \<Longrightarrow>
     mset kvs' = mset (map (\<lambda>(k, v). (k, sort_members v)) kvs) \<and> sorted (map fst kvs')"
  by auto

end
