(* ===== verification/Metrics.thy ===== *)
theory Metrics
  imports Domain Complex_Main
begin

text \<open>
  Package \<open>internal/metrics\<close>: the Prometheus collectors the program registers when it
  starts, each with the name, the labels and the buckets of its declaration, and the calls
  made on them as a log. Three of the library's documented panics depend on these
  declarations: registering a name twice, a histogram whose buckets do not increase, and a
  call of \<open>WithLabelValues\<close> with another number of values than the collector has labels.
  The values observed are clock readings and sizes, which the log leaves out.
\<close>

datatype buckets =
    DefBuckets
  | ExponentialBuckets rat rat nat
  | Buckets "rat list"

datatype metric_kind = Counter | Gauge | Histogram buckets

record metric =
  mname :: string
  mkind :: metric_kind
  mlabels :: "string list"

section \<open>HTTP API Metrics\<close>

definition HTTPRequestsTotal :: metric where
  "HTTPRequestsTotal =
     \<lparr>mname = ''http_requests_total'', mkind = Counter,
      mlabels = [''method'', ''endpoint'', ''status'']\<rparr>"

definition HTTPRequestDuration :: metric where
  "HTTPRequestDuration =
     \<lparr>mname = ''http_request_duration_seconds'', mkind = Histogram DefBuckets,
      mlabels = [''method'', ''endpoint'']\<rparr>"

definition HTTPRequestSizeBytes :: metric where
  "HTTPRequestSizeBytes =
     \<lparr>mname = ''http_request_size_bytes'', mkind = Histogram (ExponentialBuckets 100 10 7),
      mlabels = [''method'', ''endpoint'']\<rparr>"

definition HTTPResponseSizeBytes :: metric where
  "HTTPResponseSizeBytes =
     \<lparr>mname = ''http_response_size_bytes'', mkind = Histogram (ExponentialBuckets 100 10 7),
      mlabels = [''method'', ''endpoint'']\<rparr>"

definition WorkflowsSubmittedTotal :: metric where
  "WorkflowsSubmittedTotal =
     \<lparr>mname = ''workflows_submitted_total'', mkind = Counter,
      mlabels = [''workflow_type'']\<rparr>"

section \<open>Worker Metrics\<close>

definition WorkerTasksProcessedTotal :: metric where
  "WorkerTasksProcessedTotal =
     \<lparr>mname = ''worker_tasks_processed_total'', mkind = Counter,
      mlabels = [''action'', ''status'']\<rparr>"

definition WorkerTaskDuration :: metric where
  "WorkerTaskDuration =
     \<lparr>mname = ''worker_task_duration_seconds'', mkind = Histogram (ExponentialBuckets 0.1 2 10),
      mlabels = [''action'']\<rparr>"

definition WorkerQueueWaitTime :: metric where
  "WorkerQueueWaitTime =
     \<lparr>mname = ''worker_queue_wait_time_seconds'', mkind = Histogram (Buckets [0.1, 0.5, 1, 2, 5, 10, 30, 60, 120, 300]),
      mlabels = []\<rparr>"

definition WorkerClaimFailuresTotal :: metric where
  "WorkerClaimFailuresTotal =
     \<lparr>mname = ''worker_claim_failures_total'', mkind = Counter,
      mlabels = []\<rparr>"

definition WorkerRetriesTotal :: metric where
  "WorkerRetriesTotal =
     \<lparr>mname = ''worker_retries_total'', mkind = Counter,
      mlabels = [''action'', ''retry_attempt'']\<rparr>"

definition WorkerActiveTasks :: metric where
  "WorkerActiveTasks =
     \<lparr>mname = ''worker_active_tasks'', mkind = Gauge,
      mlabels = [''worker_id'']\<rparr>"

definition WorkerRegistryErrorsTotal :: metric where
  "WorkerRegistryErrorsTotal =
     \<lparr>mname = ''worker_registry_errors_total'', mkind = Counter,
      mlabels = [''action'']\<rparr>"

section \<open>Coordinator Metrics\<close>

definition CoordinatorEventsProcessedTotal :: metric where
  "CoordinatorEventsProcessedTotal =
     \<lparr>mname = ''coordinator_events_processed_total'', mkind = Counter,
      mlabels = [''event_type'']\<rparr>"

definition CoordinatorTasksUnblockedTotal :: metric where
  "CoordinatorTasksUnblockedTotal =
     \<lparr>mname = ''coordinator_tasks_unblocked_total'', mkind = Counter,
      mlabels = []\<rparr>"

definition CoordinatorDAGResolutionDuration :: metric where
  "CoordinatorDAGResolutionDuration =
     \<lparr>mname = ''coordinator_dag_resolution_duration_seconds'', mkind = Histogram (Buckets [0.001, 0.005, 0.01, 0.05, 0.1, 0.5, 1, 2, 5]),
      mlabels = []\<rparr>"

definition CoordinatorWorkflowCompletionsTotal :: metric where
  "CoordinatorWorkflowCompletionsTotal =
     \<lparr>mname = ''coordinator_workflow_completions_total'', mkind = Counter,
      mlabels = [''status'']\<rparr>"

definition CoordinatorSkipPropagationsTotal :: metric where
  "CoordinatorSkipPropagationsTotal =
     \<lparr>mname = ''coordinator_skip_propagations_total'', mkind = Counter,
      mlabels = []\<rparr>"

section \<open>Database Metrics\<close>

definition DBQueryDuration :: metric where
  "DBQueryDuration =
     \<lparr>mname = ''db_query_duration_seconds'', mkind = Histogram (Buckets [0.001, 0.005, 0.01, 0.05, 0.1, 0.5, 1, 2, 5]),
      mlabels = [''operation'']\<rparr>"

definition DBQueryErrorsTotal :: metric where
  "DBQueryErrorsTotal =
     \<lparr>mname = ''db_query_errors_total'', mkind = Counter,
      mlabels = [''operation'']\<rparr>"

definition DBTransactionsTotal :: metric where
  "DBTransactionsTotal =
     \<lparr>mname = ''db_transactions_total'', mkind = Counter,
      mlabels = [''status'']\<rparr>"

definition DBOptimisticLockConflictsTotal :: metric where
  "DBOptimisticLockConflictsTotal =
     \<lparr>mname = ''db_optimistic_lock_conflicts_total'', mkind = Counter,
      mlabels = [''operation'']\<rparr>"

definition DBConnectionPoolSize :: metric where
  "DBConnectionPoolSize =
     \<lparr>mname = ''db_connection_pool_size'', mkind = Gauge,
      mlabels = [''state'']\<rparr>"

section \<open>Redis Metrics\<close>

definition RedisQueuePushTotal :: metric where
  "RedisQueuePushTotal =
     \<lparr>mname = ''redis_queue_push_total'', mkind = Counter,
      mlabels = [''status'']\<rparr>"

definition RedisQueuePopDuration :: metric where
  "RedisQueuePopDuration =
     \<lparr>mname = ''redis_queue_pop_duration_seconds'', mkind = Histogram (Buckets [0.001, 0.005, 0.01, 0.05, 0.1, 0.5, 1, 5, 10]),
      mlabels = []\<rparr>"

definition RedisQueueDepth :: metric where
  "RedisQueueDepth =
     \<lparr>mname = ''redis_queue_depth'', mkind = Gauge,
      mlabels = []\<rparr>"

definition RedisPubSubMessagesPublishedTotal :: metric where
  "RedisPubSubMessagesPublishedTotal =
     \<lparr>mname = ''redis_pubsub_messages_published_total'', mkind = Counter,
      mlabels = [''channel'']\<rparr>"

definition RedisPubSubMessagesReceivedTotal :: metric where
  "RedisPubSubMessagesReceivedTotal =
     \<lparr>mname = ''redis_pubsub_messages_received_total'', mkind = Counter,
      mlabels = [''channel'']\<rparr>"

definition RedisConnectionErrorsTotal :: metric where
  "RedisConnectionErrorsTotal =
     \<lparr>mname = ''redis_connection_errors_total'', mkind = Counter,
      mlabels = [''operation'']\<rparr>"

section \<open>Business Metrics\<close>

definition WorkflowsInProgress :: metric where
  "WorkflowsInProgress =
     \<lparr>mname = ''workflows_in_progress'', mkind = Gauge,
      mlabels = [''workflow_type'']\<rparr>"

definition TasksByStatus :: metric where
  "TasksByStatus =
     \<lparr>mname = ''tasks_by_status'', mkind = Gauge,
      mlabels = [''status'']\<rparr>"

definition WorkflowExecutionDuration :: metric where
  "WorkflowExecutionDuration =
     \<lparr>mname = ''workflow_execution_duration_seconds'', mkind = Histogram (Buckets [1, 5, 10, 30, 60, 120, 300, 600, 1800, 3600]),
      mlabels = [''workflow_type'', ''status'']\<rparr>"

definition TaskRetryExhaustionTotal :: metric where
  "TaskRetryExhaustionTotal =
     \<lparr>mname = ''task_retry_exhaustion_total'', mkind = Counter,
      mlabels = [''action'']\<rparr>"

definition DAGDepthLongestPath :: metric where
  "DAGDepthLongestPath =
     \<lparr>mname = ''dag_depth_longest_path'', mkind = Histogram (Buckets [1, 2, 5, 10, 20, 50, 100]),
      mlabels = [''workflow_type'']\<rparr>"

section \<open>The registry\<close>

definition all_metrics :: "metric list" where
  "all_metrics =
     [HTTPRequestsTotal,
      HTTPRequestDuration,
      HTTPRequestSizeBytes,
      HTTPResponseSizeBytes,
      WorkflowsSubmittedTotal,
      WorkerTasksProcessedTotal,
      WorkerTaskDuration,
      WorkerQueueWaitTime,
      WorkerClaimFailuresTotal,
      WorkerRetriesTotal,
      WorkerActiveTasks,
      WorkerRegistryErrorsTotal,
      CoordinatorEventsProcessedTotal,
      CoordinatorTasksUnblockedTotal,
      CoordinatorDAGResolutionDuration,
      CoordinatorWorkflowCompletionsTotal,
      CoordinatorSkipPropagationsTotal,
      DBQueryDuration,
      DBQueryErrorsTotal,
      DBTransactionsTotal,
      DBOptimisticLockConflictsTotal,
      DBConnectionPoolSize,
      RedisQueuePushTotal,
      RedisQueuePopDuration,
      RedisQueueDepth,
      RedisPubSubMessagesPublishedTotal,
      RedisPubSubMessagesReceivedTotal,
      RedisConnectionErrorsTotal,
      WorkflowsInProgress,
      TasksByStatus,
      WorkflowExecutionDuration,
      TaskRetryExhaustionTotal,
      DAGDepthLongestPath]"

lemmas metric_defs =
  HTTPRequestsTotal_def
  HTTPRequestDuration_def
  HTTPRequestSizeBytes_def
  HTTPResponseSizeBytes_def
  WorkflowsSubmittedTotal_def
  WorkerTasksProcessedTotal_def
  WorkerTaskDuration_def
  WorkerQueueWaitTime_def
  WorkerClaimFailuresTotal_def
  WorkerRetriesTotal_def
  WorkerActiveTasks_def
  WorkerRegistryErrorsTotal_def
  CoordinatorEventsProcessedTotal_def
  CoordinatorTasksUnblockedTotal_def
  CoordinatorDAGResolutionDuration_def
  CoordinatorWorkflowCompletionsTotal_def
  CoordinatorSkipPropagationsTotal_def
  DBQueryDuration_def
  DBQueryErrorsTotal_def
  DBTransactionsTotal_def
  DBOptimisticLockConflictsTotal_def
  DBConnectionPoolSize_def
  RedisQueuePushTotal_def
  RedisQueuePopDuration_def
  RedisQueueDepth_def
  RedisPubSubMessagesPublishedTotal_def
  RedisPubSubMessagesReceivedTotal_def
  RedisConnectionErrorsTotal_def
  WorkflowsInProgress_def
  TasksByStatus_def
  WorkflowExecutionDuration_def
  TaskRetryExhaustionTotal_def
  DAGDepthLongestPath_def

fun valid_buckets :: "metric_kind \<Rightarrow> bool" where
  "valid_buckets (Histogram (Buckets bs)) = (bs \<noteq> [] \<and> sorted_wrt (<) bs)"
| "valid_buckets (Histogram (ExponentialBuckets start factor n)) = (0 < start \<and> 1 < factor \<and> 1 \<le> n)"
| "valid_buckets _ = True"

section \<open>Calls on the collectors\<close>

datatype metric_op =
    MInc metric "string list"
  | MDec metric "string list"
  | MSet metric "string list" int
  | MObserve metric "string list"

text \<open>The calls that the library accepts: the right number of label values.\<close>

fun metric_op_ok :: "metric_op \<Rightarrow> bool" where
  "metric_op_ok (MInc m ls) = (length ls = length (mlabels m) \<and> (mkind m = Counter \<or> mkind m = Gauge))"
| "metric_op_ok (MDec m ls) = (length ls = length (mlabels m) \<and> mkind m = Gauge)"
| "metric_op_ok (MSet m ls v) = (length ls = length (mlabels m) \<and> mkind m = Gauge)"
| "metric_op_ok (MObserve m ls) = 
     (length ls = length (mlabels m) \<and> (case mkind m of Histogram b \<Rightarrow> True | _ \<Rightarrow> False))"

declare metric_op_ok.simps [simp del]

end
