(* ===== verification/Services.thy ===== *)
theory Services
  imports Metrics
begin

text \<open>
  What the program calls and does not define: PostgreSQL through gorm, Redis through
  go-redis, and google/uuid. Their calls are the fields of the record \<open>services\<close>, a
  parameter of every definition that uses them; nothing here says how they work. The
  locale \<open>lawful_services\<close> states, law by law, the documented behaviour the program
  relies on. Any call may fail; a failed statement or command may or may not have taken
  effect before its error came back. \<open>reference_services\<close> is a concrete instance whose
  failures follow an arbitrary schedule.
\<close>

section \<open>The world the calls act on\<close>

text \<open>
  The two tables, the Redis lists by key, the messages that wait for the subscriber of each
  channel, the log of the calls on the Prometheus collectors, and whatever else the
  services keep.
\<close>

record 'h world =
  task_rows :: "Task list"
  exec_rows :: "WorkflowExecution list"
  redis_list :: "string \<Rightarrow> string list"
  inbox :: "string \<Rightarrow> string list"
  mlog :: "metric_op list"
  hidden :: 'h

type_synonym ('h, 'a) io = "('h world, 'a) state"
type_synonym ('h, 'a) fallible = "('h world, error + 'a) state"

abbreviation return :: "'a \<Rightarrow> ('s, 'a) state" where
  "return \<equiv> State_Monad.return"

definition inc :: "metric \<Rightarrow> string list \<Rightarrow> ('h, unit) io" where
  "inc m ls = State_Monad.update (\<lambda>w. w\<lparr>mlog := mlog w @ [MInc m ls]\<rparr>)"

definition dec :: "metric \<Rightarrow> string list \<Rightarrow> ('h, unit) io" where
  "dec m ls = State_Monad.update (\<lambda>w. w\<lparr>mlog := mlog w @ [MDec m ls]\<rparr>)"

definition set_gauge :: "metric \<Rightarrow> string list \<Rightarrow> int \<Rightarrow> ('h, unit) io" where
  "set_gauge m ls v = State_Monad.update (\<lambda>w. w\<lparr>mlog := mlog w @ [MSet m ls v]\<rparr>)"

definition observe :: "metric \<Rightarrow> string list \<Rightarrow> ('h, unit) io" where
  "observe m ls = State_Monad.update (\<lambda>w. w\<lparr>mlog := mlog w @ [MObserve m ls]\<rparr>)"

lemma run_metric [simp]:
  "run_state (inc m ls) w = ((), w\<lparr>mlog := mlog w @ [MInc m ls]\<rparr>)"
  "run_state (dec m ls) w = ((), w\<lparr>mlog := mlog w @ [MDec m ls]\<rparr>)"
  "run_state (set_gauge m ls v) w = ((), w\<lparr>mlog := mlog w @ [MSet m ls v]\<rparr>)"
  "run_state (observe m ls) w = ((), w\<lparr>mlog := mlog w @ [MObserve m ls]\<rparr>)"
  by (simp_all add: inc_def dec_def set_gauge_def observe_def)

section \<open>The calls\<close>

text \<open>
  A statement takes the texts it binds to \<open>jsonb\<close> parameters or columns, its \<open>WHERE\<close>
  condition and, for an update, its \<open>SET\<close> list as a function of the old row.
  \<^item> \<open>gorm_Updates_tasks\<close>: \<open>Model(&Task{}).Where(..).Updates(..)\<close>; returns \<open>RowsAffected\<close>.
  \<^item> \<open>gorm_Raw_update_tasks\<close>: \<open>Raw("UPDATE tasks .. RETURNING ..").Rows()\<close>; returns the
    updated rows, which \<open>rows_Next\<close> and \<open>rows_Scan\<close> then deliver one by one.
  \<^item> \<open>gorm_Transaction\<close>: runs its body and commits, or rolls the two tables back.
\<close>

record 'h services =
  uuid_String :: "uuid \<Rightarrow> string"
  uuid_Parse :: "string \<Rightarrow> error + uuid"
  jsonb_valid :: "string \<Rightarrow> bool"
  jsonb_contains :: "string \<Rightarrow> string \<Rightarrow> bool"
  gorm_Create_execution :: "WorkflowExecution \<Rightarrow> ('h, unit) fallible"
  gorm_Create_tasks :: "Task list \<Rightarrow> ('h, unit) fallible"
  gorm_Transaction :: "('h, unit) fallible \<Rightarrow> ('h, unit) fallible"
  gorm_First_task :: "(Task \<Rightarrow> bool) \<Rightarrow> ('h, Task) fallible"
  gorm_First_execution :: "(WorkflowExecution \<Rightarrow> bool) \<Rightarrow> ('h, WorkflowExecution) fallible"
  gorm_Find_tasks :: "string list \<Rightarrow> (Task \<Rightarrow> bool) \<Rightarrow> ('h, Task list) fallible"
  gorm_Count_tasks :: "(Task \<Rightarrow> bool) \<Rightarrow> ('h, nat) fallible"
  gorm_Updates_tasks :: "string list \<Rightarrow> (Task \<Rightarrow> bool) \<Rightarrow> (Task \<Rightarrow> Task) \<Rightarrow> ('h, nat) fallible"
  gorm_Update_executions ::
    "(WorkflowExecution \<Rightarrow> bool) \<Rightarrow> (WorkflowExecution \<Rightarrow> WorkflowExecution) \<Rightarrow> ('h, nat) fallible"
  gorm_Raw_update_tasks ::
    "string list \<Rightarrow> (Task \<Rightarrow> bool) \<Rightarrow> (Task \<Rightarrow> Task) \<Rightarrow> ('h, Task list) fallible"
  rows_Next :: "Task list \<Rightarrow> ('h, bool) io"
  rows_Scan :: "Task \<Rightarrow> ('h, uuid \<times> int) fallible"
  redis_RPush :: "string \<Rightarrow> string \<Rightarrow> ('h, unit) fallible"
  redis_BLPop :: "string \<Rightarrow> ('h, string \<times> string) fallible"
  redis_Publish :: "string \<Rightarrow> string \<Rightarrow> ('h, unit) fallible"
  redis_ReceiveMessage :: "string \<Rightarrow> ('h, string) fallible"
  redis_LLen :: "string \<Rightarrow> ('h, nat) fallible"

section \<open>The laws\<close>

text \<open>Equal but for what the services keep to themselves.\<close>

definition same :: "'h world \<Rightarrow> 'h world \<Rightarrow> bool" where
  "same w w' \<longleftrightarrow> (\<exists>h. w' = w\<lparr>hidden := h\<rparr>)"

text \<open>
  A call with effect \<open>E\<close>: a result comes with the effect; an error comes with the effect
  or with none. \<open>ErrRecordNotFound\<close> is the answer of \<open>First\<close> only.
\<close>

definition call_law :: "('h, 'a) fallible \<Rightarrow> ('h world \<Rightarrow> 'a \<Rightarrow> 'h world \<Rightarrow> bool) \<Rightarrow> bool" where
  "call_law m E \<longleftrightarrow>
     (\<forall>w r w'. run_state m w = (r, w') \<longrightarrow>
        (case r of
           Inl e \<Rightarrow> e \<noteq> ErrRecordNotFound \<and> (same w w' \<or> (\<exists>a. E w a w'))
         | Inr a \<Rightarrow> E w a w'))"

text \<open>A query that finds one row or none.\<close>

definition first_law :: "('h, 'a) fallible \<Rightarrow> ('h world \<Rightarrow> 'a list) \<Rightarrow> ('a \<Rightarrow> bool) \<Rightarrow> bool" where
  "first_law m rows P \<longleftrightarrow>
     (\<forall>w r w'. run_state m w = (r, w') \<longrightarrow> same w w' \<and>
        (case r of
           Inl e \<Rightarrow> e = ErrRecordNotFound \<longrightarrow> filter P (rows w) = []
         | Inr a \<Rightarrow> a \<in> set (rows w) \<and> P a))"

text \<open>Timestamps gorm fills in on an insert when they are zero.\<close>

definition stamp_task :: "int \<Rightarrow> Task \<Rightarrow> Task" where
  "stamp_task ts t =
     t\<lparr>CreatedAt := (if CreatedAt t = 0 then ts else CreatedAt t),
       UpdatedAt := (if UpdatedAt t = 0 then ts else UpdatedAt t)\<rparr>"

definition stamp_execution :: "int \<Rightarrow> WorkflowExecution \<Rightarrow> WorkflowExecution" where
  "stamp_execution ts e =
     e\<lparr>we_CreatedAt := (if we_CreatedAt e = 0 then ts else we_CreatedAt e),
       we_UpdatedAt := (if we_UpdatedAt e = 0 then ts else we_UpdatedAt e)\<rparr>"

definition jsonb_texts :: "Task list \<Rightarrow> string list" where
  "jsonb_texts ts = filter (\<lambda>s. s \<noteq> []) (concat (map (\<lambda>t. [Dependencies t, Input t, Output t]) ts))"

text \<open>The two tables as they were before the transaction, everything else as the body left it.\<close>

definition rolled_back :: "'h world \<Rightarrow> 'h world \<Rightarrow> 'h world \<Rightarrow> bool" where
  "rolled_back w wb w' \<longleftrightarrow>
     same (wb\<lparr>task_rows := task_rows w, exec_rows := exec_rows w\<rparr>) w'"

definition transaction_law :: "(('h, unit) fallible \<Rightarrow> ('h, unit) fallible) \<Rightarrow> bool" where
  "transaction_law tr \<longleftrightarrow>
     (\<forall>body w r w' rb wb. run_state (tr body) w = (r, w') \<longrightarrow> run_state body w = (rb, wb) \<longrightarrow>
        (case r of
           Inr _ \<Rightarrow> rb = Inr () \<and> same wb w'
         | Inl e \<Rightarrow>
             (rb = Inl e \<and> rolled_back w wb w') \<or>
             (e \<noteq> ErrRecordNotFound \<and>
                (same w w' \<or> rolled_back w wb w' \<or> (rb = Inr () \<and> same wb w')))))"

locale lawful_services =
  fixes svc :: "'h services"
  assumes uuid_law: "uuid_Parse svc (uuid_String svc u) = Inr u"
    and jsonb_valid_law: "jsonb_valid svc s \<Longrightarrow> json_parse s \<noteq> None"
    and jsonb_contains_law:
      "string_array a = Some xs \<Longrightarrow> string_array b = Some ys \<Longrightarrow>
         jsonb_contains svc a b \<longleftrightarrow> set ys \<subseteq> set xs"
    and jsonb_contains_null_law:
      "json_parse a = Some JNull \<Longrightarrow> string_array b = Some ys \<Longrightarrow> \<not> jsonb_contains svc a b"
    and Create_execution_law:
      "call_law (gorm_Create_execution svc e) (\<lambda>w _ w'.
         we_ID e \<notin> we_ID ` set (exec_rows w) \<and>
         (\<exists>ts. same (w\<lparr>exec_rows := exec_rows w @ [stamp_execution ts e]\<rparr>) w'))"
    and Create_tasks_law:
      "call_law (gorm_Create_tasks svc ts) (\<lambda>w _ w'.
         list_all (jsonb_valid svc) (jsonb_texts ts) \<and>
         distinct (map ID ts) \<and> ID ` set ts \<inter> ID ` set (task_rows w) = {} \<and>
         (\<exists>now. same (w\<lparr>task_rows := task_rows w @
            map (\<lambda>t. stamp_task now (task_column_defaults t)) ts\<rparr>) w'))"
    and Transaction_law: "transaction_law (gorm_Transaction svc)"
    and First_task_law: "first_law (gorm_First_task svc P) task_rows P"
    and First_execution_law: "first_law (gorm_First_execution svc Q) exec_rows Q"
    and Find_tasks_law:
      "call_law (gorm_Find_tasks svc js P) (\<lambda>w rs w'.
         list_all (jsonb_valid svc) js \<and> mset rs = mset (filter P (task_rows w)) \<and> same w w')"
    and Count_tasks_law:
      "call_law (gorm_Count_tasks svc P) (\<lambda>w n w'. n = length (filter P (task_rows w)) \<and> same w w')"
    and Updates_tasks_law:
      "call_law (gorm_Updates_tasks svc js P f) (\<lambda>w n w'.
         list_all (jsonb_valid svc) js \<and> n = length (filter P (task_rows w)) \<and>
         (\<exists>ts. same (w\<lparr>task_rows := update_where P (\<lambda>t. (f t)\<lparr>UpdatedAt := ts\<rparr>) (task_rows w)\<rparr>) w'))"
    and Update_executions_law:
      "call_law (gorm_Update_executions svc Q g) (\<lambda>w n w'.
         n = length (filter Q (exec_rows w)) \<and>
         (\<exists>ts. same (w\<lparr>exec_rows :=
            update_where Q (\<lambda>e. (g e)\<lparr>we_UpdatedAt := ts\<rparr>) (exec_rows w)\<rparr>) w'))"
    and Raw_update_tasks_law:
      "call_law (gorm_Raw_update_tasks svc js P f) (\<lambda>w rs w'.
         list_all (jsonb_valid svc) js \<and> mset rs = mset (map f (filter P (task_rows w))) \<and>
         same (w\<lparr>task_rows := update_where P f (task_rows w)\<rparr>) w')"
    and rows_Next_law:
      "run_state (rows_Next svc remaining) w = (found, w') \<Longrightarrow>
         same w w' \<and> (found \<longrightarrow> remaining \<noteq> [])"
    and rows_Scan_law:
      "call_law (rows_Scan svc t) (\<lambda>w a w'. a = (ID t, InDegree t) \<and> same w w')"
    and RPush_law:
      "call_law (redis_RPush svc k x) (\<lambda>w _ w'.
         same (w\<lparr>redis_list := (redis_list w)(k := redis_list w k @ [x])\<rparr>) w')"
    and BLPop_law:
      "call_law (redis_BLPop svc k) (\<lambda>w (k', x) w'. k' = k \<and>
         (\<exists>xs. redis_list w k = x # xs \<and> same (w\<lparr>redis_list := (redis_list w)(k := xs)\<rparr>) w'))"
    and Publish_law:
      "call_law (redis_Publish svc c m) (\<lambda>w _ w'.
         same w w' \<or> same (w\<lparr>inbox := (inbox w)(c := inbox w c @ [m])\<rparr>) w')"
    and ReceiveMessage_law:
      "call_law (redis_ReceiveMessage svc c) (\<lambda>w m w'.
         \<exists>ms. inbox w c = m # ms \<and> same (w\<lparr>inbox := (inbox w)(c := ms)\<rparr>) w')"
    and LLen_law: "call_law (redis_LLen svc k) (\<lambda>w n w'. n = length (redis_list w k) \<and> same w w')"

end
