(* ===== verification/Evolution.thy ===== *)
theory Evolution
  imports Services
begin

text \<open>
  The two-state relation that every call, whether it succeeds or fails, keeps the world
  within: rows are updated in place within the monotone order of the domain or appended,
  identifiers stay unique, and the calls on the collectors are ones the metrics library accepts. It is a
  preorder, so it lifts from calls to operations and to any interleaving of them.
\<close>

definition unique_ids :: "'h world \<Rightarrow> bool" where
  "unique_ids w \<longleftrightarrow> distinct (map ID (task_rows w)) \<and> distinct (map we_ID (exec_rows w))"

definition evolves :: "'h world \<Rightarrow> 'h world \<Rightarrow> bool" where
  "evolves w w' \<longleftrightarrow>
     rows_evolve task_evolves (task_rows w) (task_rows w') \<and>
     rows_evolve execution_evolves (exec_rows w) (exec_rows w') \<and>
     (\<exists>ops. mlog w' = mlog w @ ops \<and> list_all metric_op_ok ops) \<and>
     (unique_ids w \<longrightarrow> unique_ids w')"

lemma evolves_refl: "evolves w w"
  by (simp add: evolves_def rows_evolve_refl)

lemma evolves_trans: "evolves u v \<Longrightarrow> evolves v w \<Longrightarrow> evolves u w"
  unfolding evolves_def
  by (auto intro: rows_evolve_trans [of task_evolves, OF task_evolves_trans]
      rows_evolve_trans [of execution_evolves, OF execution_evolves_trans])

interpretation ev: preorder_relation evolves
  by unfold_locales (auto intro: evolves_refl evolves_trans)

declare ev.io_rules [evolve_intros]

text \<open>Frames: worlds that agree on the tables and the log evolve into each other.\<close>

lemma evolves_frame:
  assumes "task_rows w' = task_rows w" and "exec_rows w' = exec_rows w" and "mlog w' = mlog w"
  shows "evolves w w'"
  using assms by (auto simp: evolves_def unique_ids_def intro: rows_evolve_refl)

lemma same_refl [simp]: "same w w"
  unfolding same_def by (rule exI [of _ "hidden w"]) simp

lemma same_hidden [simp]: "same w (w\<lparr>hidden := h\<rparr>)"
  by (auto simp: same_def)

lemma same_fields:
  "same w w' \<Longrightarrow> task_rows w' = task_rows w \<and> exec_rows w' = exec_rows w \<and>
     redis_list w' = redis_list w \<and> inbox w' = inbox w \<and> mlog w' = mlog w"
  by (auto simp: same_def)

lemma same_evolves: "same w w' \<Longrightarrow> evolves w w'"
  by (auto intro: evolves_frame dest: same_fields)

lemma same_evolves_trans: "evolves w v \<Longrightarrow> same v w' \<Longrightarrow> evolves w w'"
  by (blast intro: evolves_trans same_evolves)

lemma evolves_log:
  "metric_op_ok x \<Longrightarrow> evolves w (w\<lparr>mlog := mlog w @ [x]\<rparr>)"
  by (simp add: evolves_def unique_ids_def rows_evolve_refl)

lemma evolves_update_tasks:
  assumes "\<And>t. P t \<Longrightarrow> task_evolves t (f t)"
  shows "evolves w (w\<lparr>task_rows := update_where P f (task_rows w)\<rparr>)"
proof -
  have "map ID (update_where P f (task_rows w)) = map ID (task_rows w)"
    using assms by (auto simp: task_evolves_def intro: map_update_where)
  moreover have "rows_evolve task_evolves (task_rows w) (update_where P f (task_rows w))"
    using assms by (intro rows_evolve_update) auto
  ultimately show ?thesis
    by (simp add: evolves_def unique_ids_def rows_evolve_refl)
qed

lemma evolves_update_executions:
  assumes "\<And>e. Q e \<Longrightarrow> execution_evolves e (g e)"
  shows "evolves w (w\<lparr>exec_rows := update_where Q g (exec_rows w)\<rparr>)"
proof -
  have "map we_ID (update_where Q g (exec_rows w)) = map we_ID (exec_rows w)"
    using assms by (auto simp: execution_evolves_def intro: map_update_where)
  moreover have "rows_evolve execution_evolves (exec_rows w) (update_where Q g (exec_rows w))"
    using assms by (intro rows_evolve_update) auto
  ultimately show ?thesis
    by (simp add: evolves_def unique_ids_def rows_evolve_refl)
qed

lemma io_log:
  "metric_op_ok (MInc m ls) \<Longrightarrow> state_io_rel evolves (inc m ls)"
  "metric_op_ok (MDec m ls) \<Longrightarrow> state_io_rel evolves (dec m ls)"
  "metric_op_ok (MSet m ls v) \<Longrightarrow> state_io_rel evolves (set_gauge m ls v)"
  "metric_op_ok (MObserve m ls) \<Longrightarrow> state_io_rel evolves (observe m ls)"
  by (auto intro!: state_io_relI evolves_log)

declare io_log [evolve_intros]

text \<open>The three ways a call can end.\<close>

lemma call_lawE:
  assumes "call_law m E" and "run_state m w = (r, w')"
  obtains (result) a where "r = Inr a" "E w a w'"
    | (refused) e where "r = Inl e" "e \<noteq> ErrRecordNotFound" "same w w'"
    | (late) e a where "r = Inl e" "e \<noteq> ErrRecordNotFound" "E w a w'"
proof (cases r)
  case (Inl e)
  with assms have "e \<noteq> ErrRecordNotFound \<and> (same w w' \<or> (\<exists>a. E w a w'))"
    unfolding call_law_def by fastforce
  with Inl refused late show thesis by blast
next
  case (Inr a)
  with assms have "E w a w'" unfolding call_law_def by fastforce
  with Inr result show thesis by blast
qed

lemma call_law_evolves:
  assumes "call_law m E" and "\<And>w a w'. E w a w' \<Longrightarrow> evolves w w'"
  shows "state_io_rel evolves m"
proof (rule state_io_relI)
  fix r w w'
  assume "run_state m w = (r, w')"
  with assms(1) have "same w w' \<or> (\<exists>a. E w a w')"
    unfolding call_law_def by (cases r) fastforce+
  then show "evolves w w'"
    using assms(2) same_evolves by blast
qed

context lawful_services
begin

lemma evolves_Create_execution: "state_io_rel evolves (gorm_Create_execution svc e)"
proof (rule call_law_evolves [OF Create_execution_law])
  fix w a w'
  assume E: "we_ID e \<notin> we_ID ` set (exec_rows w) \<and>
         (\<exists>ts. same (w\<lparr>exec_rows := exec_rows w @ [stamp_execution ts e]\<rparr>) w')"
  then obtain ts where "same (w\<lparr>exec_rows := exec_rows w @ [stamp_execution ts e]\<rparr>) w'" by blast
  moreover have "evolves w (w\<lparr>exec_rows := exec_rows w @ [stamp_execution ts e]\<rparr>)"
    using E by (auto simp: evolves_def unique_ids_def stamp_execution_def
        intro: rows_evolve_refl rows_evolve_append)
  ultimately show "evolves w w'" by (blast intro: same_evolves_trans)
qed

lemma evolves_Create_tasks: "state_io_rel evolves (gorm_Create_tasks svc ts)"
proof (rule call_law_evolves [OF Create_tasks_law])
  fix w a w'
  let ?new = "\<lambda>now. map (\<lambda>t. stamp_task now (task_column_defaults t)) ts"
  assume E: "list_all (jsonb_valid svc) (jsonb_texts ts) \<and>
         distinct (map ID ts) \<and> ID ` set ts \<inter> ID ` set (task_rows w) = {} \<and>
         (\<exists>now. same (w\<lparr>task_rows := task_rows w @ ?new now\<rparr>) w')"
  then obtain now where "same (w\<lparr>task_rows := task_rows w @ ?new now\<rparr>) w'" by blast
  moreover have "map ID (?new now) = map ID ts"
    by (simp add: stamp_task_def task_column_defaults_def)
  then have "distinct (map ID (task_rows w)) \<Longrightarrow> distinct (map ID (task_rows w @ ?new now))"
    using E by (simp only: map_append distinct_append) (auto simp: Int_commute)
  then have "evolves w (w\<lparr>task_rows := task_rows w @ ?new now\<rparr>)"
    by (simp add: evolves_def unique_ids_def rows_evolve_refl rows_evolve_append del: map_map)
  ultimately show "evolves w w'" by (blast intro: same_evolves_trans)
qed

text \<open>
  A rollback undoes the rows the body wrote, so the world evolves as long as the body only
  moved it along the relation.
\<close>

lemma evolves_Transaction:
  assumes "state_io_rel evolves body"
  shows "state_io_rel evolves (gorm_Transaction svc body)"
proof (rule state_io_relI)
  fix r w w'
  assume run: "run_state (gorm_Transaction svc body) w = (r, w')"
  obtain rb wb where body: "run_state body w = (rb, wb)" by fastforce
  from assms body have wb: "evolves w wb" by (rule state_io_relD)
  note law = Transaction_law [unfolded transaction_law_def, rule_format, OF run body]
  have "same w w' \<or> same wb w' \<or> rolled_back w wb w'"
  proof (cases r)
    case (Inl e)
    with law show ?thesis by simp blast
  next
    case (Inr u)
    with law show ?thesis by simp
  qed
  then show "evolves w w'"
  proof (elim disjE)
    assume "rolled_back w wb w'"
    then have "same (wb\<lparr>task_rows := task_rows w, exec_rows := exec_rows w\<rparr>) w'"
      by (simp add: rolled_back_def)
    moreover have "evolves w (wb\<lparr>task_rows := task_rows w, exec_rows := exec_rows w\<rparr>)"
      using wb by (simp add: evolves_def unique_ids_def rows_evolve_refl)
    ultimately show ?thesis by (blast intro: same_evolves_trans)
  qed (auto intro: same_evolves same_evolves_trans wb)
qed

lemma first_law_evolves: "first_law m rows P \<Longrightarrow> state_io_rel evolves m"
  unfolding first_law_def by (blast intro: state_io_relI same_evolves)

lemma evolves_First:
  "state_io_rel evolves (gorm_First_task svc P)"
  "state_io_rel evolves (gorm_First_execution svc Q)"
  by (rule first_law_evolves, rule First_task_law) (rule first_law_evolves, rule First_execution_law)

lemma evolves_Updates_tasks:
  assumes "\<And>t. P t \<Longrightarrow> task_evolves t (f t)"
  shows "state_io_rel evolves (gorm_Updates_tasks svc js P f)"
proof (rule call_law_evolves [OF Updates_tasks_law])
  fix w a w'
  assume "list_all (jsonb_valid svc) js \<and> a = length (filter P (task_rows w)) \<and>
    (\<exists>ts. same (w\<lparr>task_rows := update_where P (\<lambda>t. (f t)\<lparr>UpdatedAt := ts\<rparr>) (task_rows w)\<rparr>) w')"
  then obtain ts where
    "same (w\<lparr>task_rows := update_where P (\<lambda>t. (f t)\<lparr>UpdatedAt := ts\<rparr>) (task_rows w)\<rparr>) w'" by blast
  moreover have "evolves w (w\<lparr>task_rows := update_where P (\<lambda>t. (f t)\<lparr>UpdatedAt := ts\<rparr>) (task_rows w)\<rparr>)"
    by (rule evolves_update_tasks) (use assms in \<open>simp add: task_evolves_def\<close>)
  ultimately show "evolves w w'" by (blast intro: same_evolves_trans)
qed

lemma evolves_Raw_update_tasks:
  assumes "\<And>t. P t \<Longrightarrow> task_evolves t (f t)"
  shows "state_io_rel evolves (gorm_Raw_update_tasks svc js P f)"
  by (rule call_law_evolves [OF Raw_update_tasks_law])
     (blast intro: same_evolves_trans evolves_update_tasks assms)

lemma evolves_Update_executions:
  assumes "\<And>e. Q e \<Longrightarrow> execution_evolves e (g e)"
  shows "state_io_rel evolves (gorm_Update_executions svc Q g)"
proof (rule call_law_evolves [OF Update_executions_law])
  fix w a w'
  assume "a = length (filter Q (exec_rows w)) \<and> (\<exists>ts. same (w\<lparr>exec_rows := update_where Q (\<lambda>e. (g e)\<lparr>we_UpdatedAt := ts\<rparr>) (exec_rows w)\<rparr>) w')"
  then obtain ts where "same (w\<lparr>exec_rows := update_where Q (\<lambda>e. (g e)\<lparr>we_UpdatedAt := ts\<rparr>) (exec_rows w)\<rparr>) w'" by blast
  moreover have "evolves w (w\<lparr>exec_rows := update_where Q (\<lambda>e. (g e)\<lparr>we_UpdatedAt := ts\<rparr>) (exec_rows w)\<rparr>)"
    by (rule evolves_update_executions) (use assms in \<open>simp add: execution_evolves_def\<close>)
  ultimately show "evolves w w'" by (blast intro: same_evolves_trans)
qed

lemma evolves_reads:
  "state_io_rel evolves (gorm_Find_tasks svc js P)"
  "state_io_rel evolves (gorm_Count_tasks svc P)"
  "state_io_rel evolves (rows_Scan svc t)"
  "state_io_rel evolves (redis_LLen svc k)"
  by (rule call_law_evolves [OF Find_tasks_law] call_law_evolves [OF Count_tasks_law]
      call_law_evolves [OF rows_Scan_law] call_law_evolves [OF LLen_law]; blast intro: same_evolves)+

lemma evolves_rows_Next: "state_io_rel evolves (rows_Next svc rs)"
  by (rule state_io_relI) (blast dest: rows_Next_law intro: same_evolves)

lemma evolves_redis:
  "state_io_rel evolves (redis_RPush svc k x)"
  "state_io_rel evolves (redis_BLPop svc k)"
  "state_io_rel evolves (redis_Publish svc c m)"
  "state_io_rel evolves (redis_ReceiveMessage svc c)"
  by (rule call_law_evolves [OF RPush_law] call_law_evolves [OF BLPop_law]
      call_law_evolves [OF Publish_law] call_law_evolves [OF ReceiveMessage_law];
      auto intro: evolves_frame dest!: same_fields)+

lemmas services_evolve =
  evolves_Create_execution evolves_Create_tasks evolves_Transaction evolves_First
  evolves_Updates_tasks evolves_Raw_update_tasks evolves_Update_executions evolves_reads
  evolves_rows_Next evolves_redis

end

end
