(* ===== verification/Reference_Services.thy ===== *)
theory Reference_Services
  imports Evolution
begin

text \<open>
  A concrete instance of the services, which the witnesses evaluate. It keeps the tables and
  lists as they are documented to behave and fails according to a schedule, a list that says
  for each call in turn whether it succeeds, fails without effect, or fails after its
  effect; after the end of the schedule every call succeeds. Schedules are arbitrary, so
  every finite pattern of failures is a run of this instance.
\<close>

datatype fault = NoFault | FailBefore string | FailAfter string

type_synonym schedule = "fault list"

definition next_fault :: "(schedule, fault) io" where
  "next_fault = State (\<lambda>w. case hidden w of [] \<Rightarrow> (NoFault, w) | f # fs \<Rightarrow> (f, w\<lparr>hidden := fs\<rparr>))"

lemma run_next_fault [simp]:
  "run_state next_fault w =
     (case hidden w of [] \<Rightarrow> (NoFault, w) | f # fs \<Rightarrow> (f, w\<lparr>hidden := fs\<rparr>))"
  by (simp add: next_fault_def)

definition ref_call ::
  "(schedule world \<Rightarrow> error + 'a \<times> schedule world) \<Rightarrow> (schedule, 'a) fallible" where
  "ref_call eff = do {
     f \<leftarrow> next_fault;
     w \<leftarrow> State_Monad.get;
     case f of
       FailBefore msg \<Rightarrow> return (Inl (Err msg))
     | _ \<Rightarrow>
         (case eff w of
            Inl e \<Rightarrow> return (Inl e)
          | Inr (a, w') \<Rightarrow> do {
              State_Monad.set w';
              return (case f of FailAfter msg \<Rightarrow> Inl (Err msg) | _ \<Rightarrow> Inr a)
            })
   }"

definition invalid_json :: error where
  "invalid_json = Err ''invalid input syntax for type json''"

definition guarded :: "bool \<Rightarrow> error \<Rightarrow> 'a \<Rightarrow> 'w \<Rightarrow> error + 'a \<times> 'w" where
  "guarded b e a w = (if b then Inr (a, w) else Inl e)"

definition ref_uuid_String :: "uuid \<Rightarrow> string" where
  "ref_uuid_String u = replicate (unat u) (CHR ''x'')"

definition ref_uuid_Parse :: "string \<Rightarrow> error + uuid" where
  "ref_uuid_Parse s =
     (if list_all (\<lambda>c. c = CHR ''x'') s then Inr (of_nat (length s)) else Inl (Err ''invalid UUID''))"

definition ref_jsonb_valid :: "string \<Rightarrow> bool" where
  "ref_jsonb_valid s \<longleftrightarrow> (case json_parse s of None \<Rightarrow> False | Some _ \<Rightarrow> True)"

definition ref_jsonb_contains :: "string \<Rightarrow> string \<Rightarrow> bool" where
  "ref_jsonb_contains a b \<longleftrightarrow>
     (case string_array a of
        None \<Rightarrow> False
      | Some xs \<Rightarrow>
          (case string_array b of None \<Rightarrow> False | Some ys \<Rightarrow> list_all (\<lambda>y. y \<in> set xs) ys))"

definition ref_First :: "(schedule world \<Rightarrow> 'a list) \<Rightarrow> ('a \<Rightarrow> bool) \<Rightarrow> (schedule, 'a) fallible" where
  "ref_First rows P =
     ref_call (\<lambda>w. case filter P (rows w) of [] \<Rightarrow> Inl ErrRecordNotFound | x # _ \<Rightarrow> Inr (x, w))"

definition ref_Transaction :: "(schedule, unit) fallible \<Rightarrow> (schedule, unit) fallible" where
  "ref_Transaction body = do {
     w \<leftarrow> State_Monad.get;
     r \<leftarrow> body;
     f \<leftarrow> next_fault;
     (case (r, f) of
        (Inr _, NoFault) \<Rightarrow> return (Inr ())
      | (Inr _, FailAfter msg) \<Rightarrow> return (Inl (Err msg))
      | (_, _) \<Rightarrow> do {
          State_Monad.update (\<lambda>v. v\<lparr>task_rows := task_rows w, exec_rows := exec_rows w\<rparr>);
          return (case r of Inl e \<Rightarrow> Inl e | Inr _ \<Rightarrow> Inl (Err ''commit failed''))
        })
   }"

definition reference_services :: "schedule services" where
  "reference_services =
     \<lparr>uuid_String = ref_uuid_String,
      uuid_Parse = ref_uuid_Parse,
      jsonb_valid = ref_jsonb_valid,
      jsonb_contains = ref_jsonb_contains,
      gorm_Create_execution = (\<lambda>e. ref_call (\<lambda>w.
        guarded (we_ID e \<notin> we_ID ` set (exec_rows w)) (Err ''duplicate key'') ()
          (w\<lparr>exec_rows := exec_rows w @ [stamp_execution 1 e]\<rparr>))),
      gorm_Create_tasks = (\<lambda>ts. ref_call (\<lambda>w.
        guarded (list_all ref_jsonb_valid (jsonb_texts ts) \<and> distinct (map ID ts) \<and>
                 ID ` set ts \<inter> ID ` set (task_rows w) = {}) (Err ''duplicate key'') ()
          (w\<lparr>task_rows := task_rows w @ map (\<lambda>t. stamp_task 1 (task_column_defaults t)) ts\<rparr>))),
      gorm_Transaction = ref_Transaction,
      gorm_First_task = ref_First task_rows,
      gorm_First_execution = ref_First exec_rows,
      gorm_Find_tasks = (\<lambda>js P. ref_call (\<lambda>w.
        guarded (list_all ref_jsonb_valid js) invalid_json (filter P (task_rows w)) w)),
      gorm_Count_tasks = (\<lambda>P. ref_call (\<lambda>w. Inr (length (filter P (task_rows w)), w))),
      gorm_Updates_tasks = (\<lambda>js P f. ref_call (\<lambda>w.
        guarded (list_all ref_jsonb_valid js) invalid_json (length (filter P (task_rows w)))
          (w\<lparr>task_rows := update_where P (\<lambda>t. (f t)\<lparr>UpdatedAt := 1\<rparr>) (task_rows w)\<rparr>))),
      gorm_Update_executions = (\<lambda>Q g. ref_call (\<lambda>w.
        Inr (length (filter Q (exec_rows w)),
             w\<lparr>exec_rows := update_where Q (\<lambda>e. (g e)\<lparr>we_UpdatedAt := 1\<rparr>) (exec_rows w)\<rparr>))),
      gorm_Raw_update_tasks = (\<lambda>js P f. ref_call (\<lambda>w.
        guarded (list_all ref_jsonb_valid js) invalid_json (map f (filter P (task_rows w)))
          (w\<lparr>task_rows := update_where P f (task_rows w)\<rparr>))),
      rows_Next = (\<lambda>rs. do {
        f \<leftarrow> next_fault;
        return (rs \<noteq> [] \<and> f = NoFault)
      }),
      rows_Scan = (\<lambda>t. ref_call (\<lambda>w. Inr ((ID t, InDegree t), w))),
      redis_RPush = (\<lambda>k x. ref_call (\<lambda>w.
        Inr ((), w\<lparr>redis_list := (redis_list w)(k := redis_list w k @ [x])\<rparr>))),
      redis_BLPop = (\<lambda>k. ref_call (\<lambda>w.
        case redis_list w k of
          [] \<Rightarrow> Inl (Err ''connection closed'')
        | x # xs \<Rightarrow> Inr ((k, x), w\<lparr>redis_list := (redis_list w)(k := xs)\<rparr>))),
      redis_Publish = (\<lambda>c m. ref_call (\<lambda>w.
        Inr ((), w\<lparr>inbox := (inbox w)(c := inbox w c @ [m])\<rparr>))),
      redis_ReceiveMessage = (\<lambda>c. ref_call (\<lambda>w.
        case inbox w c of
          [] \<Rightarrow> Inl (Err ''connection closed'')
        | m # ms \<Rightarrow> Inr (m, w\<lparr>inbox := (inbox w)(c := ms)\<rparr>))),
      redis_LLen = (\<lambda>k. ref_call (\<lambda>w. Inr (length (redis_list w k), w)))\<rparr>"

text \<open>The calls one by one, for evaluation without unfolding the record.\<close>

lemma reference_calls:
  "uuid_String reference_services = ref_uuid_String"
  "uuid_Parse reference_services = ref_uuid_Parse"
  "jsonb_valid reference_services = ref_jsonb_valid"
  "jsonb_contains reference_services = ref_jsonb_contains"
  "gorm_Create_execution reference_services = (\<lambda>e. ref_call (\<lambda>w.
        guarded (we_ID e \<notin> we_ID ` set (exec_rows w)) (Err ''duplicate key'') ()
          (w\<lparr>exec_rows := exec_rows w @ [stamp_execution 1 e]\<rparr>)))"
  "gorm_Create_tasks reference_services = (\<lambda>ts. ref_call (\<lambda>w.
        guarded (list_all ref_jsonb_valid (jsonb_texts ts) \<and> distinct (map ID ts) \<and>
                 ID ` set ts \<inter> ID ` set (task_rows w) = {}) (Err ''duplicate key'') ()
          (w\<lparr>task_rows := task_rows w @ map (\<lambda>t. stamp_task 1 (task_column_defaults t)) ts\<rparr>)))"
  "gorm_Transaction reference_services = ref_Transaction"
  "gorm_First_task reference_services = ref_First task_rows"
  "gorm_First_execution reference_services = ref_First exec_rows"
  "gorm_Find_tasks reference_services = (\<lambda>js P. ref_call (\<lambda>w.
        guarded (list_all ref_jsonb_valid js) invalid_json (filter P (task_rows w)) w))"
  "gorm_Count_tasks reference_services = (\<lambda>P. ref_call (\<lambda>w. Inr (length (filter P (task_rows w)), w)))"
  "gorm_Updates_tasks reference_services = (\<lambda>js P f. ref_call (\<lambda>w.
        guarded (list_all ref_jsonb_valid js) invalid_json (length (filter P (task_rows w)))
          (w\<lparr>task_rows := update_where P (\<lambda>t. (f t)\<lparr>UpdatedAt := 1\<rparr>) (task_rows w)\<rparr>)))"
  "gorm_Update_executions reference_services = (\<lambda>Q g. ref_call (\<lambda>w.
        Inr (length (filter Q (exec_rows w)),
             w\<lparr>exec_rows := update_where Q (\<lambda>e. (g e)\<lparr>we_UpdatedAt := 1\<rparr>) (exec_rows w)\<rparr>)))"
  "gorm_Raw_update_tasks reference_services = (\<lambda>js P f. ref_call (\<lambda>w.
        guarded (list_all ref_jsonb_valid js) invalid_json (map f (filter P (task_rows w)))
          (w\<lparr>task_rows := update_where P f (task_rows w)\<rparr>)))"
  "rows_Next reference_services = (\<lambda>rs. do {
        f \<leftarrow> next_fault;
        return (rs \<noteq> [] \<and> f = NoFault)
      })"
  "rows_Scan reference_services = (\<lambda>t. ref_call (\<lambda>w. Inr ((ID t, InDegree t), w)))"
  "redis_RPush reference_services = (\<lambda>k x. ref_call (\<lambda>w.
        Inr ((), w\<lparr>redis_list := (redis_list w)(k := redis_list w k @ [x])\<rparr>)))"
  "redis_BLPop reference_services = (\<lambda>k. ref_call (\<lambda>w.
        case redis_list w k of
          [] \<Rightarrow> Inl (Err ''connection closed'')
        | x # xs \<Rightarrow> Inr ((k, x), w\<lparr>redis_list := (redis_list w)(k := xs)\<rparr>)))"
  "redis_Publish reference_services = (\<lambda>c m. ref_call (\<lambda>w.
        Inr ((), w\<lparr>inbox := (inbox w)(c := inbox w c @ [m])\<rparr>)))"
  "redis_ReceiveMessage reference_services = (\<lambda>c. ref_call (\<lambda>w.
        case inbox w c of
          [] \<Rightarrow> Inl (Err ''connection closed'')
        | m # ms \<Rightarrow> Inr (m, w\<lparr>inbox := (inbox w)(c := ms)\<rparr>)))"
  "redis_LLen reference_services = (\<lambda>k. ref_call (\<lambda>w. Inr (length (redis_list w k), w)))"
  by (simp_all add: reference_services_def)

section \<open>The laws hold\<close>

lemma ref_call_law:
  assumes "\<And>v h e. eff (v\<lparr>hidden := h\<rparr>) = Inl e \<Longrightarrow> e \<noteq> ErrRecordNotFound"
    and "\<And>v h a w'. eff (v\<lparr>hidden := h\<rparr>) = Inr (a, w') \<Longrightarrow> E v a w'"
  shows "call_law (ref_call eff) E"
  unfolding call_law_def
proof (intro allI impI)
  fix w r w'
  assume run: "run_state (ref_call eff) w = (r, w')"
  obtain f h where f: "run_state next_fault w = (f, w\<lparr>hidden := h\<rparr>)"
    by (cases "hidden w") (auto intro: that [of _ "hidden w"])
  have same: "same w (w\<lparr>hidden := h\<rparr>)" by simp
  show "case r of Inl e \<Rightarrow> e \<noteq> ErrRecordNotFound \<and> (same w w' \<or> (\<exists>a. E w a w')) | Inr a \<Rightarrow> E w a w'"
  proof (cases f)
    case (FailBefore msg)
    with run f same show ?thesis by (auto simp: ref_call_def simp del: run_next_fault)
  next
    case NoFault
    with run f show ?thesis
      by (auto simp: ref_call_def simp del: run_next_fault split: sum.splits prod.splits
          intro: assms same dest: assms(1))
  next
    case (FailAfter msg)
    show ?thesis
    proof (cases "eff (w\<lparr>hidden := h\<rparr>)")
      case (Inl e)
      with run f FailAfter same assms(1) show ?thesis
        by (auto simp: ref_call_def simp del: run_next_fault)
    next
      case (Inr b)
      with run f FailAfter have "r = Inl (Err msg)" "E w (fst b) w'"
        by (auto simp: ref_call_def simp del: run_next_fault split: prod.splits intro: assms(2))
      then show ?thesis by auto
    qed
  qed
qed

lemma ref_First_law: "first_law (ref_First rows P) rows P"
  if "\<And>v h. rows (v\<lparr>hidden := h\<rparr>) = rows v"
  unfolding first_law_def
proof (intro allI impI)
  fix w r w'
  assume run: "run_state (ref_First rows P) w = (r, w')"
  obtain f h where f: "run_state next_fault w = (f, w\<lparr>hidden := h\<rparr>)"
    by (cases "hidden w") (auto intro: that [of _ "hidden w"])
  have same: "same w (w\<lparr>hidden := h\<rparr>)" by simp
  have head: "filter P (rows w) = x # xs \<Longrightarrow> x \<in> set (rows w) \<and> P x" for x xs
    by (metis (mono_tags, lifting) list.set_intros(1) mem_Collect_eq set_filter)
  show "same w w' \<and> (case r of Inl e \<Rightarrow> e = ErrRecordNotFound \<longrightarrow> filter P (rows w) = []
      | Inr a \<Rightarrow> a \<in> set (rows w) \<and> P a)"
    using run f same that head
    by (cases f; cases "filter P (rows w)")
       (auto simp: ref_First_def ref_call_def simp del: run_next_fault)
qed

lemma ref_Transaction_law: "transaction_law ref_Transaction"
  unfolding transaction_law_def
proof (intro allI impI)
  fix body w r w' rb wb
  assume run: "run_state (ref_Transaction body) w = (r, w')" and body: "run_state body w = (rb, wb)"
  obtain f h where f: "run_state next_fault wb = (f, wb\<lparr>hidden := h\<rparr>)"
    by (cases "hidden wb") (auto intro: that [of _ "hidden wb"])
  have commit: "same wb (wb\<lparr>hidden := h\<rparr>)" by simp
  have rollback: "rolled_back w wb (wb\<lparr>hidden := h, task_rows := task_rows w, exec_rows := exec_rows w\<rparr>)"
    unfolding rolled_back_def same_def by (rule exI [of _ h]) simp
  show "case r of Inl e \<Rightarrow> rb = Inl e \<and> rolled_back w wb w' \<or> e \<noteq> ErrRecordNotFound \<and>
        (same w w' \<or> rolled_back w wb w' \<or> rb = Inr () \<and> same wb w')
      | Inr _ \<Rightarrow> rb = Inr () \<and> same wb w'"
    using run body f commit rollback
    by (cases rb; cases f) (auto simp: ref_Transaction_def simp del: run_next_fault)
qed

lemma ref_uuid_law: "ref_uuid_Parse (ref_uuid_String u) = Inr u"
  by (simp add: ref_uuid_Parse_def ref_uuid_String_def list_all_iff)

lemma same_writes:
  "same (v\<lparr>task_rows := rows\<rparr>) (v\<lparr>hidden := h, task_rows := rows\<rparr>)"
  "same (v\<lparr>exec_rows := execs\<rparr>) (v\<lparr>hidden := h, exec_rows := execs\<rparr>)"
  "same (v\<lparr>redis_list := ls\<rparr>) (v\<lparr>hidden := h, redis_list := ls\<rparr>)"
  "same (v\<lparr>inbox := chans\<rparr>) (v\<lparr>hidden := h, inbox := chans\<rparr>)"
  by (auto simp: same_def intro!: exI [of _ h])

interpretation ref: lawful_services reference_services
proof (unfold_locales, goal_cases)
  case 1
  show ?case by (simp add: reference_services_def ref_uuid_law)
next
  case 2
  then show ?case by (simp add: reference_services_def ref_jsonb_valid_def split: option.splits)
next
  case 3
  then show ?case by (auto simp: reference_services_def ref_jsonb_contains_def list_all_iff)
next
  case 4
  then show ?case
    by (simp add: reference_services_def ref_jsonb_contains_def string_array_def)
next
  case 15
  then show ?case
    by (auto simp: reference_services_def split: list.splits)
next
  case 6
  show ?case
    unfolding reference_services_def guarded_def
    by (simp, rule ref_call_law)
       (auto split: if_splits intro!: exI same_writes simp del: Int_iff disjoint_iff)
next
  case 18
  show ?case
    by (auto simp: reference_services_def intro!: ref_call_law split: list.splits)
       (auto intro: same_writes)
next
  case 20
  show ?case
    by (auto simp: reference_services_def intro!: ref_call_law split: list.splits)
       (auto intro: same_writes)
qed (auto simp: reference_services_def guarded_def ref_Transaction_law invalid_json_def ref_First_law
      intro!: ref_call_law exI same_writes split: if_splits list.splits)

section \<open>A small database\<close>

text \<open>
  The rows the witnesses start from: an execution with a root task \<open>a\<close> and a task \<open>b\<close> that
  waits for it, in a world whose calls fail according to the given schedule.
\<close>

definition demo_root :: Task where
  "demo_root =
     \<lparr>ID = 1, ExecutionID = 7, RefID = ''a'', Action = ''assign_equipment'', Status = StatusQueued,
      RetryCount = 0, MaxRetries = 3, LastError = [], Dependencies = ''[]'', InDegree = 0,
      SkipHint = False, WorkerID = None, Version = 1, Input = ''{}'', Output = [], CreatedAt = 1,
      UpdatedAt = 1\<rparr>"

definition demo_child :: Task where
  "demo_child =
     demo_root\<lparr>ID := 2, RefID := ''b'', Status := StatusPending, InDegree := 1,
       Dependencies := [CHR ''['', quote, CHR ''a'', quote, CHR '']'']\<rparr>"

definition demo_execution :: WorkflowExecution where
  "demo_execution =
     \<lparr>we_ID = 7, UserID = 9, WorkflowType = ''onboarding'', we_Status = WorkflowRunning, Tasks = [],
      we_CreatedAt = 1, we_UpdatedAt = 1\<rparr>"

definition demo_world :: "schedule \<Rightarrow> schedule world" where
  "demo_world faults =
     \<lparr>task_rows = [demo_root, demo_child], exec_rows = [demo_execution],
      redis_list = (\<lambda>_. []), inbox = (\<lambda>_. []), mlog = [], hidden = faults\<rparr>"

lemma demo_unique_ids [simp]: "unique_ids (demo_world faults)"
  by (simp add: unique_ids_def demo_world_def demo_root_def demo_child_def)

lemma demo_fields [simp]:
  "ID demo_root = 1" "ID demo_child = 2" "ExecutionID demo_root = 7" "ExecutionID demo_child = 7"
  "InDegree demo_root = 0" "InDegree demo_child = 1" "Version demo_root = 1" "Version demo_child = 1"
  "demo_root \<noteq> demo_child" "demo_child \<noteq> demo_root"
  "task_rows (demo_world faults) = [demo_root, demo_child]"
  "exec_rows (demo_world faults) = [demo_execution]" "hidden (demo_world faults) = faults"
  "redis_list (demo_world faults) = (\<lambda>_. [])" "inbox (demo_world faults) = (\<lambda>_. [])"
  by (simp_all add: demo_root_def demo_child_def demo_world_def)

lemmas demo_defs = demo_world_def demo_root_def demo_child_def demo_execution_def

lemmas reference_eval = reference_services_def ref_call_def ref_First_def ref_Transaction_def guarded_def

end
