(* ===== verification/Ports.thy ===== *)
theory Ports
  imports Reference_Services
begin

text \<open>
  Package \<open>internal/core/ports\<close>: the four interfaces between the application and its
  infrastructure, as records of operations (a Go interface value is such a record), and the
  contract of each as a locale. A contract says what a call returns and writes, on success
  and on error, so that the coordinator, the worker and the service are verified against the
  contracts alone. The providers discharge them in their own theories.
\<close>

section \<open>The interfaces\<close>

record 'h TaskQueue =
  Push :: "string \<Rightarrow> ('h, unit) fallible"
  Pop :: "('h, string) fallible"

text \<open>
  A subscription is a Go channel; reading it is one round of the goroutine that feeds it,
  which forwards one decoded event or none.
\<close>

record 'h EventBus =
  PublishTaskCompleted :: "TaskCompletedEvent \<Rightarrow> ('h, unit) fallible"
  PublishTaskTerminated :: "TaskTerminatedEvent \<Rightarrow> ('h, unit) fallible"
  SubscribeToEvents :: "('h, TaskCompletedEvent option) io"
  SubscribeToTerminationEvents :: "('h, TaskTerminatedEvent option) io"

record 'h TaskRepository =
  CreateExecution :: "WorkflowExecution \<Rightarrow> Task list \<Rightarrow> ('h, unit) fallible"
  FindTaskByID :: "uuid \<Rightarrow> ('h, Task) fallible"
  ClaimTask :: "uuid \<Rightarrow> string \<Rightarrow> int \<Rightarrow> ('h, unit) fallible"
  FindChildren :: "uuid \<Rightarrow> string \<Rightarrow> ('h, Task list) fallible"
  MarkCompleted :: "uuid \<Rightarrow> string \<Rightarrow> ('h, unit) fallible"
  MarkFailed :: "uuid \<Rightarrow> string \<Rightarrow> ('h, unit) fallible"
  MarkSkipped :: "uuid \<Rightarrow> ('h, unit) fallible"
  IncrementRetryCount :: "uuid \<Rightarrow> int \<Rightarrow> ('h, unit) fallible"
  DecrementAndGetReadyTasks :: "uuid \<Rightarrow> string \<Rightarrow> ('h, uuid list) fallible"
  DecrementAndSetSkipHint :: "uuid \<Rightarrow> string \<Rightarrow> ('h, uuid list) fallible"
  AreAllTasksCompleted :: "uuid \<Rightarrow> ('h, bool) fallible"

record 'h WorkflowRepository =
  Create :: "WorkflowExecution \<Rightarrow> ('h, unit) fallible"
  GetByID :: "uuid \<Rightarrow> ('h, WorkflowExecution) fallible"
  UpdateStatus :: "uuid \<Rightarrow> WorkflowStatus \<Rightarrow> ('h, unit) fallible"

section \<open>What a call writes\<close>

text \<open>Nothing but the log of the collectors and the services' own state.\<close>

definition unwritten :: "'h world \<Rightarrow> 'h world \<Rightarrow> bool" where
  "unwritten w w' \<longleftrightarrow> task_rows w' = task_rows w \<and> exec_rows w' = exec_rows w \<and>
     redis_list w' = redis_list w \<and> inbox w' = inbox w"

text \<open>The rows that satisfy \<open>P\<close>, by \<open>f\<close> and the update time.\<close>

definition tasks_written :: "(Task \<Rightarrow> bool) \<Rightarrow> (Task \<Rightarrow> Task) \<Rightarrow> 'h world \<Rightarrow> 'h world \<Rightarrow> bool" where
  "tasks_written P f w w' \<longleftrightarrow>
     (\<exists>ts. task_rows w' = update_where P (\<lambda>t. (f t)\<lparr>UpdatedAt := ts\<rparr>) (task_rows w)) \<and>
     exec_rows w' = exec_rows w \<and> redis_list w' = redis_list w \<and> inbox w' = inbox w"

text \<open>The same, leaving the update time alone (a raw statement).\<close>

definition tasks_rewritten :: "(Task \<Rightarrow> bool) \<Rightarrow> (Task \<Rightarrow> Task) \<Rightarrow> 'h world \<Rightarrow> 'h world \<Rightarrow> bool" where
  "tasks_rewritten P f w w' \<longleftrightarrow>
     task_rows w' = update_where P f (task_rows w) \<and>
     exec_rows w' = exec_rows w \<and> redis_list w' = redis_list w \<and> inbox w' = inbox w"

definition execs_written ::
  "(WorkflowExecution \<Rightarrow> bool) \<Rightarrow> (WorkflowExecution \<Rightarrow> WorkflowExecution) \<Rightarrow> 'h world \<Rightarrow> 'h world \<Rightarrow> bool" where
  "execs_written Q g w w' \<longleftrightarrow>
     (\<exists>ts. exec_rows w' = update_where Q (\<lambda>e. (g e)\<lparr>we_UpdatedAt := ts\<rparr>) (exec_rows w)) \<and>
     task_rows w' = task_rows w \<and> redis_list w' = redis_list w \<and> inbox w' = inbox w"

lemma unwritten_refl [simp]: "unwritten w w"
  by (simp add: unwritten_def)

lemma unwritten_trans: "unwritten u v \<Longrightarrow> unwritten v w \<Longrightarrow> unwritten u w"
  by (simp add: unwritten_def)

lemma unwritten_log [simp]:
  "unwritten w (v\<lparr>mlog := l\<rparr>) \<longleftrightarrow> unwritten w v"
  "unwritten (v\<lparr>mlog := l\<rparr>) w \<longleftrightarrow> unwritten v w"
  "tasks_written P f w (v\<lparr>mlog := l\<rparr>) \<longleftrightarrow> tasks_written P f w v"
  "tasks_rewritten P f w (v\<lparr>mlog := l\<rparr>) \<longleftrightarrow> tasks_rewritten P f w v"
  "execs_written Q g w (v\<lparr>mlog := l\<rparr>) \<longleftrightarrow> execs_written Q g w v"
  by (simp_all add: unwritten_def tasks_written_def tasks_rewritten_def execs_written_def)

lemma same_unwritten: "same w w' \<Longrightarrow> unwritten w w'"
  by (drule same_fields) (simp add: unwritten_def)

section \<open>The row updates of the repository\<close>

text \<open>
  The abstract operations on a task row: what a claim, a retry, a final status and the end of
  a parent make of it.
\<close>

definition claimed :: "string \<Rightarrow> int \<Rightarrow> Task \<Rightarrow> Task" where
  "claimed worker v t = t\<lparr>Status := StatusRunning, WorkerID := Some worker, Version := v + 1\<rparr>"

definition retried :: "int \<Rightarrow> Task \<Rightarrow> Task" where
  "retried v t = t\<lparr>RetryCount := RetryCount t + 1, Status := StatusPending, Version := v + 1\<rparr>"

definition completed :: "string \<Rightarrow> Task \<Rightarrow> Task" where
  "completed out t = t\<lparr>Status := StatusCompleted, Output := out\<rparr>"

definition decremented :: "Task \<Rightarrow> Task" where
  "decremented t =
     t\<lparr>InDegree := InDegree t - 1,
       Status := (if InDegree t - 1 = 0 then StatusQueued else Status t)\<rparr>"

definition tainted :: "Task \<Rightarrow> Task" where
  "tainted t = (decremented t)\<lparr>SkipHint := True\<rparr>"

lemma row_updates_evolve:
  "Version t = v \<Longrightarrow> task_evolves t (claimed worker v t)"
  "Version t = v \<Longrightarrow> task_evolves t (retried v t)"
  "task_evolves t (completed out t)"
  "task_evolves t (decremented t)"
  "task_evolves t (tainted t)"
  by (simp_all add: task_evolves_def claimed_def retried_def completed_def decremented_def tainted_def)

text \<open>A workflow with all its tasks, stamped and with the column defaults filled in.\<close>

definition execution_created :: "WorkflowExecution \<Rightarrow> Task list \<Rightarrow> 'h world \<Rightarrow> 'h world \<Rightarrow> bool" where
  "execution_created e ts w w' \<longleftrightarrow>
     (\<exists>now. exec_rows w' = exec_rows w @ [stamp_execution now e]) \<and>
     (\<exists>now. task_rows w' = task_rows w @ map (\<lambda>t. stamp_task now (task_column_defaults t)) ts) \<and>
     redis_list w' = redis_list w \<and> inbox w' = inbox w"

definition execution_fresh :: "WorkflowExecution \<Rightarrow> Task list \<Rightarrow> 'h world \<Rightarrow> bool" where
  "execution_fresh e ts w \<longleftrightarrow> we_ID e \<notin> we_ID ` set (exec_rows w) \<and>
     distinct (map ID ts) \<and> ID ` set ts \<inter> ID ` set (task_rows w) = {}"

lemma execution_created_log [simp]:
  "execution_created e ts w (v\<lparr>mlog := l\<rparr>) \<longleftrightarrow> execution_created e ts w v"
  by (simp add: execution_created_def)

section \<open>Contracts\<close>

text \<open>
  A write that reports an error may still have happened. \<open>outcome r done none\<close> reads: on a
  result \<open>done\<close> holds, on an error one of the two.
\<close>

definition outcome :: "error + 'a \<Rightarrow> ('a \<Rightarrow> bool) \<Rightarrow> bool \<Rightarrow> bool \<Rightarrow> bool" where
  "outcome r done written none \<longleftrightarrow> (case r of Inr a \<Rightarrow> done a | Inl e \<Rightarrow> written \<or> none)"

lemma outcome_simps [simp]:
  "outcome (Inr a) done written none = done a"
  "outcome (Inl e) done written none = (written \<or> none)"
  by (simp_all add: outcome_def)

definition queue_written :: "(string \<Rightarrow> string list) \<Rightarrow> 'h world \<Rightarrow> 'h world \<Rightarrow> bool" where
  "queue_written ls w w' \<longleftrightarrow> task_rows w' = task_rows w \<and> exec_rows w' = exec_rows w \<and>
     redis_list w' = ls \<and> inbox w' = inbox w"

text \<open>A first-in first-out queue of task identifiers, kept under one key.\<close>

locale task_queue =
  fixes q :: "'h TaskQueue" and key :: string
  assumes Push_outcome: "run_state (Push q x) w = (r, w') \<Longrightarrow>
      outcome r (\<lambda>_. queue_written ((redis_list w)(key := redis_list w key @ [x])) w w')
        (queue_written ((redis_list w)(key := redis_list w key @ [x])) w w') (unwritten w w')"
    and Pop_outcome: "run_state (Pop q) w = (r', w') \<Longrightarrow>
      outcome r' (\<lambda>x. \<exists>xs. redis_list w key = x # xs \<and> queue_written ((redis_list w)(key := xs)) w w')
        (\<exists>x xs. redis_list w key = x # xs \<and> queue_written ((redis_list w)(key := xs)) w w')
        (unwritten w w')"
    and Push_evolves: "state_io_rel evolves (Push q x)"
    and Pop_evolves: "state_io_rel evolves (Pop q)"
begin

lemma Push_tables:
  "run_state (Push q x) w = (r, w') \<Longrightarrow>
     task_rows w' = task_rows w \<and> exec_rows w' = exec_rows w \<and> inbox w' = inbox w"
  using Push_outcome [of x w r w']
  by (cases r) (auto simp: unwritten_def queue_written_def)

end

text \<open>
  Events wait in the inbox of the subscriber of their channel, as messages that decode to
  them. A publication appends at most one message; a round of the subscriber takes at most
  one, and forwards what it decodes to.
\<close>

definition inbox_appended :: "string \<Rightarrow> (string \<Rightarrow> bool) \<Rightarrow> 'h world \<Rightarrow> 'h world \<Rightarrow> bool" where
  "inbox_appended c P w w' \<longleftrightarrow> task_rows w' = task_rows w \<and> exec_rows w' = exec_rows w \<and>
     redis_list w' = redis_list w \<and> (\<exists>m. P m \<and> inbox w' = (inbox w)(c := inbox w c @ [m]))"

definition inbox_taken :: "string \<Rightarrow> (string \<Rightarrow> bool) \<Rightarrow> 'h world \<Rightarrow> 'h world \<Rightarrow> bool" where
  "inbox_taken c P w w' \<longleftrightarrow> task_rows w' = task_rows w \<and> exec_rows w' = exec_rows w \<and>
     redis_list w' = redis_list w \<and>
     (\<exists>m ms. P m \<and> inbox w c = m # ms \<and> inbox w' = (inbox w)(c := ms))"

lemma inbox_log [simp]:
  "inbox_appended c P w (v\<lparr>mlog := l\<rparr>) \<longleftrightarrow> inbox_appended c P w v"
  "inbox_taken c P w (v\<lparr>mlog := l\<rparr>) \<longleftrightarrow> inbox_taken c P w v"
  by (simp_all add: inbox_appended_def inbox_taken_def)

locale event_bus =
  fixes bus :: "'h EventBus" and completed_ch terminated_ch :: string
    and completed_of :: "string \<Rightarrow> TaskCompletedEvent option"
    and terminated_of :: "string \<Rightarrow> TaskTerminatedEvent option"
  assumes channels_distinct: "completed_ch \<noteq> terminated_ch"
    and PublishTaskCompleted_outcome:
      "run_state (PublishTaskCompleted bus ev) w = (r, w') \<Longrightarrow>
         unwritten w w' \<or> inbox_appended completed_ch (\<lambda>m. completed_of m = Some ev) w w'"
    and PublishTaskTerminated_outcome:
      "run_state (PublishTaskTerminated bus ev') w = (r, w') \<Longrightarrow>
         unwritten w w' \<or> inbox_appended terminated_ch (\<lambda>m. terminated_of m = Some ev') w w'"
    and SubscribeToEvents_outcome:
      "run_state (SubscribeToEvents bus) w = (x, w') \<Longrightarrow>
         (case x of Some ev \<Rightarrow> inbox_taken completed_ch (\<lambda>m. completed_of m = Some ev) w w'
          | None \<Rightarrow> unwritten w w' \<or> inbox_taken completed_ch (\<lambda>_. True) w w')"
    and SubscribeToTerminationEvents_outcome:
      "run_state (SubscribeToTerminationEvents bus) w = (x', w') \<Longrightarrow>
         (case x' of Some ev \<Rightarrow> inbox_taken terminated_ch (\<lambda>m. terminated_of m = Some ev) w w'
          | None \<Rightarrow> unwritten w w' \<or> inbox_taken terminated_ch (\<lambda>_. True) w w')"
    and bus_evolves:
      "state_io_rel evolves (PublishTaskCompleted bus ev)"
      "state_io_rel evolves (PublishTaskTerminated bus ev')"
      "state_io_rel evolves (SubscribeToEvents bus)"
      "state_io_rel evolves (SubscribeToTerminationEvents bus)"
begin

lemma Publish_keeps:
  "run_state (PublishTaskCompleted bus ev) w = (r, w') \<Longrightarrow>
     task_rows w' = task_rows w \<and> exec_rows w' = exec_rows w \<and> redis_list w' = redis_list w"
  "run_state (PublishTaskTerminated bus ev') w = (r, w') \<Longrightarrow>
     task_rows w' = task_rows w \<and> exec_rows w' = exec_rows w \<and> redis_list w' = redis_list w"
  by (auto simp: unwritten_def inbox_appended_def
      dest: PublishTaskCompleted_outcome PublishTaskTerminated_outcome)

end

text \<open>
  The task table. \<open>depends_on t p\<close> is the repository's own reading of "p is a dependency of
  t". A claim and a retry are compare-and-swap operations on the version of a row; a
  decrement returns identifiers of rows it brought to in-degree zero, and nothing else.
\<close>

locale task_repository =
  fixes repo :: "'h TaskRepository" and depends_on :: "Task \<Rightarrow> string \<Rightarrow> bool"
  assumes CreateExecution_outcome: "run_state (CreateExecution repo e ts) w = (u, w') \<Longrightarrow>
      outcome u (\<lambda>_. execution_fresh e ts w \<and> execution_created e ts w w')
        (execution_fresh e ts w \<and> execution_created e ts w w') (unwritten w w')"
    and FindTaskByID_outcome: "run_state (FindTaskByID repo tid) w = (r, w') \<Longrightarrow>
      unwritten w w' \<and> (case r of Inr t \<Rightarrow> t \<in> set (task_rows w) \<and> ID t = tid
        | Inl e \<Rightarrow> e = ErrRecordNotFound \<longrightarrow> tid \<notin> ID ` set (task_rows w))"
    and ClaimTask_outcome: "run_state (ClaimTask repo tid worker v) w = (u, w') \<Longrightarrow>
      outcome u (\<lambda>_. (\<exists>t \<in> set (task_rows w). ID t = tid \<and> Version t = v) \<and>
          tasks_written (\<lambda>t. ID t = tid \<and> Version t = v) (claimed worker v) w w')
        (tasks_written (\<lambda>t. ID t = tid \<and> Version t = v) (claimed worker v) w w') (unwritten w w') \<and>
      (u = Inl ErrRecordNotFound \<longrightarrow>
         (\<forall>t \<in> set (task_rows w). \<not> (ID t = tid \<and> Version t = v)) \<and> unwritten w w')"
    and IncrementRetryCount_outcome: "run_state (IncrementRetryCount repo tid v) w = (u, w') \<Longrightarrow>
      outcome u (\<lambda>_. (\<exists>t \<in> set (task_rows w). ID t = tid \<and> Version t = v) \<and>
          tasks_written (\<lambda>t. ID t = tid \<and> Version t = v) (retried v) w w')
        (tasks_written (\<lambda>t. ID t = tid \<and> Version t = v) (retried v) w w') (unwritten w w') \<and>
      (u = Inl ErrRecordNotFound \<longrightarrow>
         (\<forall>t \<in> set (task_rows w). \<not> (ID t = tid \<and> Version t = v)) \<and> unwritten w w')"
    and MarkCompleted_outcome: "run_state (MarkCompleted repo tid out) w = (u, w') \<Longrightarrow>
      outcome u (\<lambda>_. tasks_written (\<lambda>t. ID t = tid) (completed out) w w')
        (tasks_written (\<lambda>t. ID t = tid) (completed out) w w') (unwritten w w')"
    and MarkFailed_outcome: "run_state (MarkFailed repo tid msg) w = (u, w') \<Longrightarrow>
      \<exists>out. outcome u (\<lambda>_. tasks_written (\<lambda>t. ID t = tid)
            (\<lambda>t. t\<lparr>Status := StatusFailed, LastError := msg, Output := out\<rparr>) w w')
        (tasks_written (\<lambda>t. ID t = tid)
            (\<lambda>t. t\<lparr>Status := StatusFailed, LastError := msg, Output := out\<rparr>) w w') (unwritten w w')"
    and MarkSkipped_outcome: "run_state (MarkSkipped repo tid) w = (u, w') \<Longrightarrow>
      \<exists>out. outcome u (\<lambda>_. tasks_written (\<lambda>t. ID t = tid)
            (\<lambda>t. t\<lparr>Status := StatusSkipped, Output := out\<rparr>) w w')
        (tasks_written (\<lambda>t. ID t = tid)
            (\<lambda>t. t\<lparr>Status := StatusSkipped, Output := out\<rparr>) w w') (unwritten w w')"
    and DecrementAndGetReadyTasks_outcome:
      "run_state (DecrementAndGetReadyTasks repo ex p) w = (ids, w') \<Longrightarrow>
      (tasks_rewritten (\<lambda>t. ExecutionID t = ex \<and> depends_on t p) decremented w w' \<or>
         ((\<exists>e. ids = Inl e) \<and> unwritten w w')) \<and>
      (\<forall>xs. ids = Inr xs \<longrightarrow> mset xs \<subseteq># mset (map ID
         (filter (\<lambda>t. ExecutionID t = ex \<and> depends_on t p \<and> InDegree t = 1) (task_rows w))))"
    and DecrementAndSetSkipHint_outcome:
      "run_state (DecrementAndSetSkipHint repo ex p) w = (ids, w') \<Longrightarrow>
      (tasks_rewritten (\<lambda>t. ExecutionID t = ex \<and> depends_on t p) tainted w w' \<or>
         ((\<exists>e. ids = Inl e) \<and> unwritten w w')) \<and>
      (\<forall>xs. ids = Inr xs \<longrightarrow> mset xs \<subseteq># mset (map ID
         (filter (\<lambda>t. ExecutionID t = ex \<and> depends_on t p \<and> InDegree t = 1) (task_rows w))))"
    and AreAllTasksCompleted_outcome: "run_state (AreAllTasksCompleted repo ex) w = (b, w') \<Longrightarrow>
      unwritten w w' \<and> (\<forall>c. b = Inr c \<longrightarrow>
        (c \<longleftrightarrow> (\<forall>t \<in> set (task_rows w). ExecutionID t = ex \<longrightarrow> Status t = StatusCompleted)))"
    and task_repository_evolves:
      "state_io_rel evolves (CreateExecution repo e ts)"
      "state_io_rel evolves (FindTaskByID repo tid)"
      "state_io_rel evolves (ClaimTask repo tid worker v)"
      "state_io_rel evolves (FindChildren repo ex p)"
      "state_io_rel evolves (MarkCompleted repo tid out)"
      "state_io_rel evolves (MarkFailed repo tid msg)"
      "state_io_rel evolves (MarkSkipped repo tid)"
      "state_io_rel evolves (IncrementRetryCount repo tid v)"
      "state_io_rel evolves (DecrementAndGetReadyTasks repo ex p)"
      "state_io_rel evolves (DecrementAndSetSkipHint repo ex p)"
      "state_io_rel evolves (AreAllTasksCompleted repo ex)"

text \<open>
  The executions. A status is written only over a different one, and never over
  \<open>WorkflowFailed\<close>.
\<close>

definition status_writable :: "uuid \<Rightarrow> WorkflowStatus \<Rightarrow> WorkflowExecution \<Rightarrow> bool" where
  "status_writable ex s e \<longleftrightarrow> we_ID e = ex \<and> we_Status e \<noteq> s \<and> we_Status e \<noteq> WorkflowFailed"

locale workflow_repository =
  fixes wrepo :: "'h WorkflowRepository"
  assumes UpdateStatus_outcome: "run_state (UpdateStatus wrepo ex s) w = (u, w') \<Longrightarrow>
      outcome u (\<lambda>_. execs_written (status_writable ex s) (\<lambda>e. e\<lparr>we_Status := s\<rparr>) w w')
        (execs_written (status_writable ex s) (\<lambda>e. e\<lparr>we_Status := s\<rparr>) w w') (unwritten w w')"
    and GetByID_outcome: "run_state (GetByID wrepo ex) w = (r, w') \<Longrightarrow>
      unwritten w w' \<and> (case r of Inr e \<Rightarrow> e \<in> set (exec_rows w) \<and> we_ID e = ex
        | Inl err \<Rightarrow> err = ErrRecordNotFound \<longrightarrow> ex \<notin> we_ID ` set (exec_rows w))"
    and workflow_repository_evolves:
      "state_io_rel evolves (Create wrepo e)"
      "state_io_rel evolves (GetByID wrepo ex)"
      "state_io_rel evolves (UpdateStatus wrepo ex s)"

end
