(* ===== verification/Task_Repository.thy ===== *)
theory Task_Repository
  imports Ports
begin

text \<open>
  \<open>internal/core/postgres/repository/task_repository_impl.go\<close>: the operations on the task
  table, each a translation of its query, with the collectors it updates and its error
  branches; and the proof that they meet the contract of the task repository.
\<close>

section \<open>Operations\<close>

text \<open>The body of the transaction.\<close>

definition insert_execution ::
  "'h services \<Rightarrow> WorkflowExecution \<Rightarrow> Task list \<Rightarrow> ('h, unit) fallible" where
  "insert_execution svc execution tasks = do {
     r \<leftarrow> gorm_Create_execution svc execution;
     case r of
       Inl err \<Rightarrow> return (Inl err)
     | Inr _ \<Rightarrow>
         if length tasks > 0
         then do {
           r' \<leftarrow> gorm_Create_tasks svc tasks;
           (case r' of Inl err \<Rightarrow> return (Inl err) | Inr _ \<Rightarrow> return (Inr ()))
         }
         else return (Inr ())
   }"

definition taskRepository_CreateExecution ::
  "'h services \<Rightarrow> WorkflowExecution \<Rightarrow> Task list \<Rightarrow> ('h, unit) fallible" where
  "taskRepository_CreateExecution svc execution tasks =
     deferred (observe DBQueryDuration [''create_execution'']) (do {
       r \<leftarrow> gorm_Transaction svc (insert_execution svc execution tasks);
       case r of
         Inl err \<Rightarrow> do {
           inc DBQueryErrorsTotal [''create_execution''];
           inc DBTransactionsTotal [''failed''];
           return (Inl err)
         }
       | Inr _ \<Rightarrow> do { inc DBTransactionsTotal [''success'']; return (Inr ()) }
     })"

definition taskRepository_FindTaskByID :: "'h services \<Rightarrow> uuid \<Rightarrow> ('h, Task) fallible" where
  "taskRepository_FindTaskByID svc tid =
     deferred (observe DBQueryDuration [''find_task'']) (do {
       r \<leftarrow> gorm_First_task svc (\<lambda>t. ID t = tid);
       case r of
         Inl err \<Rightarrow> do {
           (if err \<noteq> ErrRecordNotFound then inc DBQueryErrorsTotal [''find_task''] else return ());
           return (Inl err)
         }
       | Inr task \<Rightarrow> return (Inr task)
     })"

definition taskRepository_ClaimTask ::
  "'h services \<Rightarrow> uuid \<Rightarrow> string \<Rightarrow> int \<Rightarrow> ('h, unit) fallible" where
  "taskRepository_ClaimTask svc taskID workerID currentVersion =
     deferred (observe DBQueryDuration [''claim_task'']) (do {
       result \<leftarrow> gorm_Updates_tasks svc []
         (\<lambda>t. ID t = taskID \<and> Version t = currentVersion)
         (\<lambda>t. t\<lparr>Status := StatusRunning, WorkerID := Some workerID, Version := currentVersion + 1\<rparr>);
       case result of
         Inl err \<Rightarrow> do { inc DBQueryErrorsTotal [''claim_task'']; return (Inl err) }
       | Inr rowsAffected \<Rightarrow>
           if rowsAffected = 0
           then do {
             inc DBOptimisticLockConflictsTotal [''claim_task''];
             return (Inl ErrRecordNotFound)
           }
           else return (Inr ())
     })"

text \<open>The parameter of the containment queries: the name pasted between brackets and quotes.\<close>

definition depParam :: "string \<Rightarrow> string" where
  "depParam name = [CHR ''['', quote] @ name @ [quote, CHR '']'']"

definition depends_on :: "'h services \<Rightarrow> Task \<Rightarrow> string \<Rightarrow> bool" where
  "depends_on svc t name = jsonb_contains svc (Dependencies t) (depParam name)"

definition taskRepository_FindChildren ::
  "'h services \<Rightarrow> uuid \<Rightarrow> string \<Rightarrow> ('h, Task list) fallible" where
  "taskRepository_FindChildren svc executionID parentName =
     gorm_Find_tasks svc [depParam parentName]
       (\<lambda>t. ExecutionID t = executionID \<and> depends_on svc t parentName)"

text \<open>An empty \<open>datatypes.JSON\<close> is written as NULL; any other text must be a JSON text.\<close>

definition jsonb_text :: "string \<Rightarrow> string list" where
  "jsonb_text s = (if s = [] then [] else [s])"

definition taskRepository_MarkCompleted ::
  "'h services \<Rightarrow> uuid \<Rightarrow> string \<Rightarrow> ('h, unit) fallible" where
  "taskRepository_MarkCompleted svc taskID output =
     deferred (observe DBQueryDuration [''mark_completed'']) (do {
       r \<leftarrow> gorm_Updates_tasks svc (jsonb_text output) (\<lambda>t. ID t = taskID)
         (\<lambda>t. t\<lparr>Status := StatusCompleted, Output := output\<rparr>);
       case r of
         Inl err \<Rightarrow> do { inc DBQueryErrorsTotal [''mark_completed'']; return (Inl err) }
       | Inr _ \<Rightarrow> return (Inr ())
     })"

definition error_output :: "string \<Rightarrow> string" where
  "error_output errMessage =
     [CHR ''{'', quote] @ ''error'' @ [quote, CHR '':'', quote] @ errMessage @ [quote, CHR ''}'']"

definition taskRepository_MarkFailed ::
  "'h services \<Rightarrow> uuid \<Rightarrow> string \<Rightarrow> ('h, unit) fallible" where
  "taskRepository_MarkFailed svc taskID errMessage =
     deferred (observe DBQueryDuration [''mark_failed'']) (do {
       r \<leftarrow> gorm_Updates_tasks svc (jsonb_text (error_output errMessage)) (\<lambda>t. ID t = taskID)
         (\<lambda>t. t\<lparr>Status := StatusFailed, LastError := errMessage, Output := error_output errMessage\<rparr>);
       case r of
         Inl err \<Rightarrow> do { inc DBQueryErrorsTotal [''mark_failed'']; return (Inl err) }
       | Inr _ \<Rightarrow> return (Inr ())
     })"

definition skipped_output :: string where
  "skipped_output =
     [CHR ''{'', quote] @ ''skipped'' @ [quote] @ '': true, '' @ [quote] @ ''reason'' @ [quote] @
     '': '' @ [quote] @ ''parent task failed'' @ [quote, CHR ''}'']"

definition taskRepository_MarkSkipped :: "'h services \<Rightarrow> uuid \<Rightarrow> ('h, unit) fallible" where
  "taskRepository_MarkSkipped svc taskID =
     deferred (observe DBQueryDuration [''mark_skipped'']) (do {
       r \<leftarrow> gorm_Updates_tasks svc (jsonb_text skipped_output) (\<lambda>t. ID t = taskID)
         (\<lambda>t. t\<lparr>Status := StatusSkipped, Output := skipped_output\<rparr>);
       case r of
         Inl err \<Rightarrow> do { inc DBQueryErrorsTotal [''mark_skipped'']; return (Inl err) }
       | Inr _ \<Rightarrow> return (Inr ())
     })"

definition taskRepository_IncrementRetryCount ::
  "'h services \<Rightarrow> uuid \<Rightarrow> int \<Rightarrow> ('h, unit) fallible" where
  "taskRepository_IncrementRetryCount svc taskID currentVersion =
     deferred (observe DBQueryDuration [''increment_retry'']) (do {
       result \<leftarrow> gorm_Updates_tasks svc []
         (\<lambda>t. ID t = taskID \<and> Version t = currentVersion)
         (\<lambda>t. t\<lparr>RetryCount := RetryCount t + 1, Status := StatusPending, Version := currentVersion + 1\<rparr>);
       case result of
         Inl err \<Rightarrow> do { inc DBQueryErrorsTotal [''increment_retry'']; return (Inl err) }
       | Inr rowsAffected \<Rightarrow>
           if rowsAffected = 0
           then do {
             inc DBOptimisticLockConflictsTotal [''increment_retry''];
             return (Inl ErrRecordNotFound)
           }
           else return (Inr ())
     })"

text \<open>
  The loop \<open>for rows.Next()\<close> over the rows the statement returned. \<open>Next\<close> is false at
  the end and also when fetching a row failed; the code does not ask \<open>rows.Err()\<close> which.
\<close>

fun scan_ready :: "'h services \<Rightarrow> Task list \<Rightarrow> uuid list \<Rightarrow> ('h, uuid list) fallible" where
  "scan_ready svc [] ready = do { _ \<leftarrow> rows_Next svc []; return (Inr ready) }"
| "scan_ready svc (row # rest) ready = do {
     found \<leftarrow> rows_Next svc (row # rest);
     if \<not> found then return (Inr ready)
     else do {
       r \<leftarrow> rows_Scan svc row;
       case r of
         Inl err \<Rightarrow> return (Inl err)
       | Inr (tid, inDegree) \<Rightarrow> scan_ready svc rest (if inDegree = 0 then ready @ [tid] else ready)
     }
   }"

definition taskRepository_DecrementAndGetReadyTasks ::
  "'h services \<Rightarrow> uuid \<Rightarrow> string \<Rightarrow> ('h, uuid list) fallible" where
  "taskRepository_DecrementAndGetReadyTasks svc executionID completedRefID =
     deferred (observe DBQueryDuration [''decrement_ready'']) (do {
       r \<leftarrow> gorm_Raw_update_tasks svc [depParam completedRefID]
         (\<lambda>t. ExecutionID t = executionID \<and> depends_on svc t completedRefID)
         (\<lambda>t. t\<lparr>InDegree := InDegree t - 1,
                Status := (if InDegree t - 1 = 0 then StatusQueued else Status t)\<rparr>);
       case r of
         Inl err \<Rightarrow> do { inc DBQueryErrorsTotal [''decrement_ready'']; return (Inl err) }
       | Inr rows \<Rightarrow> scan_ready svc rows []
     })"

definition taskRepository_DecrementAndSetSkipHint ::
  "'h services \<Rightarrow> uuid \<Rightarrow> string \<Rightarrow> ('h, uuid list) fallible" where
  "taskRepository_DecrementAndSetSkipHint svc executionID failedRefID =
     deferred (observe DBQueryDuration [''decrement_skip'']) (do {
       r \<leftarrow> gorm_Raw_update_tasks svc [depParam failedRefID]
         (\<lambda>t. ExecutionID t = executionID \<and> depends_on svc t failedRefID)
         (\<lambda>t. t\<lparr>InDegree := InDegree t - 1, SkipHint := True,
                Status := (if InDegree t - 1 = 0 then StatusQueued else Status t)\<rparr>);
       case r of
         Inl err \<Rightarrow> do { inc DBQueryErrorsTotal [''decrement_skip'']; return (Inl err) }
       | Inr rows \<Rightarrow> scan_ready svc rows []
     })"

definition taskRepository_AreAllTasksCompleted :: "'h services \<Rightarrow> uuid \<Rightarrow> ('h, bool) fallible" where
  "taskRepository_AreAllTasksCompleted svc executionID =
     deferred (observe DBQueryDuration [''check_completed'']) (do {
       r \<leftarrow> gorm_Count_tasks svc (\<lambda>t. ExecutionID t = executionID \<and> Status t \<noteq> StatusCompleted);
       case r of
         Inl err \<Rightarrow> do { inc DBQueryErrorsTotal [''check_completed'']; return (Inl err) }
       | Inr n \<Rightarrow> return (Inr (n = 0))
     })"

definition NewTaskRepository :: "'h services \<Rightarrow> 'h TaskRepository" where
  "NewTaskRepository svc =
     \<lparr>CreateExecution = taskRepository_CreateExecution svc,
      FindTaskByID = taskRepository_FindTaskByID svc,
      ClaimTask = taskRepository_ClaimTask svc,
      FindChildren = taskRepository_FindChildren svc,
      MarkCompleted = taskRepository_MarkCompleted svc,
      MarkFailed = taskRepository_MarkFailed svc,
      MarkSkipped = taskRepository_MarkSkipped svc,
      IncrementRetryCount = taskRepository_IncrementRetryCount svc,
      DecrementAndGetReadyTasks = taskRepository_DecrementAndGetReadyTasks svc,
      DecrementAndSetSkipHint = taskRepository_DecrementAndSetSkipHint svc,
      AreAllTasksCompleted = taskRepository_AreAllTasksCompleted svc\<rparr>"

lemmas taskRepository_defs =
  insert_execution_def taskRepository_CreateExecution_def taskRepository_FindTaskByID_def taskRepository_ClaimTask_def
  taskRepository_FindChildren_def taskRepository_MarkCompleted_def taskRepository_MarkFailed_def
  taskRepository_MarkSkipped_def taskRepository_IncrementRetryCount_def
  taskRepository_DecrementAndGetReadyTasks_def taskRepository_DecrementAndSetSkipHint_def
  taskRepository_AreAllTasksCompleted_def

section \<open>Every operation evolves the world\<close>

text \<open>The label values of the calls on the database collectors.\<close>

lemma db_metrics_ok [simp]:
  "metric_op_ok (MObserve DBQueryDuration [x])"
  "metric_op_ok (MInc DBQueryErrorsTotal [x])"
  "metric_op_ok (MInc DBTransactionsTotal [x])"
  "metric_op_ok (MInc DBOptimisticLockConflictsTotal [x])"
  by (simp_all add: metric_op_ok.simps DBQueryDuration_def DBQueryErrorsTotal_def
      DBTransactionsTotal_def DBOptimisticLockConflictsTotal_def)

context lawful_services
begin

lemma scan_ready_evolves: "state_io_rel evolves (scan_ready svc rows ready)"
proof (induction rows arbitrary: ready)
  case Nil
  show ?case by (auto intro!: evolve_intros services_evolve)
next
  case (Cons row rows)
  then show ?case
    by (auto intro!: evolve_intros services_evolve)
qed

lemma repository_evolves:
  "state_io_rel evolves (taskRepository_CreateExecution svc e ts)"
  "state_io_rel evolves (taskRepository_FindTaskByID svc tid)"
  "state_io_rel evolves (taskRepository_ClaimTask svc tid worker v)"
  "state_io_rel evolves (taskRepository_FindChildren svc ex p)"
  "state_io_rel evolves (taskRepository_MarkCompleted svc tid out)"
  "state_io_rel evolves (taskRepository_MarkFailed svc tid msg)"
  "state_io_rel evolves (taskRepository_MarkSkipped svc tid)"
  "state_io_rel evolves (taskRepository_IncrementRetryCount svc tid v)"
  "state_io_rel evolves (taskRepository_DecrementAndGetReadyTasks svc ex p)"
  "state_io_rel evolves (taskRepository_DecrementAndSetSkipHint svc ex p)"
  "state_io_rel evolves (taskRepository_AreAllTasksCompleted svc ex)"
  unfolding taskRepository_defs
  by (intro evolve_intros services_evolve scan_ready_evolves; simp add: task_evolves_def)+

end

section \<open>The contract\<close>

lemma same_writtenI:
  "same (w\<lparr>task_rows := update_where P (\<lambda>t. (f t)\<lparr>UpdatedAt := ts\<rparr>) (task_rows w)\<rparr>) w' \<Longrightarrow>
     tasks_written P f w w'"
  "same (w\<lparr>task_rows := update_where P f (task_rows w)\<rparr>) w' \<Longrightarrow> tasks_rewritten P f w w'"
  by (drule same_fields, auto simp: tasks_written_def tasks_rewritten_def)+

context lawful_services
begin

lemma Updates_outcome:
  assumes "run_state (gorm_Updates_tasks svc js P f) w = (r, w')"
  shows "case r of
           Inr n \<Rightarrow> list_all (jsonb_valid svc) js \<and> n = length (filter P (task_rows w)) \<and> tasks_written P f w w'
         | Inl e \<Rightarrow> e \<noteq> ErrRecordNotFound \<and>
             (unwritten w w' \<or> list_all (jsonb_valid svc) js \<and> tasks_written P f w w')"
  by (rule call_lawE [OF Updates_tasks_law assms])
     (auto intro: same_writtenI same_unwritten)

lemma Raw_update_outcome:
  assumes "run_state (gorm_Raw_update_tasks svc js P f) w = (r, w')"
  shows "case r of
           Inr rs \<Rightarrow> mset rs = mset (map f (filter P (task_rows w))) \<and> tasks_rewritten P f w w'
         | Inl e \<Rightarrow> unwritten w w' \<or> tasks_rewritten P f w w'"
  by (rule call_lawE [OF Raw_update_tasks_law assms])
     (auto intro: same_writtenI same_unwritten)

lemma rows_Scan_outcome:
  assumes "run_state (rows_Scan svc t) w = (r, w')"
  shows "unwritten w w' \<and> (case r of Inr a \<Rightarrow> a = (ID t, InDegree t) | Inl e \<Rightarrow> True)"
  by (rule call_lawE [OF rows_Scan_law assms]) (auto intro: same_unwritten)

text \<open>
  The loop returns some of the identifiers whose new in-degree is zero, each as often as it
  occurs; all of them unless fetching fails.
\<close>

lemma scan_ready_outcome:
  assumes "run_state (scan_ready svc rows ready) w = (r, w')"
  shows "unwritten w w' \<and> (\<forall>xs. r = Inr xs \<longrightarrow>
           mset xs \<subseteq># mset ready + mset (map ID (filter (\<lambda>t. InDegree t = 0) rows)))"
  using assms
proof (induction rows arbitrary: ready w)
  case Nil
  obtain f w1 where nxt: "run_state (rows_Next svc []) w = (f, w1)" by fastforce
  with Nil rows_Next_law [OF nxt] show ?case
    by (auto intro: same_unwritten)
next
  case (Cons row rows)
  obtain f w1 where nxt: "run_state (rows_Next svc (row # rows)) w = (f, w1)" by fastforce
  then have w1: "unwritten w w1" using rows_Next_law same_unwritten by blast
  obtain s w2 where scan: "run_state (rows_Scan svc row) w1 = (s, w2)" by fastforce
  then have w2: "unwritten w w2" using rows_Scan_outcome w1 unwritten_trans by blast
  show ?case
  proof (cases f)
    case False
    with Cons.prems nxt w1 show ?thesis by (auto intro: subset_mset.add_increasing2)
  next
    case found: True
    show ?thesis
    proof (cases s)
      case (Inl e)
      with Cons.prems nxt scan found w2 show ?thesis by auto
    next
      case (Inr a)
      then have a: "a = (ID row, InDegree row)" using rows_Scan_outcome [OF scan] by simp
      with Cons.prems nxt scan found Inr
      have run: "run_state (scan_ready svc rows
          (if InDegree row = 0 then ready @ [ID row] else ready)) w2 = (r, w')"
        by simp
      from Cons.IH [OF run] w2 show ?thesis
        by (auto intro: unwritten_trans split: if_splits)
    qed
  qed
qed

lemma ready_rows:
  assumes "mset rs = mset (map f (filter P ts))"
    and "\<And>t. ID (f t) = ID t \<and> InDegree (f t) = InDegree t - 1"
  shows "mset (map ID (filter (\<lambda>t. InDegree t = 0) rs)) =
         mset (map ID (filter (\<lambda>t. P t \<and> InDegree t = 1) ts))"
proof -
  have "mset (map ID (filter (\<lambda>t. InDegree t = 0) rs)) =
        image_mset ID (filter_mset (\<lambda>t. InDegree t = 0) (mset (map f (filter P ts))))"
    using assms(1) by (metis mset_filter mset_map)
  also have "\<dots> = mset (map ID (filter (\<lambda>t. InDegree t = 0) (map f (filter P ts))))"
    by (simp only: mset_filter mset_map)
  also have "map ID (filter (\<lambda>t. InDegree t = 0) (map f (filter P ts))) =
        map ID (filter (\<lambda>t. P t \<and> InDegree t = 1) ts)"
    using assms(2) by (induction ts) auto
  finally show ?thesis .
qed

text \<open>Creating a workflow is atomic: both tables get their rows, or neither does.\<close>

lemma insert_execution_frame:
  assumes "run_state (insert_execution svc e ts) w = (r, w')"
  shows "redis_list w' = redis_list w \<and> inbox w' = inbox w"
proof -
  obtain r1 w1 where c1: "run_state (gorm_Create_execution svc e) w = (r1, w1)" by fastforce
  obtain r2 w2 where c2: "run_state (gorm_Create_tasks svc ts) w1 = (r2, w2)" by fastforce
  have 1: "redis_list w1 = redis_list w \<and> inbox w1 = inbox w"
    by (rule call_lawE [OF Create_execution_law c1]) (auto dest!: same_fields)
  have "redis_list w2 = redis_list w1 \<and> inbox w2 = inbox w1"
    by (rule call_lawE [OF Create_tasks_law c2]) (auto dest!: same_fields)
  with 1 assms c1 c2 show ?thesis
    by (auto simp: insert_execution_def split: sum.splits if_splits)
qed

lemma insert_execution_created:
  assumes "run_state (insert_execution svc e ts) w = (Inr (), w')"
  shows "execution_fresh e ts w \<and> execution_created e ts w w'"
proof -
  obtain r1 w1 where c1: "run_state (gorm_Create_execution svc e) w = (r1, w1)" by fastforce
  with assms obtain u where r1: "r1 = Inr u"
    by (auto simp: insert_execution_def split: sum.splits)
  have e: "we_ID e \<notin> we_ID ` set (exec_rows w)"
    "\<exists>now. exec_rows w1 = exec_rows w @ [stamp_execution now e]"
    "task_rows w1 = task_rows w \<and> redis_list w1 = redis_list w \<and> inbox w1 = inbox w"
    by (rule call_lawE [OF Create_execution_law c1]; use r1 in \<open>auto dest!: same_fields\<close>)+
  show ?thesis
  proof (cases "ts = []")
    case True
    with assms c1 r1 e show ?thesis
      by (auto simp: insert_execution_def execution_fresh_def execution_created_def)
  next
    case False
    obtain r2 w2 where c2: "run_state (gorm_Create_tasks svc ts) w1 = (r2, w2)" by fastforce
    with False assms c1 r1 have r2: "r2 = Inr ()" "w2 = w'"
      by (auto simp: insert_execution_def split: sum.splits)
    have "distinct (map ID ts)" "ID ` set ts \<inter> ID ` set (task_rows w1) = {}"
      "\<exists>now. task_rows w2 = task_rows w1 @ map (\<lambda>t. stamp_task now (task_column_defaults t)) ts"
      "exec_rows w2 = exec_rows w1 \<and> redis_list w2 = redis_list w1 \<and> inbox w2 = inbox w1"
      by (rule call_lawE [OF Create_tasks_law c2];
          use r2 in \<open>auto dest!: same_fields simp del: Int_iff disjoint_iff\<close>)+
    with e r2 show ?thesis
      by (simp add: execution_fresh_def execution_created_def)
  qed
qed

lemma CreateExecution_correct:
  assumes "run_state (taskRepository_CreateExecution svc e ts) w = (u, w')"
  shows "outcome u (\<lambda>_. execution_fresh e ts w \<and> execution_created e ts w w')
        (execution_fresh e ts w \<and> execution_created e ts w w') (unwritten w w')"
proof -
  obtain rb wb where body: "run_state (insert_execution svc e ts) w = (rb, wb)" by fastforce
  obtain r w1 where tr: "run_state (gorm_Transaction svc (insert_execution svc e ts)) w = (r, w1)"
    by fastforce
  have "u = (case r of Inl e \<Rightarrow> Inl e | Inr _ \<Rightarrow> Inr ())" and "\<exists>l. w' = w1\<lparr>mlog := l\<rparr>"
    using assms tr
    by (auto simp: taskRepository_CreateExecution_def split: sum.splits)
  moreover note Transaction_law [unfolded transaction_law_def, rule_format, OF tr body]
  moreover have "rolled_back w wb w1 \<Longrightarrow> unwritten w w1"
    using insert_execution_frame [OF body] by (auto simp: rolled_back_def unwritten_def dest!: same_fields)
  moreover have "rb = Inr () \<Longrightarrow> same wb w1 \<Longrightarrow> execution_fresh e ts w \<and> execution_created e ts w w1"
    using insert_execution_created [of e ts w wb] body
    by (auto simp: execution_created_def dest!: same_fields)
  ultimately show ?thesis
    by (auto split: sum.splits simp: same_unwritten)
qed

lemma FindTaskByID_correct:
  assumes "run_state (taskRepository_FindTaskByID svc tid) w = (r, w')"
  shows "unwritten w w' \<and> (case r of Inr t \<Rightarrow> t \<in> set (task_rows w) \<and> ID t = tid
        | Inl e \<Rightarrow> e = ErrRecordNotFound \<longrightarrow> tid \<notin> ID ` set (task_rows w))"
proof -
  obtain r1 w1 where call: "run_state (gorm_First_task svc (\<lambda>t. ID t = tid)) w = (r1, w1)"
    by fastforce
  note law = First_task_law [unfolded first_law_def, rule_format, OF call]
  from law have "unwritten w w1" by (simp add: same_unwritten)
  with law assms call show ?thesis
    by (auto simp: taskRepository_FindTaskByID_def filter_empty_conv split: sum.splits if_splits)
qed

text \<open>Claims and retries: a compare-and-swap on the version.\<close>

lemma versioned_update_correct:
  assumes call: "run_state (gorm_Updates_tasks svc [] (\<lambda>t. ID t = tid \<and> Version t = v) f) w = (r, w1)"
    and u: "u = (case r of Inl e \<Rightarrow> Inl e | Inr n \<Rightarrow> if n = 0 then Inl ErrRecordNotFound else Inr ())"
    and w': "w' = w1\<lparr>mlog := l\<rparr>"
  shows "outcome u (\<lambda>_. (\<exists>t \<in> set (task_rows w). ID t = tid \<and> Version t = v) \<and>
          tasks_written (\<lambda>t. ID t = tid \<and> Version t = v) f w w')
        (tasks_written (\<lambda>t. ID t = tid \<and> Version t = v) f w w') (unwritten w w') \<and>
      (u = Inl ErrRecordNotFound \<longrightarrow>
         (\<forall>t \<in> set (task_rows w). \<not> (ID t = tid \<and> Version t = v)) \<and> unwritten w w')"
proof (cases r)
  case (Inl e)
  with Updates_outcome [OF call] u w' show ?thesis by auto
next
  case (Inr n)
  with Updates_outcome [OF call] w'
  have n: "n = length (filter (\<lambda>t. ID t = tid \<and> Version t = v) (task_rows w))"
    and written: "tasks_written (\<lambda>t. ID t = tid \<and> Version t = v) f w w'" by auto
  show ?thesis
  proof (cases "n = 0")
    case True
    with n have none: "\<forall>t \<in> set (task_rows w). \<not> (ID t = tid \<and> Version t = v)"
      by (simp add: filter_empty_conv)
    with written have "unwritten w w'"
      by (auto simp: tasks_written_def unwritten_def update_where_none)
    with True none u Inr show ?thesis by simp
  next
    case False
    with n have "\<exists>t \<in> set (task_rows w). ID t = tid \<and> Version t = v"
      by (auto simp: filter_empty_conv)
    with False written u Inr show ?thesis by simp
  qed
qed

lemma ClaimTask_correct:
  assumes "run_state (taskRepository_ClaimTask svc tid worker v) w = (u, w')"
  shows "outcome u (\<lambda>_. (\<exists>t \<in> set (task_rows w). ID t = tid \<and> Version t = v) \<and>
          tasks_written (\<lambda>t. ID t = tid \<and> Version t = v) (claimed worker v) w w')
        (tasks_written (\<lambda>t. ID t = tid \<and> Version t = v) (claimed worker v) w w') (unwritten w w') \<and>
      (u = Inl ErrRecordNotFound \<longrightarrow>
         (\<forall>t \<in> set (task_rows w). \<not> (ID t = tid \<and> Version t = v)) \<and> unwritten w w')"
proof -
  obtain r w1 where call: "run_state (gorm_Updates_tasks svc []
      (\<lambda>t. ID t = tid \<and> Version t = v) (claimed worker v)) w = (r, w1)"
    by fastforce
  have "u = (case r of Inl e \<Rightarrow> Inl e | Inr n \<Rightarrow> if n = 0 then Inl ErrRecordNotFound else Inr ())"
    and "\<exists>l. w' = w1\<lparr>mlog := l\<rparr>"
    using assms call
    by (auto simp: taskRepository_ClaimTask_def claimed_def [abs_def] split: sum.splits if_splits)
  then show ?thesis using versioned_update_correct [OF call] by blast
qed

lemma IncrementRetryCount_correct:
  assumes "run_state (taskRepository_IncrementRetryCount svc tid v) w = (u, w')"
  shows "outcome u (\<lambda>_. (\<exists>t \<in> set (task_rows w). ID t = tid \<and> Version t = v) \<and>
          tasks_written (\<lambda>t. ID t = tid \<and> Version t = v) (retried v) w w')
        (tasks_written (\<lambda>t. ID t = tid \<and> Version t = v) (retried v) w w') (unwritten w w') \<and>
      (u = Inl ErrRecordNotFound \<longrightarrow>
         (\<forall>t \<in> set (task_rows w). \<not> (ID t = tid \<and> Version t = v)) \<and> unwritten w w')"
proof -
  obtain r w1 where call: "run_state (gorm_Updates_tasks svc []
      (\<lambda>t. ID t = tid \<and> Version t = v) (retried v)) w = (r, w1)"
    by fastforce
  have "u = (case r of Inl e \<Rightarrow> Inl e | Inr n \<Rightarrow> if n = 0 then Inl ErrRecordNotFound else Inr ())"
    and "\<exists>l. w' = w1\<lparr>mlog := l\<rparr>"
    using assms call
    by (auto simp: taskRepository_IncrementRetryCount_def retried_def [abs_def] split: sum.splits if_splits)
  then show ?thesis using versioned_update_correct [OF call] by blast
qed

text \<open>The final statuses.\<close>

lemma MarkCompleted_correct:
  assumes "run_state (taskRepository_MarkCompleted svc tid out) w = (u, w')"
  shows "outcome u (\<lambda>_. tasks_written (\<lambda>t. ID t = tid) (completed out) w w')
        (tasks_written (\<lambda>t. ID t = tid) (completed out) w w') (unwritten w w')"
proof -
  obtain r w1 where call: "run_state (gorm_Updates_tasks svc (jsonb_text out) (\<lambda>t. ID t = tid)
      (completed out)) w = (r, w1)"
    by fastforce
  with assms Updates_outcome [OF call] show ?thesis
    by (auto simp: taskRepository_MarkCompleted_def completed_def [abs_def] split: sum.splits)
qed

lemma MarkFailed_correct:
  assumes "run_state (taskRepository_MarkFailed svc tid msg) w = (u, w')"
  shows "outcome u (\<lambda>_. tasks_written (\<lambda>t. ID t = tid)
            (\<lambda>t. t\<lparr>Status := StatusFailed, LastError := msg, Output := error_output msg\<rparr>) w w')
        (tasks_written (\<lambda>t. ID t = tid)
            (\<lambda>t. t\<lparr>Status := StatusFailed, LastError := msg, Output := error_output msg\<rparr>) w w')
        (unwritten w w')"
proof -
  obtain r w1 where call: "run_state (gorm_Updates_tasks svc (jsonb_text (error_output msg))
      (\<lambda>t. ID t = tid)
      (\<lambda>t. t\<lparr>Status := StatusFailed, LastError := msg, Output := error_output msg\<rparr>)) w = (r, w1)"
    by fastforce
  with assms Updates_outcome [OF call] show ?thesis
    by (auto simp: taskRepository_MarkFailed_def split: sum.splits)
qed

lemma MarkSkipped_correct:
  assumes "run_state (taskRepository_MarkSkipped svc tid) w = (u, w')"
  shows "outcome u (\<lambda>_. tasks_written (\<lambda>t. ID t = tid)
            (\<lambda>t. t\<lparr>Status := StatusSkipped, Output := skipped_output\<rparr>) w w')
        (tasks_written (\<lambda>t. ID t = tid)
            (\<lambda>t. t\<lparr>Status := StatusSkipped, Output := skipped_output\<rparr>) w w')
        (unwritten w w')"
proof -
  obtain r w1 where call: "run_state (gorm_Updates_tasks svc (jsonb_text skipped_output)
      (\<lambda>t. ID t = tid) (\<lambda>t. t\<lparr>Status := StatusSkipped, Output := skipped_output\<rparr>)) w = (r, w1)"
    by fastforce
  with assms Updates_outcome [OF call] show ?thesis
    by (auto simp: taskRepository_MarkSkipped_def split: sum.splits)
qed

text \<open>The decrements: one shared argument about the statement and the loop over its rows.\<close>

lemma decrement_correct:
  assumes call: "run_state (gorm_Raw_update_tasks svc js P f) w = (r, w1)"
    and ids: "case r of Inl e \<Rightarrow> ids = Inl e \<and> (\<exists>l. w' = w1\<lparr>mlog := l\<rparr>)
        | Inr rows \<Rightarrow> \<exists>w2 l. run_state (scan_ready svc rows []) w1 = (ids, w2) \<and> w' = w2\<lparr>mlog := l\<rparr>"
    and f: "\<And>t. ID (f t) = ID t \<and> InDegree (f t) = InDegree t - 1"
  shows "(tasks_rewritten P f w w' \<or> ((\<exists>e. ids = Inl e) \<and> unwritten w w')) \<and>
      (\<forall>xs. ids = Inr xs \<longrightarrow>
         mset xs \<subseteq># mset (map ID (filter (\<lambda>t. P t \<and> InDegree t = 1) (task_rows w))))"
proof (cases r)
  case (Inl e)
  with Raw_update_outcome [OF call] ids show ?thesis by auto
next
  case (Inr rows)
  with Raw_update_outcome [OF call]
  have rows: "mset rows = mset (map f (filter P (task_rows w)))"
    and rewritten: "tasks_rewritten P f w w1" by auto
  from ids Inr obtain w2 l where scan: "run_state (scan_ready svc rows []) w1 = (ids, w2)"
    and w': "w' = w2\<lparr>mlog := l\<rparr>" by auto
  from scan_ready_outcome [OF scan] have "unwritten w1 w2"
    and "\<forall>xs. ids = Inr xs \<longrightarrow> mset xs \<subseteq># mset (map ID (filter (\<lambda>t. InDegree t = 0) rows))"
    by simp_all
  with rewritten ready_rows [OF rows f] w' show ?thesis
    by (auto simp: tasks_rewritten_def unwritten_def)
qed

lemma DecrementAndGetReadyTasks_correct:
  assumes "run_state (taskRepository_DecrementAndGetReadyTasks svc ex p) w = (ids, w')"
  shows "(tasks_rewritten (\<lambda>t. ExecutionID t = ex \<and> depends_on svc t p) decremented w w' \<or>
         ((\<exists>e. ids = Inl e) \<and> unwritten w w')) \<and>
      (\<forall>xs. ids = Inr xs \<longrightarrow> mset xs \<subseteq># mset (map ID
         (filter (\<lambda>t. (ExecutionID t = ex \<and> depends_on svc t p) \<and> InDegree t = 1) (task_rows w))))"
proof -
  obtain r w1 where call: "run_state (gorm_Raw_update_tasks svc [depParam p]
      (\<lambda>t. ExecutionID t = ex \<and> depends_on svc t p) decremented) w = (r, w1)"
    by fastforce
  show ?thesis
  proof (rule decrement_correct [OF call])
    show "case r of Inl e \<Rightarrow> ids = Inl e \<and> (\<exists>l. w' = w1\<lparr>mlog := l\<rparr>)
        | Inr rows \<Rightarrow> \<exists>w2 l. run_state (scan_ready svc rows []) w1 = (ids, w2) \<and> w' = w2\<lparr>mlog := l\<rparr>"
      using assms call
      by (auto simp: taskRepository_DecrementAndGetReadyTasks_def decremented_def [abs_def]
          split: sum.splits prod.splits)
  qed (simp add: decremented_def)
qed

lemma DecrementAndSetSkipHint_correct:
  assumes "run_state (taskRepository_DecrementAndSetSkipHint svc ex p) w = (ids, w')"
  shows "(tasks_rewritten (\<lambda>t. ExecutionID t = ex \<and> depends_on svc t p) tainted w w' \<or>
         ((\<exists>e. ids = Inl e) \<and> unwritten w w')) \<and>
      (\<forall>xs. ids = Inr xs \<longrightarrow> mset xs \<subseteq># mset (map ID
         (filter (\<lambda>t. (ExecutionID t = ex \<and> depends_on svc t p) \<and> InDegree t = 1) (task_rows w))))"
proof -
  have taint: "tainted = (\<lambda>t. t\<lparr>InDegree := InDegree t - 1, SkipHint := True,
      Status := (if InDegree t - 1 = 0 then StatusQueued else Status t)\<rparr>)"
    by (rule ext) (simp add: tainted_def decremented_def)
  obtain r w1 where call: "run_state (gorm_Raw_update_tasks svc [depParam p]
      (\<lambda>t. ExecutionID t = ex \<and> depends_on svc t p) tainted) w = (r, w1)"
    by fastforce
  show ?thesis
  proof (rule decrement_correct [OF call])
    show "case r of Inl e \<Rightarrow> ids = Inl e \<and> (\<exists>l. w' = w1\<lparr>mlog := l\<rparr>)
        | Inr rows \<Rightarrow> \<exists>w2 l. run_state (scan_ready svc rows []) w1 = (ids, w2) \<and> w' = w2\<lparr>mlog := l\<rparr>"
      using assms call unfolding taint
      by (auto simp: taskRepository_DecrementAndSetSkipHint_def split: sum.splits prod.splits)
  qed (simp add: tainted_def decremented_def)
qed

lemma AreAllTasksCompleted_correct:
  assumes "run_state (taskRepository_AreAllTasksCompleted svc ex) w = (b, w')"
  shows "unwritten w w' \<and> (\<forall>c. b = Inr c \<longrightarrow>
        (c \<longleftrightarrow> (\<forall>t \<in> set (task_rows w). ExecutionID t = ex \<longrightarrow> Status t = StatusCompleted)))"
proof -
  obtain r w1 where call: "run_state (gorm_Count_tasks svc
      (\<lambda>t. ExecutionID t = ex \<and> Status t \<noteq> StatusCompleted)) w = (r, w1)"
    by fastforce
  show ?thesis
    by (rule call_lawE [OF Count_tasks_law call])
       (use assms call in \<open>auto simp: taskRepository_AreAllTasksCompleted_def filter_empty_conv
          same_unwritten\<close>)
qed

end

sublocale lawful_services \<subseteq> repo: task_repository "NewTaskRepository svc" "depends_on svc"
proof (unfold_locales, goal_cases)
  case 6
  then show ?case
    by (simp add: NewTaskRepository_def) (rule exI, rule MarkFailed_correct)
next
  case 7
  then show ?case
    by (simp add: NewTaskRepository_def) (rule exI, rule MarkSkipped_correct)
next
  case 8
  then show ?case
    by (simp add: NewTaskRepository_def) (drule DecrementAndGetReadyTasks_correct, simp)
next
  case 9
  then show ?case
    by (simp add: NewTaskRepository_def) (drule DecrementAndSetSkipHint_correct, simp)
qed (simp_all add: NewTaskRepository_def CreateExecution_correct FindTaskByID_correct ClaimTask_correct
      IncrementRetryCount_correct MarkCompleted_correct
      AreAllTasksCompleted_correct repository_evolves)

end
