(* ===== verification/Redis_Queue.thy ===== *)
theory Redis_Queue
  imports Ports
begin

text \<open>
  \<open>internal/infrastructure/redis/queue.go\<close>: the task queue on a Redis list. \<open>Push\<close>
  appends to the list, \<open>Pop\<close> blocks until it can take the first element; a blocked call has
  no result, and the model describes the calls that return.
\<close>

definition RedisQueue_Push :: "'h services \<Rightarrow> string \<Rightarrow> string \<Rightarrow> ('h, unit) fallible" where
  "RedisQueue_Push svc queueName taskID = do {
     r \<leftarrow> redis_RPush svc queueName taskID;
     case r of
       Inl err \<Rightarrow> do {
         inc RedisQueuePushTotal [''error''];
         inc RedisConnectionErrorsTotal [''push''];
         return (Inl err)
       }
     | Inr _ \<Rightarrow> do { inc RedisQueuePushTotal [''success'']; return (Inr ()) }
   }"

definition RedisQueue_Pop :: "'h services \<Rightarrow> string \<Rightarrow> ('h, string) fallible" where
  "RedisQueue_Pop svc queueName =
     deferred (observe RedisQueuePopDuration []) (do {
       r \<leftarrow> redis_BLPop svc queueName;
       case r of
         Inl err \<Rightarrow> do { inc RedisConnectionErrorsTotal [''pop'']; return (Inl err) }
       | Inr (key, element) \<Rightarrow> return (Inr element)
     })"

definition NewRedisQueue :: "'h services \<Rightarrow> string \<Rightarrow> 'h TaskQueue" where
  "NewRedisQueue svc queueName =
     \<lparr>Push = RedisQueue_Push svc queueName, Pop = RedisQueue_Pop svc queueName\<rparr>"

lemma redis_queue_metrics_ok [simp]:
  "metric_op_ok (MInc RedisQueuePushTotal [x])"
  "metric_op_ok (MInc RedisConnectionErrorsTotal [x])"
  "metric_op_ok (MObserve RedisQueuePopDuration [])"
  by (simp_all add: metric_op_ok.simps RedisQueuePushTotal_def RedisConnectionErrorsTotal_def
      RedisQueuePopDuration_def)

context lawful_services
begin

lemma redis_queue_evolves:
  "state_io_rel evolves (RedisQueue_Push svc k x)"
  "state_io_rel evolves (RedisQueue_Pop svc k)"
  unfolding RedisQueue_Push_def RedisQueue_Pop_def
  by (intro evolve_intros services_evolve; simp)+

lemma queue_writtenI:
  "same (w\<lparr>redis_list := ls\<rparr>) w' \<Longrightarrow> queue_written ls w (w'\<lparr>mlog := l\<rparr>)"
  by (drule same_fields) (simp add: queue_written_def)

lemma Push_correct:
  assumes "run_state (RedisQueue_Push svc k x) w = (r, w')"
  shows "outcome r (\<lambda>_. queue_written ((redis_list w)(k := redis_list w k @ [x])) w w')
        (queue_written ((redis_list w)(k := redis_list w k @ [x])) w w') (unwritten w w')"
proof -
  obtain r1 w1 where call: "run_state (redis_RPush svc k x) w = (r1, w1)" by fastforce
  show ?thesis
    by (rule call_lawE [OF RPush_law call])
       (use assms call in \<open>auto simp: RedisQueue_Push_def queue_writtenI same_unwritten\<close>)
qed

lemma Pop_correct:
  assumes "run_state (RedisQueue_Pop svc k) w = (r, w')"
  shows "outcome r (\<lambda>x. \<exists>xs. redis_list w k = x # xs \<and> queue_written ((redis_list w)(k := xs)) w w')
        (\<exists>x xs. redis_list w k = x # xs \<and> queue_written ((redis_list w)(k := xs)) w w')
        (unwritten w w')"
proof -
  obtain r1 w1 where call: "run_state (redis_BLPop svc k) w = (r1, w1)" by fastforce
  show ?thesis
    by (rule call_lawE [OF BLPop_law call])
       (use assms call in \<open>auto simp: RedisQueue_Pop_def queue_writtenI same_unwritten\<close>)
qed

end

sublocale lawful_services \<subseteq> queue: task_queue "NewRedisQueue svc k" k for k
  by unfold_locales
     (simp_all add: NewRedisQueue_def Push_correct Pop_correct redis_queue_evolves)

end
