(* ===== verification/Workflow_Service.thy ===== *)
theory Workflow_Service
  imports Task_Repository Redis_Queue
begin

text \<open>
  \<open>internal/service/workflow_service.go\<close>: submitting a workflow. The service knows the task
  repository and the queue by their interfaces only, and is verified against their
  contracts.
\<close>

record 'h workflowService =
  ws_repo :: "'h TaskRepository"
  ws_queue :: "'h TaskQueue"

definition NewWorkflowService :: "'h TaskRepository \<Rightarrow> 'h TaskQueue \<Rightarrow> 'h workflowService" where
  "NewWorkflowService repo queue = \<lparr>ws_repo = repo, ws_queue = queue\<rparr>"

definition workflowService_persistWorkflow ::
  "'h workflowService \<Rightarrow> WorkflowExecution \<Rightarrow> Task list \<Rightarrow> ('h, unit) fallible" where
  "workflowService_persistWorkflow s execution tasks = CreateExecution (ws_repo s) execution tasks"

fun workflowService_enqueueRootTasks ::
  "'h services \<Rightarrow> 'h workflowService \<Rightarrow> Task list \<Rightarrow> ('h, unit) fallible" where
  "workflowService_enqueueRootTasks svc s [] = return (Inr ())"
| "workflowService_enqueueRootTasks svc s (task # rest) = do {
     r \<leftarrow> Push (ws_queue s) (uuid_String svc (ID task));
     case r of
       Inl err \<Rightarrow> return (Inl err)
     | Inr _ \<Rightarrow> workflowService_enqueueRootTasks svc s rest
   }"

fun workflowService_getRootTasks :: "Task list \<Rightarrow> Task list" where
  "workflowService_getRootTasks [] = []"
| "workflowService_getRootTasks (task # rest) =
     (if InDegree task = 0 then task # workflowService_getRootTasks rest
      else workflowService_getRootTasks rest)"

definition workflowService_SubmitWorkflow ::
  "'h services \<Rightarrow> 'h workflowService \<Rightarrow> WorkflowExecution \<Rightarrow> Task list \<Rightarrow> ('h, uuid) fallible" where
  "workflowService_SubmitWorkflow svc s execution tasks = do {
     r \<leftarrow> workflowService_persistWorkflow s execution tasks;
     case r of
       Inl err \<Rightarrow> return (Inl err)
     | Inr _ \<Rightarrow> do {
         r' \<leftarrow> workflowService_enqueueRootTasks svc s (workflowService_getRootTasks tasks);
         (case r' of Inl err \<Rightarrow> return (Inl err) | Inr _ \<Rightarrow> return (Inr (we_ID execution)))
       }
   }"

section \<open>What a submission writes\<close>

lemma getRootTasks_filter: "workflowService_getRootTasks ts = filter (\<lambda>t. InDegree t = 0) ts"
  by (induction ts) auto

text \<open>The identifiers the queue carries for a list of tasks.\<close>

definition task_tokens :: "'h services \<Rightarrow> Task list \<Rightarrow> string list" where
  "task_tokens svc ts = map (\<lambda>t. uuid_String svc (ID t)) ts"

text \<open>All rows of the workflow, and the first \<open>n\<close> root tasks at the end of the queue.\<close>

definition submitted ::
  "'h services \<Rightarrow> string \<Rightarrow> WorkflowExecution \<Rightarrow> Task list \<Rightarrow> nat \<Rightarrow> 'h world \<Rightarrow> 'h world \<Rightarrow> bool" where
  "submitted svc key e ts n w w' \<longleftrightarrow>
     (\<exists>now. exec_rows w' = exec_rows w @ [stamp_execution now e]) \<and>
     (\<exists>now. task_rows w' = task_rows w @ map (\<lambda>t. stamp_task now (task_column_defaults t)) ts) \<and>
     redis_list w' = (redis_list w)
       (key := redis_list w key @ task_tokens svc (take n (workflowService_getRootTasks ts))) \<and>
     inbox w' = inbox w"

lemma task_tokens_simps [simp]:
  "task_tokens svc [] = []" "task_tokens svc (t # ts) = uuid_String svc (ID t) # task_tokens svc ts"
  by (simp_all add: task_tokens_def)

lemma created_submitted: "execution_created e ts w w' \<Longrightarrow> submitted svc key e ts 0 w w'"
  by (simp add: submitted_def execution_created_def)

locale workflow_service_ports =
  task_repository repo depends_on + task_queue q key
  for repo :: "'h TaskRepository" and depends_on and q :: "'h TaskQueue" and key +
  fixes svc :: "'h services"
begin

abbreviation service :: "'h workflowService" where
  "service \<equiv> NewWorkflowService repo q"

lemma service_ports [simp]: "ws_repo service = repo" "ws_queue service = q"
  by (simp_all add: NewWorkflowService_def)

lemma enqueue_evolves:
  "state_io_rel evolves (workflowService_enqueueRootTasks svc service ts)"
  by (induction ts) (auto intro!: evolve_intros Push_evolves)

lemma submit_evolves:
  "state_io_rel evolves (workflowService_SubmitWorkflow svc service e ts)"
  unfolding workflowService_SubmitWorkflow_def workflowService_persistWorkflow_def
  by (auto intro!: evolve_intros task_repository_evolves enqueue_evolves)

lemma enqueue_outcome:
  assumes "run_state (workflowService_enqueueRootTasks svc service ts) w = (r, w')"
  shows "case r of
      Inr _ \<Rightarrow> queue_written ((redis_list w)(key := redis_list w key @ task_tokens svc ts)) w w'
    | Inl e \<Rightarrow> \<exists>n \<le> length ts.
        queue_written ((redis_list w)(key := redis_list w key @ task_tokens svc (take n ts))) w w'"
  using assms
proof (induction ts arbitrary: w)
  case Nil
  then show ?case by (auto simp: queue_written_def)
next
  case (Cons t ts)
  obtain r1 w1 where push: "run_state (Push q (uuid_String svc (ID t))) w = (r1, w1)" by fastforce
  show ?case
  proof (cases r1)
    case (Inl e)
    with Cons.prems push have r: "r = Inl e" "w' = w1" by auto
    from Push_outcome [OF push] Inl r show ?thesis
      by (auto simp: queue_written_def unwritten_def intro: exI [of _ 0] exI [of _ 1])
  next
    case (Inr u)
    with Cons.prems push have run: "run_state (workflowService_enqueueRootTasks svc service ts) w1 = (r, w')"
      by simp
    from Push_outcome [OF push] Inr
    have w1: "queue_written ((redis_list w)(key := redis_list w key @ [uuid_String svc (ID t)])) w w1"
      by simp
    show ?thesis
    proof (cases r)
      case (Inl e)
      with Cons.IH [OF run] obtain n where "n \<le> length ts"
        "queue_written ((redis_list w1)(key := redis_list w1 key @ task_tokens svc (take n ts))) w1 w'"
        by auto
      with w1 Inl show ?thesis by (auto simp: queue_written_def intro!: exI [of _ "Suc n"])
    next
      case (Inr v)
      with Cons.IH [OF run] w1 show ?thesis by (auto simp: queue_written_def)
    qed
  qed
qed

lemma submit_outcome:
  assumes "run_state (workflowService_SubmitWorkflow svc service e ts) w = (r, w')"
  shows "case r of
      Inr i \<Rightarrow> i = we_ID e \<and> execution_fresh e ts w \<and>
        submitted svc key e ts (length (workflowService_getRootTasks ts)) w w'
    | Inl err \<Rightarrow> unwritten w w' \<or> (\<exists>n \<le> length (workflowService_getRootTasks ts). submitted svc key e ts n w w')"
proof -
  let ?roots = "workflowService_getRootTasks ts"
  obtain r1 w1 where create: "run_state (CreateExecution repo e ts) w = (r1, w1)" by fastforce
  obtain r2 w2 where enq: "run_state (workflowService_enqueueRootTasks svc service ?roots) w1 = (r2, w2)"
    by fastforce
  note made = CreateExecution_outcome [OF create]
  show ?thesis
  proof (cases r1)
    case (Inl err)
    with assms create have "r = Inl err" "w' = w1"
      by (auto simp: workflowService_SubmitWorkflow_def workflowService_persistWorkflow_def)
    with made Inl show ?thesis
      by (auto intro: created_submitted)
  next
    case (Inr u)
    with assms create enq
    have r: "w' = w2" "r = (case r2 of Inl err \<Rightarrow> Inl err | Inr _ \<Rightarrow> Inr (we_ID e))"
      by (auto simp: workflowService_SubmitWorkflow_def workflowService_persistWorkflow_def
          split: sum.splits)
    from made Inr have c: "execution_fresh e ts w" "execution_created e ts w w1" by auto
    have step: "submitted svc key e ts n w w2"
      if "queue_written ((redis_list w1)(key := redis_list w1 key @ task_tokens svc (take n ?roots))) w1 w2" for n
      using c(2) that by (auto simp: submitted_def execution_created_def queue_written_def)
    from enqueue_outcome [OF enq] r c(1) step step [of "length ?roots"] show ?thesis
      by (cases r2) auto
  qed
qed

end

sublocale lawful_services \<subseteq> submission: workflow_service_ports "NewTaskRepository svc"
  "depends_on svc" "NewRedisQueue svc key" key svc for key
  by unfold_locales

end
