(* ===== verification/Workflow_Repository.thy ===== *)
theory Workflow_Repository
  imports Ports
begin

text \<open>
  \<open>internal/core/postgres/repository/workflow_repository_impl.go\<close>: the operations on the
  table of workflow executions, and the proof that they meet their contract.
\<close>

definition workflowRepository_Create :: "'h services \<Rightarrow> WorkflowExecution \<Rightarrow> ('h, unit) fallible" where
  "workflowRepository_Create svc execution =
     deferred (observe DBQueryDuration [''create_workflow'']) (do {
       r \<leftarrow> gorm_Create_execution svc execution;
       case r of
         Inl err \<Rightarrow> do { inc DBQueryErrorsTotal [''create_workflow'']; return (Inl err) }
       | Inr _ \<Rightarrow> return (Inr ())
     })"

definition workflowRepository_GetByID :: "'h services \<Rightarrow> uuid \<Rightarrow> ('h, WorkflowExecution) fallible" where
  "workflowRepository_GetByID svc executionID =
     deferred (observe DBQueryDuration [''get_workflow'']) (do {
       r \<leftarrow> gorm_First_execution svc (\<lambda>e. we_ID e = executionID);
       case r of
         Inl err \<Rightarrow> do {
           (if err \<noteq> ErrRecordNotFound then inc DBQueryErrorsTotal [''get_workflow''] else return ());
           return (Inl err)
         }
       | Inr execution \<Rightarrow> return (Inr execution)
     })"

definition workflowRepository_UpdateStatus ::
  "'h services \<Rightarrow> uuid \<Rightarrow> WorkflowStatus \<Rightarrow> ('h, unit) fallible" where
  "workflowRepository_UpdateStatus svc executionID status =
     deferred (observe DBQueryDuration [''update_workflow_status'']) (do {
       r \<leftarrow> gorm_Update_executions svc
         (\<lambda>e. we_ID e = executionID \<and> we_Status e \<noteq> status \<and> we_Status e \<noteq> WorkflowFailed)
         (\<lambda>e. e\<lparr>we_Status := status\<rparr>);
       case r of
         Inl err \<Rightarrow> do { inc DBQueryErrorsTotal [''update_workflow_status'']; return (Inl err) }
       | Inr _ \<Rightarrow> return (Inr ())
     })"

definition NewWorkflowRepository :: "'h services \<Rightarrow> 'h WorkflowRepository" where
  "NewWorkflowRepository svc =
     \<lparr>Create = workflowRepository_Create svc,
      GetByID = workflowRepository_GetByID svc,
      UpdateStatus = workflowRepository_UpdateStatus svc\<rparr>"

lemmas workflowRepository_defs =
  workflowRepository_Create_def workflowRepository_GetByID_def workflowRepository_UpdateStatus_def

lemma db_metric_calls_ok:
  "metric_op_ok (MObserve DBQueryDuration [x])" "metric_op_ok (MInc DBQueryErrorsTotal [x])"
  by (simp_all add: metric_op_ok.simps DBQueryDuration_def DBQueryErrorsTotal_def)

context lawful_services
begin

lemma workflowRepository_evolves:
  "state_io_rel evolves (workflowRepository_Create svc e)"
  "state_io_rel evolves (workflowRepository_GetByID svc ex)"
  "state_io_rel evolves (workflowRepository_UpdateStatus svc ex s)"
  unfolding workflowRepository_defs
  by (intro evolve_intros services_evolve; simp add: db_metric_calls_ok execution_evolves_def)+

lemma UpdateStatus_correct:
  assumes "run_state (workflowRepository_UpdateStatus svc ex s) w = (u, w')"
  shows "outcome u (\<lambda>_. execs_written (status_writable ex s) (\<lambda>e. e\<lparr>we_Status := s\<rparr>) w w')
        (execs_written (status_writable ex s) (\<lambda>e. e\<lparr>we_Status := s\<rparr>) w w') (unwritten w w')"
proof -
  obtain r w1 where call: "run_state (gorm_Update_executions svc (status_writable ex s)
      (\<lambda>e. e\<lparr>we_Status := s\<rparr>)) w = (r, w1)"
    by fastforce
  have written: "\<exists>ts. same (w\<lparr>exec_rows := update_where (status_writable ex s)
        (\<lambda>e. e\<lparr>we_Status := s, we_UpdatedAt := ts\<rparr>) (exec_rows w)\<rparr>) w1 \<Longrightarrow>
      execs_written (status_writable ex s) (\<lambda>e. e\<lparr>we_Status := s\<rparr>) w w1"
    by (auto simp: execs_written_def dest!: same_fields)
  have "w' = w1\<lparr>mlog := mlog w'\<rparr> \<and> u = (case r of Inl e \<Rightarrow> Inl e | Inr _ \<Rightarrow> Inr ())"
    using assms call
    by (auto simp: workflowRepository_UpdateStatus_def status_writable_def [abs_def] split: sum.splits)
  then obtain l where w': "w' = w1\<lparr>mlog := l\<rparr>"
    and u: "u = (case r of Inl e \<Rightarrow> Inl e | Inr _ \<Rightarrow> Inr ())" by blast
  show ?thesis
    by (rule call_lawE [OF Update_executions_law call])
       (auto simp: w' u written same_unwritten)
qed

lemma GetByID_correct:
  assumes "run_state (workflowRepository_GetByID svc ex) w = (r, w')"
  shows "unwritten w w' \<and> (case r of Inr e \<Rightarrow> e \<in> set (exec_rows w) \<and> we_ID e = ex
        | Inl err \<Rightarrow> err = ErrRecordNotFound \<longrightarrow> ex \<notin> we_ID ` set (exec_rows w))"
proof -
  obtain r1 w1 where call: "run_state (gorm_First_execution svc (\<lambda>e. we_ID e = ex)) w = (r1, w1)"
    by fastforce
  note law = First_execution_law [unfolded first_law_def, rule_format, OF call]
  from law have "unwritten w w1" by (simp add: same_unwritten)
  with law assms call show ?thesis
    by (auto simp: workflowRepository_GetByID_def filter_empty_conv split: sum.splits if_splits)
qed

end

sublocale lawful_services \<subseteq> wrepo: workflow_repository "NewWorkflowRepository svc"
  by unfold_locales
     (simp_all add: NewWorkflowRepository_def UpdateStatus_correct GetByID_correct
       workflowRepository_evolves)

end
