(* ===== verification/Event_Bus.thy ===== *)
theory Event_Bus
  imports Ports
begin

text \<open>
  \<open>internal/infrastructure/redis/event_bus.go\<close>: events travel as JSON texts on two Redis
  channels. The struct tags of \<open>internal/domain/events.go\<close> name the members. Decoding
  follows \<open>json.Unmarshal\<close>: members are matched to fields ignoring the case of ASCII
  letters, unknown members are skipped, null leaves a field alone, and a member of the wrong
  type or an identifier that does not parse is an error, after which the subscriber drops
  the message.
\<close>

section \<open>Encoding\<close>

definition completed_event_json :: "'h services \<Rightarrow> TaskCompletedEvent \<Rightarrow> json" where
  "completed_event_json svc ev =
     JObj [(''execution_id'', JStr (uuid_String svc (tc_ExecutionID ev))),
           (''task_id'', JStr (uuid_String svc (tc_TaskID ev))),
           (''ref_id'', JStr (tc_RefID ev))]"

definition terminated_event_json :: "'h services \<Rightarrow> TaskTerminatedEvent \<Rightarrow> json" where
  "terminated_event_json svc ev =
     JObj [(''execution_id'', JStr (uuid_String svc (tt_ExecutionID ev))),
           (''task_id'', JStr (uuid_String svc (tt_TaskID ev))),
           (''ref_id'', JStr (tt_RefID ev)),
           (''type'', JStr (tt_Type ev)),
           (''error'', JStr (tt_Error ev))]"

section \<open>Decoding\<close>

definition lower :: "char \<Rightarrow> char" where
  "lower c = (if 65 \<le> code c \<and> code c \<le> 90 then char_of (code c + 32) else c)"

definition field_name :: "string \<Rightarrow> string \<Rightarrow> bool" where
  "field_name name key \<longleftrightarrow> map lower key = name"

text \<open>
  Decoding a member into a string field or an identifier field that holds \<open>x\<close>; \<open>None\<close> is
  an error.
\<close>

fun string_field :: "json \<Rightarrow> string \<Rightarrow> string option" where
  "string_field (JStr s) x = Some s"
| "string_field JNull x = Some x"
| "string_field _ x = None"

definition uuid_field :: "'h services \<Rightarrow> json \<Rightarrow> uuid \<Rightarrow> uuid option" where
  "uuid_field svc v x =
     (case v of
        JStr s \<Rightarrow> (case uuid_Parse svc s of Inr u \<Rightarrow> Some u | Inl _ \<Rightarrow> None)
      | JNull \<Rightarrow> Some x
      | _ \<Rightarrow> None)"

fun decode_completed ::
  "'h services \<Rightarrow> (string \<times> json) list \<Rightarrow> TaskCompletedEvent \<Rightarrow> TaskCompletedEvent option" where
  "decode_completed svc [] ev = Some ev"
| "decode_completed svc ((k, v) # kvs) ev =
     (if field_name ''execution_id'' k
      then Option.bind (uuid_field svc v (tc_ExecutionID ev))
             (\<lambda>u. decode_completed svc kvs (ev\<lparr>tc_ExecutionID := u\<rparr>))
      else if field_name ''task_id'' k
      then Option.bind (uuid_field svc v (tc_TaskID ev))
             (\<lambda>u. decode_completed svc kvs (ev\<lparr>tc_TaskID := u\<rparr>))
      else if field_name ''ref_id'' k
      then Option.bind (string_field v (tc_RefID ev))
             (\<lambda>s. decode_completed svc kvs (ev\<lparr>tc_RefID := s\<rparr>))
      else decode_completed svc kvs ev)"

definition unmarshal_completed :: "'h services \<Rightarrow> string \<Rightarrow> TaskCompletedEvent option" where
  "unmarshal_completed svc payload =
     (let zero = \<lparr>tc_ExecutionID = uuid_Nil, tc_TaskID = uuid_Nil, tc_RefID = ''''\<rparr> in
      case json_parse payload of
        Some (JObj kvs) \<Rightarrow> decode_completed svc kvs zero
      | Some JNull \<Rightarrow> Some zero
      | _ \<Rightarrow> None)"

fun decode_terminated ::
  "'h services \<Rightarrow> (string \<times> json) list \<Rightarrow> TaskTerminatedEvent \<Rightarrow> TaskTerminatedEvent option" where
  "decode_terminated svc [] ev = Some ev"
| "decode_terminated svc ((k, v) # kvs) ev =
     (if field_name ''execution_id'' k
      then Option.bind (uuid_field svc v (tt_ExecutionID ev))
             (\<lambda>u. decode_terminated svc kvs (ev\<lparr>tt_ExecutionID := u\<rparr>))
      else if field_name ''task_id'' k
      then Option.bind (uuid_field svc v (tt_TaskID ev))
             (\<lambda>u. decode_terminated svc kvs (ev\<lparr>tt_TaskID := u\<rparr>))
      else if field_name ''ref_id'' k
      then Option.bind (string_field v (tt_RefID ev))
             (\<lambda>s. decode_terminated svc kvs (ev\<lparr>tt_RefID := s\<rparr>))
      else if field_name ''type'' k
      then Option.bind (string_field v (tt_Type ev))
             (\<lambda>s. decode_terminated svc kvs (ev\<lparr>tt_Type := s\<rparr>))
      else if field_name ''error'' k
      then Option.bind (string_field v (tt_Error ev))
             (\<lambda>s. decode_terminated svc kvs (ev\<lparr>tt_Error := s\<rparr>))
      else decode_terminated svc kvs ev)"

definition unmarshal_terminated :: "'h services \<Rightarrow> string \<Rightarrow> TaskTerminatedEvent option" where
  "unmarshal_terminated svc payload =
     (let zero = \<lparr>tt_ExecutionID = uuid_Nil, tt_TaskID = uuid_Nil, tt_RefID = [], tt_Type = [],
                 tt_Error = []\<rparr> in
      case json_parse payload of
        Some (JObj kvs) \<Rightarrow> decode_terminated svc kvs zero
      | Some JNull \<Rightarrow> Some zero
      | _ \<Rightarrow> None)"

section \<open>Operations\<close>

text \<open>\<open>json.Marshal\<close> does not fail on these structs, so its error branch has no run.\<close>

definition completed_channel :: string where
  "completed_channel = ''workflow:events:completed''"

definition terminated_channel :: string where
  "terminated_channel = ''workflow:events:terminated''"

definition RedisEventBus_PublishTaskCompleted ::
  "'h services \<Rightarrow> TaskCompletedEvent \<Rightarrow> ('h, unit) fallible" where
  "RedisEventBus_PublishTaskCompleted svc ev = do {
     r \<leftarrow> redis_Publish svc completed_channel (json_print (completed_event_json svc ev));
     case r of
       Inl err \<Rightarrow> do { inc RedisConnectionErrorsTotal [''publish'']; return (Inl err) }
     | Inr _ \<Rightarrow> do { inc RedisPubSubMessagesPublishedTotal [''completed'']; return (Inr ()) }
   }"

definition RedisEventBus_PublishTaskTerminated ::
  "'h services \<Rightarrow> TaskTerminatedEvent \<Rightarrow> ('h, unit) fallible" where
  "RedisEventBus_PublishTaskTerminated svc ev = do {
     r \<leftarrow> redis_Publish svc terminated_channel (json_print (terminated_event_json svc ev));
     case r of
       Inl err \<Rightarrow> do { inc RedisConnectionErrorsTotal [''publish'']; return (Inl err) }
     | Inr _ \<Rightarrow> do { inc RedisPubSubMessagesPublishedTotal [''terminated'']; return (Inr ()) }
   }"

text \<open>One round of the loop of the background goroutine: the event it forwards, if any.\<close>

definition RedisEventBus_SubscribeToEvents :: "'h services \<Rightarrow> ('h, TaskCompletedEvent option) io" where
  "RedisEventBus_SubscribeToEvents svc = do {
     r \<leftarrow> redis_ReceiveMessage svc completed_channel;
     case r of
       Inl err \<Rightarrow> do { inc RedisConnectionErrorsTotal [''subscribe'']; return None }
     | Inr payload \<Rightarrow>
         (case unmarshal_completed svc payload of
            None \<Rightarrow> return None
          | Some event \<Rightarrow> do {
              inc RedisPubSubMessagesReceivedTotal [''completed''];
              return (Some event)
            })
   }"

definition RedisEventBus_SubscribeToTerminationEvents ::
  "'h services \<Rightarrow> ('h, TaskTerminatedEvent option) io" where
  "RedisEventBus_SubscribeToTerminationEvents svc = do {
     r \<leftarrow> redis_ReceiveMessage svc terminated_channel;
     case r of
       Inl err \<Rightarrow> do { inc RedisConnectionErrorsTotal [''subscribe'']; return None }
     | Inr payload \<Rightarrow>
         (case unmarshal_terminated svc payload of
            None \<Rightarrow> return None
          | Some event \<Rightarrow> do {
              inc RedisPubSubMessagesReceivedTotal [''terminated''];
              return (Some event)
            })
   }"

definition NewRedisEventBus :: "'h services \<Rightarrow> 'h EventBus" where
  "NewRedisEventBus svc =
     \<lparr>PublishTaskCompleted = RedisEventBus_PublishTaskCompleted svc,
      PublishTaskTerminated = RedisEventBus_PublishTaskTerminated svc,
      SubscribeToEvents = RedisEventBus_SubscribeToEvents svc,
      SubscribeToTerminationEvents = RedisEventBus_SubscribeToTerminationEvents svc\<rparr>"

lemmas event_bus_defs =
  RedisEventBus_PublishTaskCompleted_def RedisEventBus_PublishTaskTerminated_def
  RedisEventBus_SubscribeToEvents_def RedisEventBus_SubscribeToTerminationEvents_def

lemma event_bus_metrics_ok [simp]:
  "metric_op_ok (MInc RedisPubSubMessagesPublishedTotal [x])"
  "metric_op_ok (MInc RedisPubSubMessagesReceivedTotal [x])"
  "metric_op_ok (MInc RedisConnectionErrorsTotal [x])"
  by (simp_all add: metric_op_ok.simps RedisPubSubMessagesPublishedTotal_def
      RedisPubSubMessagesReceivedTotal_def RedisConnectionErrorsTotal_def)

section \<open>What is published is what is received\<close>

lemma field_names [simp]:
  "field_name ''execution_id'' ''execution_id''" "field_name ''task_id'' ''task_id''"
  "field_name ''ref_id'' ''ref_id''" "field_name ''type'' ''type''" "field_name ''error'' ''error''"
  "\<not> field_name ''execution_id'' ''task_id''" "\<not> field_name ''execution_id'' ''ref_id''"
  "\<not> field_name ''task_id'' ''ref_id''" "\<not> field_name ''execution_id'' ''type''"
  "\<not> field_name ''task_id'' ''type''" "\<not> field_name ''ref_id'' ''type''"
  "\<not> field_name ''execution_id'' ''error''" "\<not> field_name ''task_id'' ''error''"
  "\<not> field_name ''ref_id'' ''error''" "\<not> field_name ''type'' ''error''"
  by (simp_all add: field_name_def lower_def code_def)

lemma event_json_parse [simp]:
  "json_parse (json_print (completed_event_json svc ev)) = Some (completed_event_json svc ev)"
  "json_parse (json_print (terminated_event_json svc ev')) = Some (terminated_event_json svc ev')"
  by (intro json_parse_print; simp add: completed_event_json_def terminated_event_json_def)+

context lawful_services
begin

lemma uuid_field_String [simp]: "uuid_field svc (JStr (uuid_String svc u)) x = Some u"
  by (simp add: uuid_field_def uuid_law)

lemma completed_roundtrip:
  "unmarshal_completed svc (json_print (completed_event_json svc ev)) = Some ev"
  unfolding unmarshal_completed_def event_json_parse
  by (simp add: completed_event_json_def Let_def)

lemma terminated_roundtrip:
  "unmarshal_terminated svc (json_print (terminated_event_json svc ev)) = Some ev"
  unfolding unmarshal_terminated_def event_json_parse
  by (simp add: terminated_event_json_def Let_def)

lemma event_bus_evolves:
  "state_io_rel evolves (RedisEventBus_PublishTaskCompleted svc ev)"
  "state_io_rel evolves (RedisEventBus_PublishTaskTerminated svc ev')"
  "state_io_rel evolves (RedisEventBus_SubscribeToEvents svc)"
  "state_io_rel evolves (RedisEventBus_SubscribeToTerminationEvents svc)"
  unfolding event_bus_defs
  by (intro evolve_intros services_evolve; simp)+

lemma Publish_outcome:
  assumes "run_state (redis_Publish svc c m) w = (r, w')" and "P m"
  shows "unwritten w w' \<or> inbox_appended c P w w'"
  by (rule call_lawE [OF Publish_law assms(1)])
     (use assms(2) in \<open>auto dest!: same_fields simp: inbox_appended_def unwritten_def\<close>)

lemma Receive_outcome:
  assumes "run_state (redis_ReceiveMessage svc c) w = (r, w')"
  shows "case r of Inr m \<Rightarrow> inbox_taken c (\<lambda>x. x = m) w w'
    | Inl e \<Rightarrow> unwritten w w' \<or> inbox_taken c (\<lambda>_. True) w w'"
  by (rule call_lawE [OF ReceiveMessage_law assms])
     (auto dest!: same_fields simp: inbox_taken_def unwritten_def)

lemma PublishTaskCompleted_correct:
  assumes "run_state (RedisEventBus_PublishTaskCompleted svc ev) w = (r, w')"
  shows "unwritten w w' \<or>
    inbox_appended completed_channel (\<lambda>m. unmarshal_completed svc m = Some ev) w w'"
proof -
  obtain r1 w1 where call: "run_state (redis_Publish svc completed_channel
      (json_print (completed_event_json svc ev))) w = (r1, w1)" by fastforce
  with assms Publish_outcome [where P = "\<lambda>m. unmarshal_completed svc m = Some ev", OF call]
  show ?thesis
    by (auto simp: RedisEventBus_PublishTaskCompleted_def completed_roundtrip split: sum.splits)
qed

lemma PublishTaskTerminated_correct:
  assumes "run_state (RedisEventBus_PublishTaskTerminated svc ev) w = (r, w')"
  shows "unwritten w w' \<or>
    inbox_appended terminated_channel (\<lambda>m. unmarshal_terminated svc m = Some ev) w w'"
proof -
  obtain r1 w1 where call: "run_state (redis_Publish svc terminated_channel
      (json_print (terminated_event_json svc ev))) w = (r1, w1)" by fastforce
  with assms Publish_outcome [where P = "\<lambda>m. unmarshal_terminated svc m = Some ev", OF call]
  show ?thesis
    by (auto simp: RedisEventBus_PublishTaskTerminated_def terminated_roundtrip split: sum.splits)
qed

lemma inbox_taken_mono: "inbox_taken c P w w' \<Longrightarrow> (\<And>m. P m \<Longrightarrow> Q m) \<Longrightarrow> inbox_taken c Q w w'"
  by (fastforce simp: inbox_taken_def)

lemma inbox_taken_any: "inbox_taken c P w w' \<Longrightarrow> inbox_taken c (\<lambda>_. True) w w'"
  by (erule inbox_taken_mono) simp

lemma SubscribeToEvents_correct:
  assumes "run_state (RedisEventBus_SubscribeToEvents svc) w = (x, w')"
  shows "case x of
      Some ev \<Rightarrow> inbox_taken completed_channel (\<lambda>m. unmarshal_completed svc m = Some ev) w w'
    | None \<Rightarrow> unwritten w w' \<or> inbox_taken completed_channel (\<lambda>_. True) w w'"
proof -
  obtain r1 w1 where call: "run_state (redis_ReceiveMessage svc completed_channel) w = (r1, w1)"
    by fastforce
  with assms Receive_outcome [OF call] show ?thesis
    by (auto simp: RedisEventBus_SubscribeToEvents_def
        split: sum.splits option.splits elim: inbox_taken_mono dest: inbox_taken_any)
qed

lemma SubscribeToTerminationEvents_correct:
  assumes "run_state (RedisEventBus_SubscribeToTerminationEvents svc) w = (x, w')"
  shows "case x of
      Some ev \<Rightarrow> inbox_taken terminated_channel (\<lambda>m. unmarshal_terminated svc m = Some ev) w w'
    | None \<Rightarrow> unwritten w w' \<or> inbox_taken terminated_channel (\<lambda>_. True) w w'"
proof -
  obtain r1 w1 where call: "run_state (redis_ReceiveMessage svc terminated_channel) w = (r1, w1)"
    by fastforce
  with assms Receive_outcome [OF call] show ?thesis
    by (auto simp: RedisEventBus_SubscribeToTerminationEvents_def
        split: sum.splits option.splits elim: inbox_taken_mono dest: inbox_taken_any)
qed

end

sublocale lawful_services \<subseteq> bus: event_bus "NewRedisEventBus svc" completed_channel
  terminated_channel "unmarshal_completed svc" "unmarshal_terminated svc"
proof
  show "completed_channel \<noteq> terminated_channel"
    by (simp add: completed_channel_def terminated_channel_def)
qed (simp_all add: NewRedisEventBus_def event_bus_evolves PublishTaskCompleted_correct
      PublishTaskTerminated_correct SubscribeToEvents_correct SubscribeToTerminationEvents_correct)

end
