(* ===== verification/Registry.thy ===== *)
theory Registry
  imports Json
begin

text \<open>
  \<open>internal/worker/registry.go\<close>: the actions a task can name. A handler sees its context
  and the input bytes, and returns output bytes or an error; printing and sleeping leave
  no trace in the model. The answers a handler gets when it polls \<open>ctx.Done()\<close> are a
  function of the number of the poll.
\<close>

record Context =
  ctx_Done :: "nat \<Rightarrow> bool"
  ctx_Err :: error

text \<open>\<open>context.Background()\<close>, the context of every goroutine of \<open>main\<close>: it is never done.\<close>

definition Background :: Context where
  "Background = \<lparr>ctx_Done = (\<lambda>_. False), ctx_Err = Err []\<rparr>"

type_synonym TaskHandler = "Context \<Rightarrow> string \<Rightarrow> error + string"

type_synonym TaskRegistry = "string \<rightharpoonup> TaskHandler"

definition create_employee_profile :: TaskHandler where
  \<open>create_employee_profile ctx input =
     Inr ''{"status": "success", "employee_id": "EMP-12345", "profile_created": true}''\<close>

definition setup_email_account :: TaskHandler where
  \<open>setup_email_account ctx input =
     Inr ''{"status": "success", "email": "john.doe@company.com", "mailbox_created": true}''\<close>

definition assign_equipment :: TaskHandler where
  \<open>assign_equipment ctx input =
     Inr ''{"status": "success", "laptop_id": "LT-789", "monitor_id": "MN-456", "assigned": true}''\<close>

definition enroll_benefits :: TaskHandler where
  \<open>enroll_benefits ctx input =
     Inr ''{"status": "success", "health_plan": "Premium PPO", "401k_enrolled": true}''\<close>

definition schedule_orientation :: TaskHandler where
  \<open>schedule_orientation ctx input =
     Inr ''{"status": "success", "orientation_date": "2026-03-01", "calendar_invite_sent": true}''\<close>

definition failing_task :: TaskHandler where
  "failing_task ctx input = Inl (Err ''simulated task failure'')"

text \<open>The loop of the long-running action, from round \<open>i\<close> on.\<close>

function timeout_loop :: "Context \<Rightarrow> nat \<Rightarrow> error + string" where
  \<open>timeout_loop ctx i =
     (if i < 100
      then (if ctx_Done ctx i then Inl (ctx_Err ctx) else timeout_loop ctx (Suc i))
      else Inr ''{"status": "success", "completed": true}'')\<close>
  by pat_completeness auto
termination
  by (relation "measure (\<lambda>(ctx, i). 100 - i)") auto

declare timeout_loop.simps [simp del]

definition timeout_task :: TaskHandler where
  "timeout_task ctx input = timeout_loop ctx 0"

definition InitRegistry :: TaskRegistry where
  "InitRegistry = Map.empty
     (''create_employee_profile'' \<mapsto> create_employee_profile,
      ''setup_email_account'' \<mapsto> setup_email_account,
      ''assign_equipment'' \<mapsto> assign_equipment,
      ''enroll_benefits'' \<mapsto> enroll_benefits,
      ''schedule_orientation'' \<mapsto> schedule_orientation,
      ''failing_task'' \<mapsto> failing_task,
      ''timeout_task'' \<mapsto> timeout_task)"

section \<open>What the handlers return\<close>

lemmas handler_defs = create_employee_profile_def setup_email_account_def assign_equipment_def
  enroll_benefits_def schedule_orientation_def failing_task_def timeout_task_def

lemma timeout_loop_cancelled:
  assumes "ctx_Done ctx k" and "i \<le> k" and "k < 100" and "\<And>j. i \<le> j \<Longrightarrow> j < k \<Longrightarrow> \<not> ctx_Done ctx j"
  shows "timeout_loop ctx i = Inl (ctx_Err ctx)"
  using assms
proof (induction "k - i" arbitrary: i)
  case 0
  then show ?case by (simp add: timeout_loop.simps)
next
  case (Suc n)
  then have "\<not> ctx_Done ctx i" "n = k - Suc i" "Suc i \<le> k" by auto
  with Suc have "timeout_loop ctx (Suc i) = Inl (ctx_Err ctx)" by simp
  with \<open>\<not> ctx_Done ctx i\<close> Suc show ?case by (simp add: timeout_loop.simps [of ctx i])
qed

lemma timeout_loop_finished:
  assumes "\<And>j. i \<le> j \<Longrightarrow> j < 100 \<Longrightarrow> \<not> ctx_Done ctx j"
  shows \<open>timeout_loop ctx i = Inr ''{"status": "success", "completed": true}''\<close>
  using assms
proof (induction "100 - i" arbitrary: i)
  case 0
  then show ?case by (simp add: timeout_loop.simps)
next
  case (Suc n)
  then have "timeout_loop ctx (Suc i) = Inr ''{\"status\": \"success\", \"completed\": true}''"
    by (intro Suc) auto
  with Suc show ?case by (simp add: timeout_loop.simps [of ctx i])
qed

lemma timeout_task_result:
  \<open>timeout_task ctx input =
     (if \<exists>k < 100. ctx_Done ctx k then Inl (ctx_Err ctx)
      else Inr ''{"status": "success", "completed": true}'')\<close>
proof (cases "\<exists>k < 100. ctx_Done ctx k")
  case True
  then obtain k where "k < 100 \<and> ctx_Done ctx k" "\<forall>j < k. \<not> (j < 100 \<and> ctx_Done ctx j)"
    using exists_least_iff [of "\<lambda>k. k < 100 \<and> ctx_Done ctx k"] by auto
  then have "ctx_Done ctx k" "k < 100" "\<forall>j < k. \<not> ctx_Done ctx j" by auto
  then show ?thesis using timeout_loop_cancelled [of ctx k 0] by (auto simp: timeout_task_def)
next
  case False
  then show ?thesis using timeout_loop_finished [of 0 ctx] by (auto simp: timeout_task_def)
qed

lemma dom_InitRegistry:
  "dom InitRegistry = {''create_employee_profile'', ''setup_email_account'', ''assign_equipment'',
     ''enroll_benefits'', ''schedule_orientation'', ''failing_task'', ''timeout_task''}"
  by (auto simp: InitRegistry_def)

text \<open>The outputs of the registered actions are JSON texts, so a \<open>jsonb\<close> column takes them.\<close>

lemmas parse_eval = json_parse_def is_ws_def decode_escape_def code_def parse_literal_def
  parse_chars.simps

lemma create_employee_profile_json:
  \<open>json_parse ''{"status": "success", "employee_id": "EMP-12345", "profile_created": true}'' \<noteq> None\<close>
  by (simp add: parse_eval)

lemma setup_email_account_json:
  \<open>json_parse ''{"status": "success", "email": "john.doe@company.com", "mailbox_created": true}'' \<noteq> None\<close>
  by (simp add: parse_eval)

lemma assign_equipment_json:
  \<open>json_parse ''{"status": "success", "laptop_id": "LT-789", "monitor_id": "MN-456", "assigned": true}'' \<noteq> None\<close>
  by (simp add: parse_eval)

lemma enroll_benefits_json:
  \<open>json_parse ''{"status": "success", "health_plan": "Premium PPO", "401k_enrolled": true}'' \<noteq> None\<close>
  by (simp add: parse_eval)

lemma schedule_orientation_json:
  \<open>json_parse ''{"status": "success", "orientation_date": "2026-03-01", "calendar_invite_sent": true}'' \<noteq> None\<close>
  by (simp add: parse_eval)

lemma timeout_task_json:
  \<open>json_parse ''{"status": "success", "completed": true}'' \<noteq> None\<close>
  by (simp add: parse_eval)

lemmas outputs_parse = create_employee_profile_json
  setup_email_account_json
  assign_equipment_json
  enroll_benefits_json
  schedule_orientation_json
  timeout_task_json

lemma handler_output_json:
  assumes "InitRegistry action = Some handler" and "handler ctx input = Inr out"
  shows "json_parse out \<noteq> None"
proof -
  from assms(1) have "handler \<in> {create_employee_profile, setup_email_account, assign_equipment,
      enroll_benefits, schedule_orientation, failing_task, timeout_task}"
    by (auto simp: InitRegistry_def split: if_splits)
  with assms(2) show ?thesis
    using outputs_parse by (auto simp: handler_defs(1-6) timeout_task_result split: if_splits)
qed

end
