(* ===== verification/Worker.thy ===== *)
theory Worker
  imports Task_Repository Workflow_Repository Redis_Queue Event_Bus Registry
begin

text \<open>
  \<open>internal/worker/worker.go\<close>: the life of one task in the hands of a worker. Log lines are
  left out. A method that changes \<open>task.Version\<close> through the pointer returns the changed
  task. The worker knows its queues, repositories and bus by their interfaces; section
  \<open>What a round writes\<close> proves, from the contracts of those interfaces alone, that a round
  does what the abstract relation \<open>task_round\<close> allows.
\<close>

section \<open>The worker\<close>

record 'h Worker =
  workerID :: string
  wk_queue :: "'h TaskQueue"
  retryQueue :: "'h TaskQueue"
  wk_repo :: "'h TaskRepository"
  wk_workflowRepo :: "'h WorkflowRepository"
  wk_eventBus :: "'h EventBus"
  registry :: TaskRegistry

text \<open>\<open>newID\<close> is the result of \<open>uuid.New()\<close>.\<close>

definition NewWorker ::
  "'h services \<Rightarrow> uuid \<Rightarrow> 'h TaskQueue \<Rightarrow> 'h TaskQueue \<Rightarrow> 'h TaskRepository \<Rightarrow> 'h WorkflowRepository \<Rightarrow>
     'h EventBus \<Rightarrow> TaskRegistry \<Rightarrow> 'h Worker" where
  "NewWorker svc newID q retryQ r wfRepo bus reg =
     \<lparr>workerID = uuid_String svc newID, wk_queue = q, retryQueue = retryQ, wk_repo = r,
      wk_workflowRepo = wfRepo, wk_eventBus = bus, registry = reg\<rparr>"

definition Worker_popAndFetchTask :: "'h services \<Rightarrow> 'h Worker \<Rightarrow> ('h, Task) fallible" where
  "Worker_popAndFetchTask svc wk = do {
     r \<leftarrow> Pop (wk_queue wk);
     case r of
       Inl err \<Rightarrow> return (Inl err)
     | Inr taskIDStr \<Rightarrow>
         (case uuid_Parse svc taskIDStr of
            Inl err \<Rightarrow> return (Inl err)
          | Inr taskID \<Rightarrow> do {
              r' \<leftarrow> FindTaskByID (wk_repo wk) taskID;
              (case r' of Inl err \<Rightarrow> return (Inl err) | Inr task \<Rightarrow> return (Inr task))
            })
   }"

definition Worker_handleSkippedTask :: "'h Worker \<Rightarrow> Task \<Rightarrow> ('h, unit) io" where
  "Worker_handleSkippedTask wk task = do {
     r \<leftarrow> MarkSkipped (wk_repo wk) (ID task);
     case r of
       Inl err \<Rightarrow> return ()
     | Inr _ \<Rightarrow> do {
         ignore (PublishTaskTerminated (wk_eventBus wk)
           (NewTaskTerminatedEvent (ExecutionID task) (ID task) (RefID task)
              TaskTerminationSkipped ''skipped due to parent task failure''));
         inc WorkerTasksProcessedTotal [Action task, ''skipped'']
       }
   }"

definition Worker_claimTask :: "'h Worker \<Rightarrow> Task \<Rightarrow> ('h, bool \<times> Task) io" where
  "Worker_claimTask wk task = do {
     r \<leftarrow> ClaimTask (wk_repo wk) (ID task) (workerID wk) (Version task);
     case r of
       Inl err \<Rightarrow> do { inc WorkerClaimFailuresTotal []; return (False, task) }
     | Inr _ \<Rightarrow> return (True, task\<lparr>Version := Version task + 1\<rparr>)
   }"

definition Worker_executeTaskAction :: "'h Worker \<Rightarrow> Context \<Rightarrow> Task \<Rightarrow> ('h, string) fallible" where
  "Worker_executeTaskAction wk ctx task =
     (case registry wk (Action task) of
        None \<Rightarrow> do {
          ignore (MarkFailed (wk_repo wk) (ID task) ''unknown action'');
          inc WorkerRegistryErrorsTotal [Action task];
          inc WorkerTasksProcessedTotal [Action task, ''failed''];
          ignore (PublishTaskTerminated (wk_eventBus wk)
            (NewTaskTerminatedEvent (ExecutionID task) (ID task) (RefID task)
               TaskTerminationFailed ''unknown action''));
          ignore (UpdateStatus (wk_workflowRepo wk) (ExecutionID task) WorkflowFailed);
          return (Inl (Err ''unknown action''))
        }
      | Some handler \<Rightarrow> do {
          let result = handler ctx (Input task);
          observe WorkerTaskDuration [Action task];
          return result
        })"

definition Worker_retryTask :: "'h services \<Rightarrow> 'h Worker \<Rightarrow> Task \<Rightarrow> ('h, unit) io" where
  "Worker_retryTask svc wk task = do {
     inc WorkerRetriesTotal [Action task, Itoa (RetryCount task + 1)];
     r \<leftarrow> IncrementRetryCount (wk_repo wk) (ID task) (Version task);
     case r of
       Inl err \<Rightarrow> return ()
     | Inr _ \<Rightarrow> ignore (Push (retryQueue wk) (uuid_String svc (ID task)))
   }"

definition Worker_markTaskFailedPermanently :: "'h Worker \<Rightarrow> Task \<Rightarrow> error \<Rightarrow> ('h, unit) io" where
  "Worker_markTaskFailedPermanently wk task execErr = do {
     ignore (MarkFailed (wk_repo wk) (ID task) (Error execErr));
     inc TaskRetryExhaustionTotal [Action task];
     inc WorkerTasksProcessedTotal [Action task, ''failed''];
     ignore (UpdateStatus (wk_workflowRepo wk) (ExecutionID task) WorkflowFailed);
     ignore (PublishTaskTerminated (wk_eventBus wk)
       (NewTaskTerminatedEvent (ExecutionID task) (ID task) (RefID task)
          TaskTerminationFailed (Error execErr)))
   }"

definition Worker_handleTaskFailure ::
  "'h services \<Rightarrow> 'h Worker \<Rightarrow> Task \<Rightarrow> error \<Rightarrow> ('h, unit) io" where
  "Worker_handleTaskFailure svc wk task execErr =
     (if CanRetry task (MaxRetries task) then Worker_retryTask svc wk task
      else Worker_markTaskFailedPermanently wk task execErr)"

definition Worker_handleTaskSuccess :: "'h Worker \<Rightarrow> Task \<Rightarrow> string \<Rightarrow> ('h, unit) io" where
  "Worker_handleTaskSuccess wk task output = do {
     ignore (MarkCompleted (wk_repo wk) (ID task) output);
     inc WorkerTasksProcessedTotal [Action task, ''success''];
     ignore (PublishTaskCompleted (wk_eventBus wk)
       \<lparr>tc_ExecutionID = ExecutionID task, tc_TaskID = ID task, tc_RefID = RefID task\<rparr>)
   }"

text \<open>\<open>ProcessNextTask\<close>, in two parts: from the fetched task on, and the whole.\<close>

definition Worker_processFetchedTask :: "'h services \<Rightarrow> 'h Worker \<Rightarrow> Context \<Rightarrow> Task \<Rightarrow> ('h, unit) io" where
  "Worker_processFetchedTask svc wk ctx task =
     (if SkipHint task then Worker_handleSkippedTask wk task
      else do {
        (claimed, task) \<leftarrow> Worker_claimTask wk task;
        if \<not> claimed then return ()
        else do {
          inc WorkerActiveTasks [workerID wk];
          deferred (dec WorkerActiveTasks [workerID wk]) (do {
            r \<leftarrow> Worker_executeTaskAction wk ctx task;
            (case r of
               Inl err \<Rightarrow> Worker_handleTaskFailure svc wk task err
             | Inr output \<Rightarrow> Worker_handleTaskSuccess wk task output)
          })
        }
      })"

definition Worker_ProcessNextTask :: "'h services \<Rightarrow> 'h Worker \<Rightarrow> Context \<Rightarrow> ('h, unit) io" where
  "Worker_ProcessNextTask svc wk ctx = do {
     r \<leftarrow> Worker_popAndFetchTask svc wk;
     case r of
       Inl err \<Rightarrow> return ()
     | Inr task \<Rightarrow> do {
         observe WorkerQueueWaitTime [];
         Worker_processFetchedTask svc wk ctx task
       }
   }"

text \<open>
  One goroutine of the pool: rounds until it sees the context done. \<open>done\<close> answers the
  polls of \<open>ctx.Done()\<close> of the loop in turn, \<open>ctxs\<close> are the contexts its handlers see;
  the number of rounds is bounded by the fuel, since nothing else ends the loop.
\<close>

fun Worker_poolLoop ::
  "'h services \<Rightarrow> 'h Worker \<Rightarrow> (nat \<Rightarrow> bool) \<Rightarrow> (nat \<Rightarrow> Context) \<Rightarrow> nat \<Rightarrow> nat \<Rightarrow> ('h, bool) io" where
  "Worker_poolLoop svc wk is_done ctxs i 0 = return False"
| "Worker_poolLoop svc wk is_done ctxs i (Suc fuel) =
     (if is_done i then return True
      else do {
        _ \<leftarrow> Worker_ProcessNextTask svc wk (ctxs i);
        Worker_poolLoop svc wk is_done ctxs (Suc i) fuel
      })"

lemmas worker_defs = Worker_popAndFetchTask_def Worker_handleSkippedTask_def Worker_claimTask_def
  Worker_executeTaskAction_def Worker_retryTask_def Worker_markTaskFailedPermanently_def
  Worker_handleTaskFailure_def Worker_handleTaskSuccess_def

lemma worker_metrics_ok [simp]:
  "metric_op_ok (MInc WorkerTasksProcessedTotal [x, y])"
  "metric_op_ok (MInc WorkerClaimFailuresTotal [])"
  "metric_op_ok (MInc WorkerRegistryErrorsTotal [x])"
  "metric_op_ok (MObserve WorkerTaskDuration [x])"
  "metric_op_ok (MInc WorkerRetriesTotal [x, y])"
  "metric_op_ok (MInc TaskRetryExhaustionTotal [x])"
  "metric_op_ok (MObserve WorkerQueueWaitTime [])"
  "metric_op_ok (MInc WorkerActiveTasks [x])"
  "metric_op_ok (MDec WorkerActiveTasks [x])"
  by (simp_all add: metric_op_ok.simps metric_defs)

section \<open>The abstract round\<close>

text \<open>A write that may not have taken effect.\<close>

definition maybe :: "('h world \<Rightarrow> 'h world \<Rightarrow> bool) \<Rightarrow> 'h world \<Rightarrow> 'h world \<Rightarrow> bool" where
  "maybe R w w' \<longleftrightarrow> R w w' \<or> unwritten w w'"

text \<open>The row of a task that failed or was skipped.\<close>

definition failed_row :: "string \<Rightarrow> string \<Rightarrow> Task \<Rightarrow> Task" where
  "failed_row msg out t = t\<lparr>Status := StatusFailed, LastError := msg, Output := out\<rparr>"

definition skipped_row :: "string \<Rightarrow> Task \<Rightarrow> Task" where
  "skipped_row out t = t\<lparr>Status := StatusSkipped, Output := out\<rparr>"

definition completed_event :: "Task \<Rightarrow> TaskCompletedEvent" where
  "completed_event t = \<lparr>tc_ExecutionID = ExecutionID t, tc_TaskID = ID t, tc_RefID = RefID t\<rparr>"

definition terminated_event :: "Task \<Rightarrow> TaskTerminationType \<Rightarrow> string \<Rightarrow> TaskTerminatedEvent" where
  "terminated_event t ty msg =
     \<lparr>tt_ExecutionID = ExecutionID t, tt_TaskID = ID t, tt_RefID = RefID t, tt_Type = ty, tt_Error = msg\<rparr>"

text \<open>
  The channels of the worker and the key of the queue it retries on, with the decoding of
  the messages.
\<close>

record wires =
  w_completed :: string
  w_terminated :: string
  w_retry_key :: string
  w_completed_of :: "string \<Rightarrow> TaskCompletedEvent option"
  w_terminated_of :: "string \<Rightarrow> TaskTerminatedEvent option"

definition sent_completed :: "wires \<Rightarrow> TaskCompletedEvent \<Rightarrow> 'h world \<Rightarrow> 'h world \<Rightarrow> bool" where
  "sent_completed ws ev = inbox_appended (w_completed ws) (\<lambda>m. w_completed_of ws m = Some ev)"

definition sent_terminated :: "wires \<Rightarrow> TaskTerminatedEvent \<Rightarrow> 'h world \<Rightarrow> 'h world \<Rightarrow> bool" where
  "sent_terminated ws ev = inbox_appended (w_terminated ws) (\<lambda>m. w_terminated_of ws m = Some ev)"

definition pushed :: "string \<Rightarrow> string \<Rightarrow> 'h world \<Rightarrow> 'h world \<Rightarrow> bool" where
  "pushed k x w w' \<longleftrightarrow> queue_written ((redis_list w)(k := redis_list w k @ [x])) w w'"

definition row_written :: "uuid \<Rightarrow> (Task \<Rightarrow> Task) \<Rightarrow> 'h world \<Rightarrow> 'h world \<Rightarrow> bool" where
  "row_written tid f = tasks_written (\<lambda>t. ID t = tid) f"

text \<open>A compare-and-swap that found its row.\<close>

definition row_swapped :: "uuid \<Rightarrow> int \<Rightarrow> (Task \<Rightarrow> Task) \<Rightarrow> 'h world \<Rightarrow> 'h world \<Rightarrow> bool" where
  "row_swapped tid v f w w' \<longleftrightarrow>
     tasks_written (\<lambda>t. ID t = tid \<and> Version t = v) f w w' \<and>
     (\<exists>t \<in> set (task_rows w). ID t = tid \<and> Version t = v)"

definition failed_execution :: "uuid \<Rightarrow> 'h world \<Rightarrow> 'h world \<Rightarrow> bool" where
  "failed_execution ex = execs_written (status_writable ex WorkflowFailed) (\<lambda>e. e\<lparr>we_Status := WorkflowFailed\<rparr>)"

definition skip_effect :: "wires \<Rightarrow> Task \<Rightarrow> 'h world \<Rightarrow> 'h world \<Rightarrow> bool" where
  "skip_effect ws t w w' \<longleftrightarrow>
     (\<exists>out. maybe (row_written (ID t) (skipped_row out)) w w' \<or>
        (row_written (ID t) (skipped_row out) OO
         maybe (sent_terminated ws (terminated_event t TaskTerminationSkipped
                  ''skipped due to parent task failure''))) w w')"

definition success_effect :: "wires \<Rightarrow> Task \<Rightarrow> string \<Rightarrow> 'h world \<Rightarrow> 'h world \<Rightarrow> bool" where
  "success_effect ws t out =
     maybe (row_written (ID t) (completed out)) OO maybe (sent_completed ws (completed_event t))"

definition retry_effect :: "'h services \<Rightarrow> wires \<Rightarrow> Task \<Rightarrow> 'h world \<Rightarrow> 'h world \<Rightarrow> bool" where
  "retry_effect svc ws t w w' \<longleftrightarrow>
     maybe (tasks_written (\<lambda>r. ID r = ID t \<and> Version r = Version t) (retried (Version t))) w w' \<or>
     (row_swapped (ID t) (Version t) (retried (Version t)) OO
      maybe (pushed (w_retry_key ws) (uuid_String svc (ID t)))) w w'"

definition failure_effect :: "wires \<Rightarrow> Task \<Rightarrow> string \<Rightarrow> 'h world \<Rightarrow> 'h world \<Rightarrow> bool" where
  "failure_effect ws t msg w w' \<longleftrightarrow>
     (\<exists>out. (maybe (row_written (ID t) (failed_row msg out)) OO
             maybe (failed_execution (ExecutionID t)) OO
             maybe (sent_terminated ws (terminated_event t TaskTerminationFailed msg))) w w')"

definition handle_failure_effect ::
  "'h services \<Rightarrow> wires \<Rightarrow> Task \<Rightarrow> string \<Rightarrow> 'h world \<Rightarrow> 'h world \<Rightarrow> bool" where
  "handle_failure_effect svc ws t msg =
     (if RetryCount t < MaxRetries t then retry_effect svc ws t else failure_effect ws t msg)"

text \<open>
  An unregistered action fails its task twice: the lookup marks the task failed, publishes
  and fails the execution, and then the failure handler retries the task all the same, or
  fails it again.
\<close>

definition unknown_effect :: "'h services \<Rightarrow> wires \<Rightarrow> Task \<Rightarrow> 'h world \<Rightarrow> 'h world \<Rightarrow> bool" where
  "unknown_effect svc ws t w w' \<longleftrightarrow>
     (\<exists>out. (maybe (row_written (ID t) (failed_row ''unknown action'' out)) OO
             maybe (sent_terminated ws (terminated_event t TaskTerminationFailed ''unknown action'')) OO
             maybe (failed_execution (ExecutionID t)) OO
             handle_failure_effect svc ws t ''unknown action'') w w')"

definition run_effect ::
  "'h services \<Rightarrow> wires \<Rightarrow> TaskRegistry \<Rightarrow> Context \<Rightarrow> Task \<Rightarrow> 'h world \<Rightarrow> 'h world \<Rightarrow> bool" where
  "run_effect svc ws reg ctx t =
     (case reg (Action t) of
        None \<Rightarrow> unknown_effect svc ws t
      | Some handler \<Rightarrow>
          (case handler ctx (Input t) of
             Inr out \<Rightarrow> success_effect ws t out
           | Inl err \<Rightarrow> handle_failure_effect svc ws t (Error err)))"

text \<open>What happens to a task once it is fetched.\<close>

definition task_effect ::
  "'h services \<Rightarrow> wires \<Rightarrow> string \<Rightarrow> TaskRegistry \<Rightarrow> Context \<Rightarrow> Task \<Rightarrow> 'h world \<Rightarrow> 'h world \<Rightarrow> bool" where
  "task_effect svc ws worker reg ctx t w w' \<longleftrightarrow>
     (if SkipHint t then skip_effect ws t w w'
      else maybe (tasks_written (\<lambda>r. ID r = ID t \<and> Version r = Version t) (claimed worker (Version t))) w w' \<or>
        (row_swapped (ID t) (Version t) (claimed worker (Version t)) OO
         run_effect svc ws reg ctx (t\<lparr>Version := Version t + 1\<rparr>)) w w')"

text \<open>
  A round: nothing, or one identifier taken from the queue and then lost (the pop reported an
  error, the identifier does not parse, the lookup failed), or the effect on its task.
\<close>

definition task_round ::
  "'h services \<Rightarrow> wires \<Rightarrow> string \<Rightarrow> string \<Rightarrow> TaskRegistry \<Rightarrow> Context \<Rightarrow> 'h world \<Rightarrow> 'h world \<Rightarrow> bool" where
  "task_round svc ws key worker reg ctx w w' \<longleftrightarrow>
     unwritten w w' \<or>
     (\<exists>x xs w1. redis_list w key = x # xs \<and> queue_written ((redis_list w)(key := xs)) w w1 \<and>
        (unwritten w1 w' \<or>
         (\<exists>t \<in> set (task_rows w). uuid_Parse svc x = Inr (ID t) \<and>
            task_effect svc ws worker reg ctx t w1 w')))"

section \<open>What a round writes\<close>

lemma maybeI: "R w w' \<Longrightarrow> maybe R w w'" "unwritten w w' \<Longrightarrow> maybe R w w'"
  by (simp_all add: maybe_def)

lemma maybe_log [simp]:
  "maybe (row_written tid f) w (v\<lparr>mlog := l\<rparr>) = maybe (row_written tid f) w v"
  "maybe (tasks_written P f) w (v\<lparr>mlog := l\<rparr>) = maybe (tasks_written P f) w v"
  "maybe (sent_completed ws ev) w (v\<lparr>mlog := l\<rparr>) = maybe (sent_completed ws ev) w v"
  "maybe (sent_terminated ws ev') w (v\<lparr>mlog := l\<rparr>) = maybe (sent_terminated ws ev') w v"
  "maybe (failed_execution ex) w (v\<lparr>mlog := l\<rparr>) = maybe (failed_execution ex) w v"
  "row_swapped tid i g w (v\<lparr>mlog := l\<rparr>) = row_swapped tid i g w v"
  "row_written tid f w (v\<lparr>mlog := l\<rparr>) = row_written tid f w v"
  "pushed k x w (v\<lparr>mlog := l\<rparr>) = pushed k x w v"
  by (simp_all add: maybe_def row_written_def sent_completed_def sent_terminated_def
      failed_execution_def row_swapped_def pushed_def queue_written_def)

text \<open>None of the relations looks at the log of the collectors in its last state.\<close>

definition log_free :: "('h world \<Rightarrow> 'h world \<Rightarrow> bool) \<Rightarrow> bool" where
  "log_free R \<longleftrightarrow> (\<forall>w v l. R w (v\<lparr>mlog := l\<rparr>) = R w v)"

lemma log_free_relcompp: "log_free S \<Longrightarrow> log_free (R OO S)"
  by (simp add: log_free_def relcompp.simps)

lemma log_free_effects:
  "log_free (skip_effect ws t)" "log_free (success_effect ws t out)"
  "log_free (retry_effect svc ws t)" "log_free (failure_effect ws t msg)"
  by (auto simp: log_free_def skip_effect_def success_effect_def retry_effect_def failure_effect_def
      relcompp.simps maybe_def row_written_def sent_completed_def sent_terminated_def pushed_def
      queue_written_def)

lemma log_free_task_effect: "log_free (task_effect svc ws worker reg ctx t)"
proof -
  have 1: "log_free (handle_failure_effect svc ws t msg)" for t msg
    by (simp add: handle_failure_effect_def log_free_effects)
  have 2: "log_free (unknown_effect svc ws t)" for t
    using 1 by (simp add: log_free_def unknown_effect_def relcompp.simps)
  have 3: "log_free (run_effect svc ws reg ctx t)" for t
    by (simp add: run_effect_def 1 2 log_free_effects split: option.split sum.split)
  show ?thesis
    using 3 by (simp add: log_free_def task_effect_def relcompp.simps log_free_effects(1) [unfolded log_free_def])
qed

lemma log_free_task_round: "log_free (task_round svc ws key worker reg ctx)"
  using log_free_task_effect [of svc ws worker reg ctx] by (simp add: log_free_def task_round_def)

locale worker_ports =
  task_repository repo depends_on + workflow_repository wrepo + popq: task_queue q key +
  retryq: task_queue rq rkey + event_bus bus cch tch cof tof
  for repo :: "'h TaskRepository" and depends_on and wrepo :: "'h WorkflowRepository"
    and q :: "'h TaskQueue" and key and rq :: "'h TaskQueue" and rkey
    and bus :: "'h EventBus" and cch tch cof tof +
  fixes svc :: "'h services" and name :: string and reg :: TaskRegistry
begin

definition wk :: "'h Worker" where
  "wk = \<lparr>workerID = name, wk_queue = q, retryQueue = rq, wk_repo = repo,
         wk_workflowRepo = wrepo, wk_eventBus = bus, registry = reg\<rparr>"

definition ws :: wires where
  "ws = \<lparr>w_completed = cch, w_terminated = tch, w_retry_key = rkey,
         w_completed_of = cof, w_terminated_of = tof\<rparr>"

lemma wk_simps [simp]:
  "workerID wk = name" "wk_queue wk = q" "retryQueue wk = rq" "wk_repo wk = repo"
  "wk_workflowRepo wk = wrepo" "wk_eventBus wk = bus" "registry wk = reg"
  by (simp_all add: wk_def)

lemma round_evolves: "state_io_rel evolves (Worker_ProcessNextTask svc wk ctx)"
  unfolding Worker_ProcessNextTask_def Worker_processFetchedTask_def worker_defs wk_simps Let_def
  by (intro evolve_intros popq.Pop_evolves retryq.Push_evolves task_repository_evolves
      workflow_repository_evolves bus_evolves; simp)+

text \<open>Each call as a write that may not have taken effect.\<close>

lemma MarkCompleted_maybe:
  "run_state (MarkCompleted repo tid out) w = (r, w') \<Longrightarrow> maybe (row_written tid (completed out)) w w'"
  by (drule MarkCompleted_outcome) (auto simp: outcome_def maybe_def row_written_def split: sum.splits)

lemma MarkFailed_maybe:
  "run_state (MarkFailed repo tid msg) w = (r, w') \<Longrightarrow> \<exists>out. maybe (row_written tid (failed_row msg out)) w w'"
  by (drule MarkFailed_outcome, cases r)
     (auto simp: maybe_def row_written_def failed_row_def [abs_def])

lemma UpdateStatus_maybe:
  "run_state (UpdateStatus wrepo ex WorkflowFailed) w = (r, w') \<Longrightarrow> maybe (failed_execution ex) w w'"
  by (drule UpdateStatus_outcome) (auto simp: outcome_def maybe_def failed_execution_def split: sum.splits)

lemma Publish_maybe:
  "run_state (PublishTaskCompleted bus ev) w = (r, w') \<Longrightarrow> maybe (sent_completed ws ev) w w'"
  "run_state (PublishTaskTerminated bus ev') w = (r, w') \<Longrightarrow> maybe (sent_terminated ws ev') w w'"
  by (auto simp: maybe_def sent_completed_def sent_terminated_def ws_def
      dest: PublishTaskCompleted_outcome PublishTaskTerminated_outcome)

lemma Push_maybe:
  "run_state (Push rq x) w = (r, w') \<Longrightarrow> maybe (pushed (w_retry_key ws) x) w w'"
  by (drule retryq.Push_outcome) (auto simp: outcome_def maybe_def pushed_def ws_def split: sum.splits)

lemma success_outcome:
  assumes "run_state (Worker_handleTaskSuccess wk t out) w = (u, w')"
  shows "success_effect ws t out w w'"
proof -
  obtain r1 w1 where mark: "run_state (MarkCompleted repo (ID t) out) w = (r1, w1)" by fastforce
  define w2 where "w2 = w1\<lparr>mlog := mlog w1 @ [MInc WorkerTasksProcessedTotal [Action t, ''success'']]\<rparr>"
  obtain r3 w3 where pub: "run_state (PublishTaskCompleted bus (completed_event t)) w2 = (r3, w3)"
    by fastforce
  have "w' = w3"
    using assms mark pub by (simp add: Worker_handleTaskSuccess_def w2_def completed_event_def)
  moreover have "maybe (row_written (ID t) (completed out)) w w2"
    using MarkCompleted_maybe [OF mark] by (simp add: w2_def)
  ultimately show ?thesis
    using Publish_maybe(1) [OF pub] by (auto simp: success_effect_def)
qed

lemma skip_outcome:
  assumes "run_state (Worker_handleSkippedTask wk t) w = (u, w')"
  shows "skip_effect ws t w w'"
proof -
  let ?ev = "terminated_event t TaskTerminationSkipped ''skipped due to parent task failure''"
  obtain r1 w1 where mark: "run_state (MarkSkipped repo (ID t)) w = (r1, w1)" by fastforce
  obtain r2 w2 where pub: "run_state (PublishTaskTerminated bus ?ev) w1 = (r2, w2)" by fastforce
  from MarkSkipped_outcome [OF mark] obtain out where
    out: "outcome r1 (\<lambda>_. row_written (ID t) (skipped_row out) w w1)
      (row_written (ID t) (skipped_row out) w w1) (unwritten w w1)"
    by (auto simp: row_written_def skipped_row_def [abs_def])
  show ?thesis
  proof (cases r1)
    case (Inl e)
    with assms mark have "w' = w1" by (simp add: Worker_handleSkippedTask_def)
    with out Inl show ?thesis by (auto simp: skip_effect_def maybe_def)
  next
    case (Inr a)
    with assms mark pub have "\<exists>l. w' = w2\<lparr>mlog := l\<rparr>"
      by (auto simp: Worker_handleSkippedTask_def terminated_event_def NewTaskTerminatedEvent_def)
    with out Inr Publish_maybe(2) [OF pub] show ?thesis
      by (auto simp: skip_effect_def intro!: exI [of _ out] relcomppI [of _ w w1])
  qed
qed

lemma failed_permanently_outcome:
  assumes "run_state (Worker_markTaskFailedPermanently wk t err) w = (u, w')"
  shows "failure_effect ws t (Error err) w w'"
proof -
  obtain r1 w1 where mark: "run_state (MarkFailed repo (ID t) (Error err)) w = (r1, w1)" by fastforce
  define w2 where "w2 = w1\<lparr>mlog := mlog w1 @ [MInc TaskRetryExhaustionTotal [Action t],
    MInc WorkerTasksProcessedTotal [Action t, ''failed'']]\<rparr>"
  obtain r3 w3 where upd: "run_state (UpdateStatus wrepo (ExecutionID t) WorkflowFailed) w2 = (r3, w3)"
    by fastforce
  obtain r4 w4 where pub: "run_state (PublishTaskTerminated bus
      (terminated_event t TaskTerminationFailed (Error err))) w3 = (r4, w4)"
    by fastforce
  have "w' = w4"
    using assms mark upd pub
    by (simp add: Worker_markTaskFailedPermanently_def w2_def terminated_event_def NewTaskTerminatedEvent_def)
  moreover obtain out where "maybe (row_written (ID t) (failed_row (Error err) out)) w w2"
    using MarkFailed_maybe [OF mark] by (auto simp: w2_def)
  ultimately show ?thesis
    using UpdateStatus_maybe [OF upd] Publish_maybe(2) [OF pub]
    by (auto simp: failure_effect_def)
qed

lemma retry_outcome:
  assumes "run_state (Worker_retryTask svc wk t) w = (u, w')"
  shows "retry_effect svc ws t w w'"
proof -
  define w1 where "w1 = w\<lparr>mlog := mlog w @ [MInc WorkerRetriesTotal [Action t, Itoa (RetryCount t + 1)]]\<rparr>"
  obtain r2 w2 where cas: "run_state (IncrementRetryCount repo (ID t) (Version t)) w1 = (r2, w2)"
    by fastforce
  obtain r3 w3 where push: "run_state (Push rq (uuid_String svc (ID t))) w2 = (r3, w3)" by fastforce
  note swap = IncrementRetryCount_outcome [OF cas, THEN conjunct1]
  have frame: "tasks_written P f w1 v = tasks_written P f w v" "unwritten w1 v = unwritten w v"
    "task_rows w1 = task_rows w" for P f and v :: "'h world"
    by (simp_all add: w1_def tasks_written_def unwritten_def)
  show ?thesis
  proof (cases r2)
    case (Inl e)
    with assms cas have "w' = w2" by (simp add: Worker_retryTask_def w1_def)
    with swap Inl frame show ?thesis by (auto simp: retry_effect_def maybe_def)
  next
    case (Inr a)
    with assms cas push have "w' = w3" by (simp add: Worker_retryTask_def w1_def)
    moreover have "row_swapped (ID t) (Version t) (retried (Version t)) w w2"
      using swap Inr frame by (auto simp: row_swapped_def)
    ultimately show ?thesis using Push_maybe [OF push] by (auto simp: retry_effect_def)
  qed
qed

lemma failure_outcome:
  assumes "run_state (Worker_handleTaskFailure svc wk t err) w = (u, w')"
  shows "handle_failure_effect svc ws t (Error err) w w'"
  using assms retry_outcome failed_permanently_outcome
  by (auto simp: Worker_handleTaskFailure_def handle_failure_effect_def CanRetry_def split: if_splits)

lemma execute_outcome:
  assumes "run_state (Worker_executeTaskAction wk ctx t) w = (r, w')"
  shows "case reg (Action t) of
      Some handler \<Rightarrow> r = handler ctx (Input t) \<and> unwritten w w'
    | None \<Rightarrow> r = Inl (Err ''unknown action'') \<and>
        (\<exists>out. (maybe (row_written (ID t) (failed_row ''unknown action'' out)) OO
          maybe (sent_terminated ws (terminated_event t TaskTerminationFailed ''unknown action'')) OO
          maybe (failed_execution (ExecutionID t))) w w')"
proof (cases "reg (Action t)")
  case None
  obtain r1 w1 where mark: "run_state (MarkFailed repo (ID t) ''unknown action'') w = (r1, w1)"
    by fastforce
  define w2 where "w2 = w1\<lparr>mlog := mlog w1 @ [MInc WorkerRegistryErrorsTotal [Action t],
    MInc WorkerTasksProcessedTotal [Action t, ''failed'']]\<rparr>"
  obtain r3 w3 where pub: "run_state (PublishTaskTerminated bus
      (terminated_event t TaskTerminationFailed ''unknown action'')) w2 = (r3, w3)"
    by fastforce
  obtain r4 w4 where upd: "run_state (UpdateStatus wrepo (ExecutionID t) WorkflowFailed) w3 = (r4, w4)"
    by fastforce
  have "w' = w4" "r = Inl (Err ''unknown action'')"
    using assms mark upd pub None
    by (simp_all add: Worker_executeTaskAction_def w2_def terminated_event_def NewTaskTerminatedEvent_def)
  moreover obtain out where "maybe (row_written (ID t) (failed_row ''unknown action'' out)) w w2"
    using MarkFailed_maybe [OF mark] by (auto simp: w2_def)
  ultimately show ?thesis
    using None UpdateStatus_maybe [OF upd] Publish_maybe(2) [OF pub] by auto
next
  case (Some handler)
  with assms show ?thesis by (auto simp: Worker_executeTaskAction_def)
qed

lemma run_outcome:
  assumes exec: "run_state (Worker_executeTaskAction wk ctx t) w = (r, w1)"
    and handle: "run_state (case r of Inl err \<Rightarrow> Worker_handleTaskFailure svc wk t err
        | Inr out \<Rightarrow> Worker_handleTaskSuccess wk t out) w1 = (u, w')"
  shows "run_effect svc ws reg ctx t w w'"
proof (cases "reg (Action t)")
  case None
  with execute_outcome [OF exec] have r: "r = Inl (Err ''unknown action'')" by simp
  with handle have "handle_failure_effect svc ws t ''unknown action'' w1 w'"
    using failure_outcome by fastforce
  with execute_outcome [OF exec] None show ?thesis
    by (auto simp: run_effect_def unknown_effect_def)
next
  case (Some handler)
  with execute_outcome [OF exec] have r: "r = handler ctx (Input t)" and "unwritten w w1" by auto
  then have frame: "tasks_written P f w1 v = tasks_written P f w v" "unwritten w1 v = unwritten w v"
    "task_rows w1 = task_rows w" for P f and v :: "'h world"
    by (auto simp: tasks_written_def unwritten_def)
  then have maybe_frame: "maybe (row_written i f) w1 v = maybe (row_written i f) w v"
    "maybe (tasks_written P f) w1 v = maybe (tasks_written P f) w v"
    "row_swapped i v' f w1 v = row_swapped i v' f w v" for i v' P f and v :: "'h world"
    by (simp_all add: maybe_def row_written_def row_swapped_def)
  show ?thesis
  proof (cases r)
    case (Inl err)
    with handle have "handle_failure_effect svc ws t (Error err) w1 w'" by (auto intro: failure_outcome)
    then have "handle_failure_effect svc ws t (Error err) w w'"
      by (simp add: handle_failure_effect_def retry_effect_def failure_effect_def relcompp.simps
          maybe_frame split: if_splits)
    with Some Inl r show ?thesis by (simp add: run_effect_def)
  next
    case (Inr out)
    with handle have "success_effect ws t out w1 w'" by (auto intro: success_outcome)
    then have "success_effect ws t out w w'"
      by (simp add: success_effect_def relcompp.simps maybe_frame)
    with Some Inr r show ?thesis by (simp add: run_effect_def)
  qed
qed

lemma fetch_outcome:
  assumes "run_state (Worker_popAndFetchTask svc wk) w = (r, w')"
  shows "unwritten w w' \<and> (\<exists>e. r = Inl e) \<or>
     (\<exists>x xs. redis_list w key = x # xs \<and> queue_written ((redis_list w)(key := xs)) w w' \<and>
        (\<forall>t. r = Inr t \<longrightarrow> t \<in> set (task_rows w) \<and> uuid_Parse svc x = Inr (ID t)))"
proof -
  obtain r1 w1 where pop: "run_state (Pop q) w = (r1, w1)" by fastforce
  note popped = popq.Pop_outcome [OF pop]
  show ?thesis
  proof (cases r1)
    case (Inl e)
    with assms pop popped show ?thesis by (auto simp: Worker_popAndFetchTask_def)
  next
    case (Inr x)
    with popped obtain xs where x: "redis_list w key = x # xs"
      and w1: "queue_written ((redis_list w)(key := xs)) w w1"
      by auto
    show ?thesis
    proof (cases "uuid_Parse svc x")
      case (Inl e)
      with assms pop Inr x w1 show ?thesis by (auto simp: Worker_popAndFetchTask_def)
    next
      case (Inr tid)
      obtain r2 w2 where find: "run_state (FindTaskByID repo tid) w1 = (r2, w2)" by fastforce
      from find assms pop \<open>r1 = Inr x\<close> Inr have r: "w' = w2" "r = r2"
        by (auto simp: Worker_popAndFetchTask_def split: sum.splits)
      from FindTaskByID_outcome [OF find] w1
      have "queue_written ((redis_list w)(key := xs)) w w2"
        and "\<forall>t. r2 = Inr t \<longrightarrow> t \<in> set (task_rows w) \<and> ID t = tid"
        by (auto simp: unwritten_def queue_written_def)
      with r x Inr show ?thesis by auto
    qed
  qed
qed

lemma task_outcome:
  assumes "run_state (Worker_processFetchedTask svc wk ctx t) w = (u, w')"
  shows "task_effect svc ws name reg ctx t w w'"
proof (cases "SkipHint t")
  case True
  with assms have "skip_effect ws t w w'" by (simp add: Worker_processFetchedTask_def skip_outcome)
  with True show ?thesis by (simp add: task_effect_def)
next
  case False
  obtain r1 w1 where claim: "run_state (ClaimTask repo (ID t) name (Version t)) w = (r1, w1)" by fastforce
  note cas = ClaimTask_outcome [OF claim, THEN conjunct1]
  show ?thesis
  proof (cases r1)
    case (Inl e)
    with assms False claim have "\<exists>l. w' = w1\<lparr>mlog := l\<rparr>" by (auto simp: Worker_processFetchedTask_def Worker_claimTask_def)
    with cas Inl False show ?thesis by (auto simp: task_effect_def maybe_def)
  next
    case (Inr a)
    let ?t = "t\<lparr>Version := Version t + 1\<rparr>"
    define w2 where "w2 = w1\<lparr>mlog := mlog w1 @ [MInc WorkerActiveTasks [name]]\<rparr>"
    obtain r3 w3 where exec: "run_state (Worker_executeTaskAction wk ctx ?t) w2 = (r3, w3)" by fastforce
    obtain w4 where handle: "run_state (case r3 of Inl err \<Rightarrow> Worker_handleTaskFailure svc wk ?t err
        | Inr out \<Rightarrow> Worker_handleTaskSuccess wk ?t out) w3 = ((), w4)"
      by (metis old.unit.exhaust surj_pair)
    have "w' = w4\<lparr>mlog := mlog w4 @ [MDec WorkerActiveTasks [name]]\<rparr>"
      using assms False claim Inr exec handle by (simp add: Worker_processFetchedTask_def Worker_claimTask_def w2_def)
    moreover have "row_swapped (ID t) (Version t) (claimed name (Version t)) w w2"
      using cas Inr by (simp add: row_swapped_def w2_def)
    ultimately have "task_effect svc ws name reg ctx t w w4" and "\<exists>l. w' = w4\<lparr>mlog := l\<rparr>"
      using run_outcome [OF exec handle] False by (auto simp: task_effect_def)
    then show ?thesis by (auto simp: log_free_task_effect [unfolded log_free_def])
  qed
qed

text \<open>The refinement: a run of the code is a step of the abstract round.\<close>

lemma round_outcome:
  assumes "run_state (Worker_ProcessNextTask svc wk ctx) w = (u, w')"
  shows "task_round svc ws key name reg ctx w w'"
proof -
  obtain r1 w1 where fetch: "run_state (Worker_popAndFetchTask svc wk) w = (r1, w1)" by fastforce
  note fetched = fetch_outcome [OF fetch]
  show ?thesis
  proof (cases r1)
    case (Inl e)
    with assms fetch have "w' = w1" by (simp add: Worker_ProcessNextTask_def)
    with fetched Inl show ?thesis
      unfolding task_round_def unwritten_log by (metis unwritten_refl)
  next
    case (Inr t)
    with fetched obtain x xs where x: "redis_list w key = x # xs"
      "queue_written ((redis_list w)(key := xs)) w w1" "t \<in> set (task_rows w)" "uuid_Parse svc x = Inr (ID t)"
      by auto
    define w2 where "w2 = w1\<lparr>mlog := mlog w1 @ [MObserve WorkerQueueWaitTime []]\<rparr>"
    have "task_effect svc ws name reg ctx t w2 w'"
      using assms fetch Inr by (intro task_outcome) (simp add: Worker_ProcessNextTask_def w2_def)
    moreover have "queue_written ((redis_list w)(key := xs)) w w2"
      using x(2) by (simp add: w2_def queue_written_def)
    ultimately show ?thesis using x unfolding task_round_def by blast
  qed
qed

end

sublocale lawful_services \<subseteq> pool: worker_ports "NewTaskRepository svc" "depends_on svc"
  "NewWorkflowRepository svc" "NewRedisQueue svc key" key "NewRedisQueue svc rkey" rkey
  "NewRedisEventBus svc" completed_channel terminated_channel "unmarshal_completed svc"
  "unmarshal_terminated svc" svc name reg for key rkey name reg
  by unfold_locales

text \<open>The channels and the retry queue of the Redis providers.\<close>

definition redis_wires :: "'h services \<Rightarrow> string \<Rightarrow> wires" where
  "redis_wires svc rkey =
     \<lparr>w_completed = completed_channel, w_terminated = terminated_channel, w_retry_key = rkey,
      w_completed_of = unmarshal_completed svc, w_terminated_of = unmarshal_terminated svc\<rparr>"

context lawful_services
begin

lemma pool_wires: "pool.ws rkey = redis_wires svc rkey"
  by (simp add: pool.ws_def redis_wires_def)

lemma pool_worker:
  "pool.wk key rkey (uuid_String svc i) reg =
     NewWorker svc i (NewRedisQueue svc key) (NewRedisQueue svc rkey) (NewTaskRepository svc)
       (NewWorkflowRepository svc) (NewRedisEventBus svc) reg"
  by (simp add: pool.wk_def NewWorker_def)

lemmas worker_round = pool.round_outcome [of _ _ "uuid_String svc i" for i, unfolded pool_worker pool_wires]

lemmas worker_evolves = pool.round_evolves [of _ _ "uuid_String svc i" for i, unfolded pool_worker]

end

end
