(* ===== verification/Coordinator.thy ===== *)
theory Coordinator
  imports Task_Repository Workflow_Repository Redis_Queue Event_Bus "HOL-Library.Sublist"
begin

text \<open>
  \<open>internal/coordinator/coordinator.go\<close>: Kahn's algorithm, driven by events. Log lines are
  left out. Section \<open>What an event writes\<close> proves from the contracts of its ports what the
  handling of one event does to the tables and the queue.
\<close>

record 'h Coordinator =
  co_taskRepo :: "'h TaskRepository"
  co_workflowRepo :: "'h WorkflowRepository"
  co_queue :: "'h TaskQueue"
  co_eventBus :: "'h EventBus"

definition NewCoordinator ::
  "'h TaskRepository \<Rightarrow> 'h WorkflowRepository \<Rightarrow> 'h TaskQueue \<Rightarrow> 'h EventBus \<Rightarrow> 'h Coordinator" where
  "NewCoordinator taskRepo workflowRepo queue bus =
     \<lparr>co_taskRepo = taskRepo, co_workflowRepo = workflowRepo, co_queue = queue, co_eventBus = bus\<rparr>"

definition Coordinator_checkIfWorkflowFinished :: "'h Coordinator \<Rightarrow> uuid \<Rightarrow> ('h, unit) io" where
  "Coordinator_checkIfWorkflowFinished c executionID = do {
     r \<leftarrow> AreAllTasksCompleted (co_taskRepo c) executionID;
     case r of
       Inl err \<Rightarrow> return ()
     | Inr allCompleted \<Rightarrow>
         if \<not> allCompleted then return ()
         else do {
           r' \<leftarrow> UpdateStatus (co_workflowRepo c) executionID WorkflowCompleted;
           (case r' of
              Inl err \<Rightarrow> return ()
            | Inr _ \<Rightarrow> inc CoordinatorWorkflowCompletionsTotal [''completed''])
         }
   }"

text \<open>The loop that queues the unblocked tasks; a failed push is logged only.\<close>

definition Coordinator_queueReady :: "'h services \<Rightarrow> 'h Coordinator \<Rightarrow> uuid list \<Rightarrow> ('h, unit) io" where
  "Coordinator_queueReady svc c readyTaskIDs =
     for_each readyTaskIDs (\<lambda>taskID. ignore (Push (co_queue c) (uuid_String svc taskID)))"

definition Coordinator_handleTaskCompleted ::
  "'h services \<Rightarrow> 'h Coordinator \<Rightarrow> TaskCompletedEvent \<Rightarrow> ('h, unit) io" where
  "Coordinator_handleTaskCompleted svc c event =
     deferred (observe CoordinatorDAGResolutionDuration []) (do {
       r \<leftarrow> DecrementAndGetReadyTasks (co_taskRepo c) (tc_ExecutionID event) (tc_RefID event);
       case r of
         Inl err \<Rightarrow> return ()
       | Inr readyTaskIDs \<Rightarrow> do {
           Coordinator_queueReady svc c readyTaskIDs;
           (if length readyTaskIDs > 0
            then for_each readyTaskIDs (\<lambda>_. inc CoordinatorTasksUnblockedTotal [])
            else return ());
           (if length readyTaskIDs = 0
            then Coordinator_checkIfWorkflowFinished c (tc_ExecutionID event)
            else return ())
         }
     })"

definition Coordinator_handleTaskTerminated ::
  "'h services \<Rightarrow> 'h Coordinator \<Rightarrow> TaskTerminatedEvent \<Rightarrow> ('h, unit) io" where
  "Coordinator_handleTaskTerminated svc c event =
     deferred (observe CoordinatorDAGResolutionDuration []) (do {
       r \<leftarrow> DecrementAndSetSkipHint (co_taskRepo c) (tt_ExecutionID event) (tt_RefID event);
       case r of
         Inl err \<Rightarrow> return ()
       | Inr readyTaskIDs \<Rightarrow> do {
           Coordinator_queueReady svc c readyTaskIDs;
           (if length readyTaskIDs > 0
            then for_each readyTaskIDs (\<lambda>_. do {
              inc CoordinatorSkipPropagationsTotal [];
              inc CoordinatorTasksUnblockedTotal []
            })
            else return ());
           (if tt_Type event = TaskTerminationFailed
            then inc CoordinatorWorkflowCompletionsTotal [''failed'']
            else return ())
         }
     })"

text \<open>
  One round of the loop of \<open>Start\<close>: the channel that \<open>select\<close> found ready, and the event
  the goroutine behind it forwards. A round of that goroutine that forwards nothing leaves
  the coordinator waiting.
\<close>

datatype ready_channel = EventReady | TerminationReady

definition Coordinator_Start_round :: "'h services \<Rightarrow> 'h Coordinator \<Rightarrow> ready_channel \<Rightarrow> ('h, unit) io" where
  "Coordinator_Start_round svc c ready =
     (case ready of
        EventReady \<Rightarrow> do {
          ev \<leftarrow> SubscribeToEvents (co_eventBus c);
          case ev of
            None \<Rightarrow> return ()
          | Some event \<Rightarrow> do {
              inc CoordinatorEventsProcessedTotal [''completed''];
              Coordinator_handleTaskCompleted svc c event
            }
        }
      | TerminationReady \<Rightarrow> do {
          ev \<leftarrow> SubscribeToTerminationEvents (co_eventBus c);
          case ev of
            None \<Rightarrow> return ()
          | Some event \<Rightarrow> do {
              inc CoordinatorEventsProcessedTotal [''terminated''];
              Coordinator_handleTaskTerminated svc c event
            }
        })"

lemmas coordinator_defs = Coordinator_checkIfWorkflowFinished_def Coordinator_queueReady_def
  Coordinator_handleTaskCompleted_def Coordinator_handleTaskTerminated_def

lemma coordinator_metrics_ok [simp]:
  "metric_op_ok (MInc CoordinatorWorkflowCompletionsTotal [x])"
  "metric_op_ok (MInc CoordinatorTasksUnblockedTotal [])"
  "metric_op_ok (MInc CoordinatorSkipPropagationsTotal [])"
  "metric_op_ok (MInc CoordinatorEventsProcessedTotal [x])"
  "metric_op_ok (MObserve CoordinatorDAGResolutionDuration [])"
  by (simp_all add: metric_op_ok.simps metric_defs)

section \<open>The abstract handling of an event\<close>

text \<open>The rows that wait for \<open>p\<close> in execution \<open>ex\<close>, and those of them that only wait for it.\<close>

definition children :: "(Task \<Rightarrow> string \<Rightarrow> bool) \<Rightarrow> uuid \<Rightarrow> string \<Rightarrow> Task \<Rightarrow> bool" where
  "children dep ex p t \<longleftrightarrow> ExecutionID t = ex \<and> dep t p"

definition unblocked :: "(Task \<Rightarrow> string \<Rightarrow> bool) \<Rightarrow> uuid \<Rightarrow> string \<Rightarrow> 'h world \<Rightarrow> uuid multiset" where
  "unblocked dep ex p w = mset (map ID (filter (\<lambda>t. children dep ex p t \<and> InDegree t = 1) (task_rows w)))"

text \<open>Some of the identifiers of a list, in order, appended to a queue.\<close>

definition queued_some :: "'h services \<Rightarrow> string \<Rightarrow> uuid list \<Rightarrow> 'h world \<Rightarrow> 'h world \<Rightarrow> bool" where
  "queued_some svc key ids w w' \<longleftrightarrow>
     (\<exists>ys. subseq ys (map (uuid_String svc) ids) \<and>
        queue_written ((redis_list w)(key := redis_list w key @ ys)) w w')"

text \<open>The execution becomes COMPLETED if all its tasks are, or nothing happens.\<close>

definition finish_effect :: "uuid \<Rightarrow> 'h world \<Rightarrow> 'h world \<Rightarrow> bool" where
  "finish_effect ex w w' \<longleftrightarrow> unwritten w w' \<or>
     ((\<forall>t \<in> set (task_rows w). ExecutionID t = ex \<longrightarrow> Status t = StatusCompleted) \<and>
      execs_written (status_writable ex WorkflowCompleted) (\<lambda>e. e\<lparr>we_Status := WorkflowCompleted\<rparr>) w w')"

definition resolve_effect ::
  "'h services \<Rightarrow> string \<Rightarrow> (Task \<Rightarrow> string \<Rightarrow> bool) \<Rightarrow> (Task \<Rightarrow> Task) \<Rightarrow> bool \<Rightarrow> uuid \<Rightarrow> string \<Rightarrow>
     'h world \<Rightarrow> 'h world \<Rightarrow> bool" where
  "resolve_effect svc key dep f finishes ex p w w' \<longleftrightarrow>
     unwritten w w' \<or> tasks_rewritten (children dep ex p) f w w' \<or>
     (\<exists>ids w1 w2. tasks_rewritten (children dep ex p) f w w1 \<and> mset ids \<subseteq># unblocked dep ex p w \<and>
        queued_some svc key ids w1 w2 \<and>
        (if ids = [] \<and> finishes then finish_effect ex w2 w' else unwritten w2 w'))"

section \<open>What an event writes\<close>

lemma run_for_each_inc [simp]:
  "run_state (for_each xs (\<lambda>_. inc m ls)) w =
     ((), w\<lparr>mlog := mlog w @ replicate (length xs) (MInc m ls)\<rparr>)"
  by (induction xs arbitrary: w) simp_all

lemma unwritten_for_each:
  assumes "\<And>x w. unwritten w (snd (run_state (f x) w))"
  shows "unwritten w (snd (run_state (for_each xs f) w))"
proof (induction xs arbitrary: w)
  case (Cons x xs)
  then show ?case
    using assms [of w x] by (auto split: prod.splits intro: unwritten_trans)
qed simp

lemma finish_effect_cong:
  "unwritten v w \<Longrightarrow> finish_effect ex w w' \<longleftrightarrow> finish_effect ex v w'"
  by (simp add: finish_effect_def unwritten_def execs_written_def)

lemma finish_effect_log [simp]: "finish_effect ex w (v\<lparr>mlog := l\<rparr>) = finish_effect ex w v"
  by (simp add: finish_effect_def)

locale coordinator_ports =
  task_repository repo depends_on + workflow_repository wrepo + task_queue q key +
  event_bus bus cch tch cof tof
  for repo :: "'h TaskRepository" and depends_on and wrepo :: "'h WorkflowRepository"
    and q :: "'h TaskQueue" and key and bus :: "'h EventBus" and cch tch cof tof +
  fixes svc :: "'h services"
begin

definition co :: "'h Coordinator" where
  "co = NewCoordinator repo wrepo q bus"

lemma co_simps [simp]:
  "co_taskRepo co = repo" "co_workflowRepo co = wrepo" "co_queue co = q" "co_eventBus co = bus"
  by (simp_all add: co_def NewCoordinator_def)

lemma handlers_evolve:
  "state_io_rel evolves (Coordinator_handleTaskCompleted svc co ev)"
  "state_io_rel evolves (Coordinator_handleTaskTerminated svc co ev')"
  unfolding coordinator_defs co_simps
  by (intro evolve_intros Push_evolves task_repository_evolves workflow_repository_evolves; simp)+

lemma Start_round_evolves: "state_io_rel evolves (Coordinator_Start_round svc co ready)"
  unfolding Coordinator_Start_round_def co_simps
  by (cases ready) (auto intro!: evolve_intros bus_evolves handlers_evolve)

lemma queueReady_outcome:
  assumes "run_state (Coordinator_queueReady svc co ids) w = (u, w')"
  shows "queued_some svc key ids w w'"
  using assms
proof (induction ids arbitrary: w)
  case Nil
  then show ?case
    by (auto simp: Coordinator_queueReady_def queued_some_def queue_written_def)
next
  case (Cons i ids)
  obtain r1 w1 where push: "run_state (Push q (uuid_String svc i)) w = (r1, w1)" by fastforce
  have "run_state (Coordinator_queueReady svc co ids) w1 = (u, w')"
    using Cons.prems push by (simp add: Coordinator_queueReady_def)
  from Cons.IH [OF this] obtain ys where ys: "subseq ys (map (uuid_String svc) ids)"
    "queue_written ((redis_list w1)(key := redis_list w1 key @ ys)) w1 w'"
    by (auto simp: queued_some_def)
  have "queue_written ((redis_list w)(key := redis_list w key @ [uuid_String svc i])) w w1 \<or> unwritten w w1"
    using Push_outcome [OF push] by (cases r1) auto
  then show ?case
  proof
    assume "unwritten w w1"
    with ys have "queue_written ((redis_list w)(key := redis_list w key @ ys)) w w'"
      by (simp add: unwritten_def queue_written_def)
    with ys(1) show ?thesis by (auto simp: queued_some_def)
  next
    assume "queue_written ((redis_list w)(key := redis_list w key @ [uuid_String svc i])) w w1"
    with ys have "queue_written ((redis_list w)(key := redis_list w key @ uuid_String svc i # ys)) w w'"
      by (simp add: queue_written_def)
    with ys(1) show ?thesis
      unfolding queued_some_def
      by (intro exI [of _ "uuid_String svc i # ys"] conjI) simp_all
  qed
qed

lemma finished_outcome:
  assumes "run_state (Coordinator_checkIfWorkflowFinished co ex) w = (u, w')"
  shows "finish_effect ex w w'"
proof -
  obtain r1 w1 where ask: "run_state (AreAllTasksCompleted repo ex) w = (r1, w1)" by fastforce
  obtain r2 w2 where upd: "run_state (UpdateStatus wrepo ex WorkflowCompleted) w1 = (r2, w2)" by fastforce
  note asked = AreAllTasksCompleted_outcome [OF ask]
  show ?thesis
  proof (cases "r1 = Inr True")
    case False
    with assms ask have "w' = w1"
      by (auto simp: Coordinator_checkIfWorkflowFinished_def split: sum.splits if_splits)
    with asked show ?thesis by (simp add: finish_effect_def)
  next
    case True
    with assms ask upd have "\<exists>l. w' = w2\<lparr>mlog := l\<rparr>"
      by (auto simp: Coordinator_checkIfWorkflowFinished_def split: sum.splits intro: exI [of _ "mlog w2"])
    moreover have "finish_effect ex w1 w2"
      using UpdateStatus_outcome [OF upd] asked True
      by (cases r2) (auto simp: finish_effect_def unwritten_def)
    ultimately show ?thesis
      using asked finish_effect_cong [of w w1 ex w2] by auto
  qed
qed

lemma completed_outcome:
  assumes "run_state (Coordinator_handleTaskCompleted svc co ev) w = (u, w')"
  shows "resolve_effect svc key depends_on decremented True (tc_ExecutionID ev) (tc_RefID ev) w w'"
proof -
  let ?ex = "tc_ExecutionID ev" and ?p = "tc_RefID ev"
  obtain r1 w1 where decr: "run_state (DecrementAndGetReadyTasks repo ?ex ?p) w = (r1, w1)" by fastforce
  note out = DecrementAndGetReadyTasks_outcome [OF decr, folded children_def]
  show ?thesis
  proof (cases r1)
    case (Inl e)
    with assms decr have "\<exists>l. w' = w1\<lparr>mlog := l\<rparr>" by (auto simp: Coordinator_handleTaskCompleted_def)
    with out show ?thesis by (auto simp: resolve_effect_def)
  next
    case (Inr ids)
    obtain w2 where queue: "run_state (Coordinator_queueReady svc co ids) w1 = ((), w2)"
      by (metis old.unit.exhaust surj_pair)
    obtain w3 where check: "run_state (Coordinator_checkIfWorkflowFinished co ?ex) w2 = ((), w3)"
      by (metis old.unit.exhaust surj_pair)
    have "\<exists>l. w' = (if ids = [] then w3 else w2)\<lparr>mlog := l\<rparr>"
      using assms decr Inr queue check by (auto simp: Coordinator_handleTaskCompleted_def)
    moreover have "tasks_rewritten (children depends_on ?ex ?p) decremented w w1"
      using out Inr by simp
    moreover have "mset ids \<subseteq># unblocked depends_on ?ex ?p w"
      using out Inr by (simp add: unblocked_def children_def conj_assoc)
    ultimately show ?thesis
      using queueReady_outcome [OF queue] finished_outcome [OF check]
      unfolding resolve_effect_def by (intro disjI2 exI [of _ ids] exI [of _ w1] exI [of _ w2]) auto
  qed
qed

lemma terminated_outcome:
  assumes "run_state (Coordinator_handleTaskTerminated svc co ev) w = (u, w')"
  shows "resolve_effect svc key depends_on tainted False (tt_ExecutionID ev) (tt_RefID ev) w w'"
proof -
  let ?ex = "tt_ExecutionID ev" and ?p = "tt_RefID ev"
  obtain r1 w1 where decr: "run_state (DecrementAndSetSkipHint repo ?ex ?p) w = (r1, w1)" by fastforce
  note out = DecrementAndSetSkipHint_outcome [OF decr, folded children_def]
  show ?thesis
  proof (cases r1)
    case (Inl e)
    with assms decr have "\<exists>l. w' = w1\<lparr>mlog := l\<rparr>" by (auto simp: Coordinator_handleTaskTerminated_def)
    with out show ?thesis by (auto simp: resolve_effect_def)
  next
    case (Inr ids)
    let ?count = "for_each ids (\<lambda>_. do {inc CoordinatorSkipPropagationsTotal []; inc CoordinatorTasksUnblockedTotal []})"
    obtain w2 where queue: "run_state (Coordinator_queueReady svc co ids) w1 = ((), w2)"
      by (metis old.unit.exhaust surj_pair)
    obtain w3 where log: "run_state ?count w2 = ((), w3)" by (metis old.unit.exhaust surj_pair)
    have "unwritten w2 (snd (run_state ?count w2))"
      by (rule unwritten_for_each) simp
    with log have "unwritten w2 w3" by simp
    moreover have "ids = [] \<longrightarrow> w3 = w2" using log by auto
    then have "\<exists>l. w' = w3\<lparr>mlog := l\<rparr>"
      using assms decr Inr queue log by (auto simp: Coordinator_handleTaskTerminated_def split: if_splits)
    moreover have "tasks_rewritten (children depends_on ?ex ?p) tainted w w1"
      using out Inr by simp
    moreover have "mset ids \<subseteq># unblocked depends_on ?ex ?p w"
      using out Inr by (simp add: unblocked_def children_def conj_assoc)
    ultimately show ?thesis
      using queueReady_outcome [OF queue]
      unfolding resolve_effect_def by (intro disjI2 exI [of _ ids] exI [of _ w1] exI [of _ w2]) auto
  qed
qed

end

sublocale lawful_services \<subseteq> coord: coordinator_ports "NewTaskRepository svc" "depends_on svc"
  "NewWorkflowRepository svc" "NewRedisQueue svc key" key
  "NewRedisEventBus svc" completed_channel terminated_channel "unmarshal_completed svc"
  "unmarshal_terminated svc" svc for key
  by unfold_locales

context lawful_services
begin

lemma coord_coordinator:
  "coord.co key = NewCoordinator (NewTaskRepository svc) (NewWorkflowRepository svc)
     (NewRedisQueue svc key) (NewRedisEventBus svc)"
  by (simp add: coord.co_def)

lemmas coordinator_completed = coord.completed_outcome [unfolded coord_coordinator]
lemmas coordinator_terminated = coord.terminated_outcome [unfolded coord_coordinator]
lemmas coordinator_evolves = coord.Start_round_evolves [unfolded coord_coordinator]

end

end
