(* ===== verification/Server.thy ===== *)
theory Server
  imports Dto_Mapper Workflow_Service Worker Coordinator
begin

text \<open>
  The HTTP side and the assembly of the program: \<open>internal/api/handler/handler.go\<close>,
  \<open>internal/api/middleware/prometheus.go\<close>, the background collectors of
  \<open>internal/metrics/collector.go\<close>, and \<open>cmd/server/main.go\<close>. Of gin, \<open>decoded\<close> is the body as
  \<open>encoding/json\<close> decodes it and \<open>complaint\<close> the message of the validator, which are arguments; the
  binding tags are those of the request. A handler returns the status and body it hands to \<open>c.JSON\<close>.
\<close>

section \<open>Requests and responses\<close>

record http_request =
  Method :: string
  FullPath :: string
  URL_Path :: string
  ContentLength :: int

record http_response =
  http_status :: int
  http_body :: json

definition StatusOK :: int where "StatusOK = 200"
definition StatusCreated :: int where "StatusCreated = 201"
definition StatusInternalServerError :: int where "StatusInternalServerError = 500"
definition StatusServiceUnavailable :: int where "StatusServiceUnavailable = 503"

definition respond :: "int \<Rightarrow> json \<Rightarrow> ('h, http_response) io" where
  "respond st b = return \<lparr>http_status = st, http_body = b\<rparr>"

section \<open>The workflow handler\<close>

record 'h WorkflowHandler =
  wh_service :: "'h workflowService"

definition NewWorkflowHandler :: "'h workflowService \<Rightarrow> 'h WorkflowHandler" where
  "NewWorkflowHandler s = \<lparr>wh_service = s\<rparr>"

definition error_body :: "error \<Rightarrow> json" where
  "error_body err = JObj [(''error'', JStr (Error err))]"

definition response_json :: "'h services \<Rightarrow> CreateWorkflowResponse \<Rightarrow> json" where
  "response_json svc r = JObj [(''execution_id'', JStr (uuid_String svc (resp_ID r)))]"

text \<open>\<open>c.ShouldBindJSON\<close>: the decoded body, if it passes the binding tags.\<close>

definition ShouldBindJSON ::
  "(CreateWorkflowRequest \<Rightarrow> error) \<Rightarrow> error + CreateWorkflowRequest \<Rightarrow> error + CreateWorkflowRequest" where
  "ShouldBindJSON complaint decoded =
     (case decoded of
        Inl err \<Rightarrow> Inl err
      | Inr req \<Rightarrow> if binding_ok req then Inr req else Inl (complaint req))"

definition WorkflowHandler_SubmitWorkflow ::
  "'h services \<Rightarrow> 'h WorkflowHandler \<Rightarrow> (nat \<Rightarrow> uuid) \<Rightarrow> (nat \<Rightarrow> int) \<Rightarrow>
     (CreateWorkflowRequest \<Rightarrow> error) \<Rightarrow> error + CreateWorkflowRequest \<Rightarrow> ('h, http_response) io" where
  "WorkflowHandler_SubmitWorkflow svc h ids clock complaint decoded =
     (case ShouldBindJSON complaint decoded of
        Inl err \<Rightarrow> respond StatusInternalServerError (error_body err)
      | Inr req \<Rightarrow>
          (case ToWorkflowExecution ids clock req of
             (execution, tasks) \<Rightarrow> do {
               r \<leftarrow> workflowService_SubmitWorkflow svc (wh_service h) execution tasks;
               (case r of
                  Inl err \<Rightarrow> respond StatusInternalServerError (error_body err)
                | Inr executionID \<Rightarrow> do {
                    inc WorkflowsSubmittedTotal [''default''];
                    respond StatusCreated (response_json svc \<lparr>resp_ID = executionID\<rparr>)
                  })
             }))"

section \<open>The metrics middleware\<close>

definition request_path :: "http_request \<Rightarrow> string" where
  "request_path c = (if FullPath c = [] then URL_Path c else FullPath c)"

text \<open>
  \<open>WithLabelValues\<close> panics on a label value that is not valid UTF-8; the test is that of Go's
  \<open>unicode/utf8\<close>: the bytes that may follow a first byte, as ranges.
\<close>

definition utf8_follow :: "nat \<Rightarrow> (nat \<times> nat) list option" where
  "utf8_follow b =
     (if b < 0x80 then Some []
      else if b < 0xC2 then None
      else if b < 0xE0 then Some [(0x80, 0xBF)]
      else if b = 0xE0 then Some [(0xA0, 0xBF), (0x80, 0xBF)]
      else if b = 0xED then Some [(0x80, 0x9F), (0x80, 0xBF)]
      else if b < 0xF0 then Some [(0x80, 0xBF), (0x80, 0xBF)]
      else if b = 0xF0 then Some [(0x90, 0xBF), (0x80, 0xBF), (0x80, 0xBF)]
      else if b < 0xF4 then Some [(0x80, 0xBF), (0x80, 0xBF), (0x80, 0xBF)]
      else if b = 0xF4 then Some [(0x80, 0x8F), (0x80, 0xBF), (0x80, 0xBF)]
      else None)"

fun utf8_from :: "(nat \<times> nat) list \<Rightarrow> string \<Rightarrow> bool" where
  "utf8_from [] [] = True"
| "utf8_from (r # rs) [] = False"
| "utf8_from [] (c # s) = (case utf8_follow (code c) of None \<Rightarrow> False | Some rs \<Rightarrow> utf8_from rs s)"
| "utf8_from ((lo, hi) # rs) (c # s) = (lo \<le> code c \<and> code c \<le> hi \<and> utf8_from rs s)"

definition valid_utf8 :: "string \<Rightarrow> bool" where
  "valid_utf8 s \<longleftrightarrow> utf8_from [] s"

text \<open>A use of a collector with these label values; \<open>None\<close> is the panic, which gin recovers.\<close>

definition with_label_values :: "string list \<Rightarrow> ('h, 'a option) io \<Rightarrow> ('h, 'a option) io" where
  "with_label_values ls m = (if list_all valid_utf8 ls then m else return None)"

definition PrometheusMiddleware ::
  "http_request \<Rightarrow> ('h, http_response) io \<Rightarrow> ('h, http_response option) io" where
  "PrometheusMiddleware c handler =
     (let path = request_path c;
          measured = do {
            r \<leftarrow> handler;
            let status = Itoa (http_status r);
            with_label_values [Method c, path, status] (do {
              inc HTTPRequestsTotal [Method c, path, status];
              with_label_values [Method c, path] (do {
                observe HTTPRequestDuration [Method c, path];
                with_label_values [Method c, path] (do {
                  observe HTTPResponseSizeBytes [Method c, path];
                  return (Some r)
                })
              })
            })
          }
      in if ContentLength c > 0
         then with_label_values [Method c, path] (do {
           observe HTTPRequestSizeBytes [Method c, path];
           measured
         })
         else measured)"

section \<open>Health and readiness\<close>

definition health :: "('h, http_response) io" where
  "health = respond StatusOK (JObj [(''status'', JStr ''healthy'')])"

definition not_ready :: "string \<Rightarrow> json" where
  "not_ready why = JObj [(''status'', JStr ''not ready''), (''error'', JStr why)]"

definition readiness ::
  "('h, unit) fallible \<Rightarrow> ('h, unit) fallible \<Rightarrow> ('h, http_response) io" where
  "readiness redis_Ping sql_Ping = do {
     r \<leftarrow> redis_Ping;
     case r of
       Inl err \<Rightarrow> respond StatusServiceUnavailable (not_ready ''redis unavailable'')
     | Inr _ \<Rightarrow> do {
         r' \<leftarrow> sql_Ping;
         (case r' of
            Inl err \<Rightarrow> respond StatusServiceUnavailable (not_ready ''database unavailable'')
          | Inr _ \<Rightarrow> respond StatusOK (JObj [(''status'', JStr ''ready'')]))
       }
   }"

section \<open>The background collectors\<close>

text \<open>One tick each; \<open>idle\<close> and \<open>in_use\<close> are the pool statistics of \<open>database/sql\<close>.\<close>

definition DBPoolCollector_tick :: "int \<Rightarrow> int \<Rightarrow> ('h, unit) io" where
  "DBPoolCollector_tick idle in_use = do {
     set_gauge DBConnectionPoolSize [''idle''] idle;
     set_gauge DBConnectionPoolSize [''in_use''] in_use
   }"

definition RedisQueueDepthCollector_tick :: "'h services \<Rightarrow> string \<Rightarrow> ('h, unit) io" where
  "RedisQueueDepthCollector_tick svc queueKey = do {
     r \<leftarrow> redis_LLen svc queueKey;
     case r of
       Inl err \<Rightarrow> inc RedisConnectionErrorsTotal [''llen'']
     | Inr n \<Rightarrow> set_gauge RedisQueueDepth [] (int n)
   }"

section \<open>Assembly\<close>

definition main_key :: string where "main_key = ''workflow:queue:pending''"
definition retry_key :: string where "retry_key = ''workflow:queue:retry''"

record 'h server =
  sv_workflowSvc :: "'h workflowService"
  sv_coord :: "'h Coordinator"
  sv_mainWorker :: "'h Worker"
  sv_mainWorkers :: nat
  sv_retryWorker :: "'h Worker"
  sv_retryWorkers :: nat
  sv_workflowHandler :: "'h WorkflowHandler"

text \<open>\<open>id1\<close> and \<open>id2\<close> are the identifiers the two workers draw.\<close>

definition main_server :: "'h services \<Rightarrow> uuid \<Rightarrow> uuid \<Rightarrow> 'h server" where
  "main_server svc id1 id2 =
     (let taskRepo = NewTaskRepository svc;
          workflowRepo = NewWorkflowRepository svc;
          mainQueue = NewRedisQueue svc main_key;
          retryQueue = NewRedisQueue svc retry_key;
          eventBus = NewRedisEventBus svc;
          workflowSvc = NewWorkflowService taskRepo mainQueue;
          coord = NewCoordinator taskRepo workflowRepo mainQueue eventBus;
          mainWorker = NewWorker svc id1 mainQueue retryQueue taskRepo workflowRepo eventBus InitRegistry;
          retryWorker = NewWorker svc id2 retryQueue retryQueue taskRepo workflowRepo eventBus InitRegistry
      in \<lparr>sv_workflowSvc = workflowSvc, sv_coord = coord,
          sv_mainWorker = mainWorker, sv_mainWorkers = 9,
          sv_retryWorker = retryWorker, sv_retryWorkers = 1,
          sv_workflowHandler = NewWorkflowHandler workflowSvc\<rparr>)"

datatype route = Health | Readiness | MetricsEndpoint | SubmitWorkflow

definition routes :: "((string \<times> string) \<times> route) list" where
  "routes =
     [((''GET'', ''/health''), Health),
      ((''GET'', ''/readiness''), Readiness),
      ((''GET'', ''/metrics''), MetricsEndpoint),
      ((''POST'', ''/api/v1/workflows''), SubmitWorkflow)]"

text \<open>
  A request, inside the middleware. gin tells by \<open>FullPath\<close> which route it chose, and the empty
  path sends it to \<open>no_route\<close>, its own answer; \<open>promhttp\<close> is the handler of the Prometheus library.
\<close>

definition serve ::
  "'h services \<Rightarrow> 'h server \<Rightarrow> ('h, unit) fallible \<Rightarrow> ('h, unit) fallible \<Rightarrow> ('h, http_response) io \<Rightarrow>
     ('h, http_response) io \<Rightarrow> (nat \<Rightarrow> uuid) \<Rightarrow> (nat \<Rightarrow> int) \<Rightarrow> (CreateWorkflowRequest \<Rightarrow> error) \<Rightarrow>
     error + CreateWorkflowRequest \<Rightarrow> http_request \<Rightarrow> ('h, http_response option) io" where
  "serve svc sv redis_Ping sql_Ping promhttp no_route ids clock complaint decoded c =
     PrometheusMiddleware c
       (case map_of routes (Method c, FullPath c) of
          Some Health \<Rightarrow> health
        | Some Readiness \<Rightarrow> readiness redis_Ping sql_Ping
        | Some MetricsEndpoint \<Rightarrow> promhttp
        | Some SubmitWorkflow \<Rightarrow>
            WorkflowHandler_SubmitWorkflow svc (sv_workflowHandler sv) ids clock complaint decoded
        | None \<Rightarrow> no_route)"

section \<open>Lemmas\<close>

text \<open>The operations behind the fields.\<close>

lemma provider_fields:
  "Push (NewRedisQueue svc k) = RedisQueue_Push svc k"
  "Pop (NewRedisQueue svc k) = RedisQueue_Pop svc k"
  "FindTaskByID (NewTaskRepository svc) = taskRepository_FindTaskByID svc"
  "ClaimTask (NewTaskRepository svc) = taskRepository_ClaimTask svc"
  "MarkCompleted (NewTaskRepository svc) = taskRepository_MarkCompleted svc"
  "MarkFailed (NewTaskRepository svc) = taskRepository_MarkFailed svc"
  "MarkSkipped (NewTaskRepository svc) = taskRepository_MarkSkipped svc"
  "IncrementRetryCount (NewTaskRepository svc) = taskRepository_IncrementRetryCount svc"
  "CreateExecution (NewTaskRepository svc) = taskRepository_CreateExecution svc"
  "DecrementAndGetReadyTasks (NewTaskRepository svc) = taskRepository_DecrementAndGetReadyTasks svc"
  "DecrementAndSetSkipHint (NewTaskRepository svc) = taskRepository_DecrementAndSetSkipHint svc"
  "AreAllTasksCompleted (NewTaskRepository svc) = taskRepository_AreAllTasksCompleted svc"
  "UpdateStatus (NewWorkflowRepository svc) = workflowRepository_UpdateStatus svc"
  "PublishTaskCompleted (NewRedisEventBus svc) = RedisEventBus_PublishTaskCompleted svc"
  "PublishTaskTerminated (NewRedisEventBus svc) = RedisEventBus_PublishTaskTerminated svc"
  by (simp_all add: NewRedisQueue_def NewTaskRepository_def NewWorkflowRepository_def NewRedisEventBus_def)

lemma worker_fields:
  "workerID (NewWorker svc i q rq r wr bus reg) = uuid_String svc i"
  "wk_queue (NewWorker svc i q rq r wr bus reg) = q"
  "retryQueue (NewWorker svc i q rq r wr bus reg) = rq"
  "wk_repo (NewWorker svc i q rq r wr bus reg) = r"
  "wk_workflowRepo (NewWorker svc i q rq r wr bus reg) = wr"
  "wk_eventBus (NewWorker svc i q rq r wr bus reg) = bus"
  "registry (NewWorker svc i q rq r wr bus reg) = reg"
  by (simp_all add: NewWorker_def)

lemma coordinator_fields:
  "co_taskRepo (NewCoordinator r wr q bus) = r" "co_workflowRepo (NewCoordinator r wr q bus) = wr"
  "co_queue (NewCoordinator r wr q bus) = q" "co_eventBus (NewCoordinator r wr q bus) = bus"
  by (simp_all add: NewCoordinator_def)

lemma server_metrics_ok [simp]:
  "metric_op_ok (MInc WorkflowsSubmittedTotal [x])"
  "metric_op_ok (MObserve HTTPRequestSizeBytes [x, y])"
  "metric_op_ok (MInc HTTPRequestsTotal [x, y, z])"
  "metric_op_ok (MObserve HTTPRequestDuration [x, y])"
  "metric_op_ok (MObserve HTTPResponseSizeBytes [x, y])"
  "metric_op_ok (MSet DBConnectionPoolSize [x] i)"
  "metric_op_ok (MSet RedisQueueDepth [] i)"
  "metric_op_ok (MInc RedisConnectionErrorsTotal [x])"
  by (simp_all add: metric_op_ok.simps metric_defs)

lemma keys_distinct [simp]: "main_key \<noteq> retry_key" "retry_key \<noteq> main_key"
  by (simp_all add: main_key_def retry_key_def)

lemma run_respond [simp]: "run_state (respond st b) w = (\<lparr>http_status = st, http_body = b\<rparr>, w)"
  by (simp add: respond_def)

lemma respond_evolves: "state_io_rel evolves (respond st b)"
  unfolding respond_def by (intro evolve_intros)

lemma middleware_evolves:
  "state_io_rel evolves handler \<Longrightarrow> state_io_rel evolves (PrometheusMiddleware c handler)"
  unfolding PrometheusMiddleware_def with_label_values_def Let_def by (intro evolve_intros; simp)+

text \<open>Label values of ASCII characters, as the decimal numerals are.\<close>

lemma valid_utf8_ascii: "list_all (\<lambda>c. code c < 128) s \<Longrightarrow> valid_utf8 s"
  unfolding valid_utf8_def by (induction s) (simp_all add: utf8_follow_def)

lemma digits_chars: "set (digits n) \<subseteq> set ''0123456789''"
proof (induction n rule: digits.induct)
  case (1 n)
  have chars: "''0123456789'' ! k \<in> set ''0123456789''" if "k < 10" for k
    using that by (intro nth_mem) simp
  show ?case
  proof (cases "n < 10")
    case True
    with chars [OF True] show ?thesis by (subst digits.simps) (simp del: set_simps(2) add: list.set(2))
  next
    case False
    with chars [of "n mod 10"] 1 show ?thesis by (subst digits.simps) (simp del: set_simps(2) add: list.set(2))
  qed
qed

lemma Itoa_valid [simp]: "valid_utf8 (Itoa i)"
proof (rule valid_utf8_ascii)
  have "code c < 128" if "c \<in> set ''0123456789''" for c using that by (auto simp: code_def)
  then have "list_all (\<lambda>c. code c < 128) (digits n)" for n using digits_chars [of n] by (auto simp: list_all_iff)
  moreover have "code (CHR ''-'') < 128" by (simp add: code_def)
  ultimately show "list_all (\<lambda>c. code c < 128) (Itoa i)" by (simp add: Itoa_def)
qed

lemma route_paths_valid:
  assumes "map_of routes (m, p) = Some rt"
  shows "p \<noteq> [] \<and> valid_utf8 p"
proof -
  have "list_all (\<lambda>r. snd (fst r) \<noteq> [] \<and> list_all (\<lambda>c. code c < 128) (snd (fst r))) routes"
    by (simp add: routes_def code_def)
  with map_of_SomeD [OF assms] have "p \<noteq> [] \<and> list_all (\<lambda>c. code c < 128) p" by (auto simp: list_all_iff)
  then show ?thesis using valid_utf8_ascii by blast
qed

lemma run_middleware:
  assumes "valid_utf8 (Method c)" and "valid_utf8 (request_path c)"
    and "run_state handler
      (w\<lparr>mlog := mlog w @ (if ContentLength c > 0
         then [MObserve HTTPRequestSizeBytes [Method c, request_path c]] else [])\<rparr>) = (r, w')"
  shows "run_state (PrometheusMiddleware c handler) w =
    (Some r, w'\<lparr>mlog := mlog w' @
       [MInc HTTPRequestsTotal [Method c, request_path c, Itoa (http_status r)],
        MObserve HTTPRequestDuration [Method c, request_path c],
        MObserve HTTPResponseSizeBytes [Method c, request_path c]]\<rparr>)"
  using assms by (cases "ContentLength c > 0") (simp_all add: PrometheusMiddleware_def with_label_values_def Let_def)

lemma run_middleware_panics:
  assumes "\<not> valid_utf8 (request_path c)"
  shows "run_state (PrometheusMiddleware c handler) w =
    (None, if ContentLength c > 0 then w else snd (run_state handler w))"
  using assms by (simp add: PrometheusMiddleware_def with_label_values_def Let_def split: prod.splits)

context lawful_services
begin

lemma collector_evolves:
  "state_io_rel evolves (DBPoolCollector_tick idle in_use)"
  "state_io_rel evolves (RedisQueueDepthCollector_tick svc key)"
  unfolding DBPoolCollector_tick_def RedisQueueDepthCollector_tick_def
  by (intro evolve_intros services_evolve; simp)+

lemmas submission_outcome = submission.submit_outcome

lemma handler_evolves:
  "state_io_rel evolves (WorkflowHandler_SubmitWorkflow svc
     (NewWorkflowHandler (NewWorkflowService (NewTaskRepository svc) (NewRedisQueue svc key))) ids clock complaint decoded)"
  unfolding WorkflowHandler_SubmitWorkflow_def NewWorkflowHandler_def WorkflowHandler.simps
  by (intro evolve_intros respond_evolves submission.submit_evolves; simp)+

end

lemma main_server_simps [simp]:
  "sv_mainWorker (main_server svc id1 id2) =
     NewWorker svc id1 (NewRedisQueue svc main_key) (NewRedisQueue svc retry_key)
       (NewTaskRepository svc) (NewWorkflowRepository svc) (NewRedisEventBus svc) InitRegistry"
  "sv_retryWorker (main_server svc id1 id2) =
     NewWorker svc id2 (NewRedisQueue svc retry_key) (NewRedisQueue svc retry_key)
       (NewTaskRepository svc) (NewWorkflowRepository svc) (NewRedisEventBus svc) InitRegistry"
  "sv_coord (main_server svc id1 id2) =
     NewCoordinator (NewTaskRepository svc) (NewWorkflowRepository svc) (NewRedisQueue svc main_key)
       (NewRedisEventBus svc)"
  "sv_workflowSvc (main_server svc id1 id2) =
     NewWorkflowService (NewTaskRepository svc) (NewRedisQueue svc main_key)"
  "sv_workflowHandler (main_server svc id1 id2) =
     NewWorkflowHandler (NewWorkflowService (NewTaskRepository svc) (NewRedisQueue svc main_key))"
  "sv_mainWorkers (main_server svc id1 id2) = 9" "sv_retryWorkers (main_server svc id1 id2) = 1"
  by (simp_all add: main_server_def Let_def)

text \<open>
  The containment query on a stored dependency list, for a name that needs no escaping in the
  parameter the repository pastes together.
\<close>

lemma depends_on_marshalled:
  assumes "lawful_services svc" and "plain p" and "Dependencies t = marshal_dependencies deps"
  shows "depends_on svc t p \<longleftrightarrow> (\<exists>ds. deps = Some ds \<and> p \<in> set ds)"
proof -
  have param: "string_array (depParam p) = Some [p]"
    unfolding depParam_def by (rule string_array_singleton) (rule assms(2))
  show ?thesis
  proof (cases deps)
    case None
    have "json_parse (json_print JNull) = Some JNull" by (rule json_parse_print) simp
    with None lawful_services.jsonb_contains_null_law [OF assms(1) _ param] show ?thesis
      by (simp add: depends_on_def marshal_dependencies_def assms(3) del: json_print.simps)
  next
    case (Some ds)
    then have "string_array (marshal_dependencies deps) = Some ds"
      by (simp add: string_array_dependencies)
    with Some lawful_services.jsonb_contains_law [OF assms(1) _ param] show ?thesis
      by (simp add: depends_on_def assms(3))
  qed
qed

end
