(* ===== verification/System.thy ===== *)
theory System
  imports Server
begin

text \<open>
  The running program: the goroutines that \<open>main\<close> starts, interleaved call by call. Every
  goroutine is cut at its calls of the repositories, the queues and the bus; a program counter
  says which call comes next and holds the local variables that are still needed. The first
  half of this theory proves that a goroutine that is never interrupted runs exactly the
  sequential code of \<open>Worker\<close>, \<open>Coordinator\<close> and \<open>Workflow_Service\<close>; the second half is
  the step relation of the whole.
\<close>

section \<open>Worker goroutines\<close>

datatype worker_pc =
    W_idle
  | W_find uuid
  | W_skip Task
  | W_skip_publish Task
  | W_claim Task
  | W_complete Task string
  | W_complete_publish Task
  | W_retry Task
  | W_retry_push Task
  | W_fail Task error
  | W_fail_execution Task error
  | W_fail_publish Task error
  | W_unknown Task
  | W_unknown_publish Task
  | W_unknown_execution Task

text \<open>Where \<open>handleTaskFailure\<close> goes, and the end of a round that had claimed its task.\<close>

definition failure_pc :: "Task \<Rightarrow> error \<Rightarrow> worker_pc" where
  "failure_pc task err = (if CanRetry task (MaxRetries task) then W_retry task else W_fail task err)"

definition end_claimed :: "'h Worker \<Rightarrow> ('h, worker_pc) io" where
  "end_claimed wk = do { dec WorkerActiveTasks [workerID wk]; return W_idle }"

definition run_action :: "'h Worker \<Rightarrow> Context \<Rightarrow> Task \<Rightarrow> ('h, worker_pc) io" where
  "run_action wk ctx task = do {
     inc WorkerActiveTasks [workerID wk];
     case registry wk (Action task) of
       None \<Rightarrow> return (W_unknown task)
     | Some handler \<Rightarrow> do {
         let result = handler ctx (Input task);
         observe WorkerTaskDuration [Action task];
         return (case result of Inl err \<Rightarrow> failure_pc task err | Inr out \<Rightarrow> W_complete task out)
       }
   }"

fun worker_step :: "'h services \<Rightarrow> 'h Worker \<Rightarrow> Context \<Rightarrow> worker_pc \<Rightarrow> ('h, worker_pc) io" where
  "worker_step svc wk ctx W_idle = do {
     r \<leftarrow> Pop (wk_queue wk);
     return (case r of
        Inl err \<Rightarrow> W_idle
      | Inr s \<Rightarrow> (case uuid_Parse svc s of Inl err \<Rightarrow> W_idle | Inr taskID \<Rightarrow> W_find taskID))
   }"
| "worker_step svc wk ctx (W_find taskID) = do {
     r \<leftarrow> FindTaskByID (wk_repo wk) taskID;
     case r of
       Inl err \<Rightarrow> return W_idle
     | Inr task \<Rightarrow> do {
         observe WorkerQueueWaitTime [];
         return (if SkipHint task then W_skip task else W_claim task)
       }
   }"
| "worker_step svc wk ctx (W_skip task) = do {
     r \<leftarrow> MarkSkipped (wk_repo wk) (ID task);
     return (case r of Inl err \<Rightarrow> W_idle | Inr _ \<Rightarrow> W_skip_publish task)
   }"
| "worker_step svc wk ctx (W_skip_publish task) = do {
     ignore (PublishTaskTerminated (wk_eventBus wk)
       (NewTaskTerminatedEvent (ExecutionID task) (ID task) (RefID task)
          TaskTerminationSkipped ''skipped due to parent task failure''));
     inc WorkerTasksProcessedTotal [Action task, ''skipped''];
     return W_idle
   }"
| "worker_step svc wk ctx (W_claim task) = do {
     (claimed, task) \<leftarrow> Worker_claimTask wk task;
     if \<not> claimed then return W_idle else run_action wk ctx task
   }"
| "worker_step svc wk ctx (W_complete task out) = do {
     ignore (MarkCompleted (wk_repo wk) (ID task) out);
     inc WorkerTasksProcessedTotal [Action task, ''success''];
     return (W_complete_publish task)
   }"
| "worker_step svc wk ctx (W_complete_publish task) = do {
     ignore (PublishTaskCompleted (wk_eventBus wk)
       \<lparr>tc_ExecutionID = ExecutionID task, tc_TaskID = ID task, tc_RefID = RefID task\<rparr>);
     end_claimed wk
   }"
| "worker_step svc wk ctx (W_retry task) = do {
     inc WorkerRetriesTotal [Action task, Itoa (RetryCount task + 1)];
     r \<leftarrow> IncrementRetryCount (wk_repo wk) (ID task) (Version task);
     case r of Inl err \<Rightarrow> end_claimed wk | Inr _ \<Rightarrow> return (W_retry_push task)
   }"
| "worker_step svc wk ctx (W_retry_push task) = do {
     ignore (Push (retryQueue wk) (uuid_String svc (ID task)));
     end_claimed wk
   }"
| "worker_step svc wk ctx (W_fail task err) = do {
     ignore (MarkFailed (wk_repo wk) (ID task) (Error err));
     inc TaskRetryExhaustionTotal [Action task];
     inc WorkerTasksProcessedTotal [Action task, ''failed''];
     return (W_fail_execution task err)
   }"
| "worker_step svc wk ctx (W_fail_execution task err) = do {
     ignore (UpdateStatus (wk_workflowRepo wk) (ExecutionID task) WorkflowFailed);
     return (W_fail_publish task err)
   }"
| "worker_step svc wk ctx (W_fail_publish task err) = do {
     ignore (PublishTaskTerminated (wk_eventBus wk)
       (NewTaskTerminatedEvent (ExecutionID task) (ID task) (RefID task)
          TaskTerminationFailed (Error err)));
     end_claimed wk
   }"
| "worker_step svc wk ctx (W_unknown task) = do {
     ignore (MarkFailed (wk_repo wk) (ID task) ''unknown action'');
     inc WorkerRegistryErrorsTotal [Action task];
     inc WorkerTasksProcessedTotal [Action task, ''failed''];
     return (W_unknown_publish task)
   }"
| "worker_step svc wk ctx (W_unknown_publish task) = do {
     ignore (PublishTaskTerminated (wk_eventBus wk)
       (NewTaskTerminatedEvent (ExecutionID task) (ID task) (RefID task)
          TaskTerminationFailed ''unknown action''));
     return (W_unknown_execution task)
   }"
| "worker_step svc wk ctx (W_unknown_execution task) = do {
     ignore (UpdateStatus (wk_workflowRepo wk) (ExecutionID task) WorkflowFailed);
     return (failure_pc task (Err ''unknown action''))
   }"

text \<open>The steps of one goroutine without interruption, until it is idle again.\<close>

fun worker_finish :: "nat \<Rightarrow> 'h services \<Rightarrow> 'h Worker \<Rightarrow> Context \<Rightarrow> worker_pc \<Rightarrow> ('h, worker_pc) io" where
  "worker_finish 0 svc wk ctx pc = return pc"
| "worker_finish (Suc n) svc wk ctx pc =
     (if pc = W_idle then return W_idle
      else do { pc' \<leftarrow> worker_step svc wk ctx pc; worker_finish n svc wk ctx pc' })"

lemma worker_finish_idle [simp]: "worker_finish n svc wk ctx W_idle = return W_idle"
  by (cases n) simp_all

text \<open>The rest of the code from a program counter on.\<close>

definition then_dec :: "'h Worker \<Rightarrow> ('h, unit) io \<Rightarrow> ('h, worker_pc) io" where
  "then_dec wk m = do { m; dec WorkerActiveTasks [workerID wk]; return W_idle }"

lemma state_eqI: "(\<And>w. run_state m w = run_state n w) \<Longrightarrow> m = n"
  by (cases m; cases n) auto

lemmas finish_unfold = worker_finish.simps(2) end_claimed_def then_dec_def

lemma finish_success:
  "worker_finish (Suc (Suc n)) svc wk ctx (W_complete t out) = then_dec wk (Worker_handleTaskSuccess wk t out)"
  by (rule state_eqI) (simp add: finish_unfold Worker_handleTaskSuccess_def split: prod.split)

lemma finish_retry:
  "worker_finish (Suc (Suc n)) svc wk ctx (W_retry t) = then_dec wk (Worker_retryTask svc wk t)"
  by (rule state_eqI) (auto simp: finish_unfold Worker_retryTask_def split: prod.splits sum.splits)

lemma finish_fail:
  "worker_finish (Suc (Suc (Suc n))) svc wk ctx (W_fail t err) =
     then_dec wk (Worker_markTaskFailedPermanently wk t err)"
  by (rule state_eqI) (simp add: finish_unfold Worker_markTaskFailedPermanently_def split: prod.split)

lemma finish_failure:
  "worker_finish (Suc (Suc (Suc n))) svc wk ctx (failure_pc t err) =
     then_dec wk (Worker_handleTaskFailure svc wk t err)"
  by (simp add: failure_pc_def Worker_handleTaskFailure_def finish_retry finish_fail
      del: worker_finish.simps)

lemma finish_claimed:
  "worker_finish 7 svc wk ctx (W_claim t) = do {
     (claimed, t') \<leftarrow> Worker_claimTask wk t;
     if \<not> claimed then return W_idle
     else do {
       inc WorkerActiveTasks [workerID wk];
       then_dec wk (do {
         r \<leftarrow> Worker_executeTaskAction wk ctx t';
         (case r of
            Inl err \<Rightarrow> Worker_handleTaskFailure svc wk t' err
          | Inr out \<Rightarrow> Worker_handleTaskSuccess wk t' out)
       })
     }
   }"
  (is "_ = ?code")
proof (rule state_eqI)
  fix w
  obtain c t' w1 where claim: "run_state (Worker_claimTask wk t) w = ((c, t'), w1)" by (metis surj_pair)
  have seven: "worker_finish 7 svc wk ctx (W_claim t) = do {
      pc \<leftarrow> worker_step svc wk ctx (W_claim t); worker_finish 6 svc wk ctx pc }"
    using worker_finish.simps(2) [of 6 svc wk ctx "W_claim t"]
    by (simp del: worker_step.simps worker_finish.simps)
  let ?w = "w1\<lparr>mlog := mlog w1 @ [MInc WorkerActiveTasks [workerID wk]]\<rparr>"
  show "run_state (worker_finish 7 svc wk ctx (W_claim t)) w = run_state ?code w"
  proof (cases "registry wk (Action t')")
    case None
    have "worker_finish 6 svc wk ctx (W_unknown t') = do {
        ignore (MarkFailed (wk_repo wk) (ID t') ''unknown action'');
        inc WorkerRegistryErrorsTotal [Action t'];
        inc WorkerTasksProcessedTotal [Action t', ''failed''];
        ignore (PublishTaskTerminated (wk_eventBus wk)
          (NewTaskTerminatedEvent (ExecutionID t') (ID t') (RefID t') TaskTerminationFailed ''unknown action''));
        ignore (UpdateStatus (wk_workflowRepo wk) (ExecutionID t') WorkflowFailed);
        worker_finish 3 svc wk ctx (failure_pc t' (Err ''unknown action'')) }"
      by (simp add: eval_nat_numeral)
    moreover have "worker_finish 3 svc wk ctx (failure_pc t' err) = then_dec wk (Worker_handleTaskFailure svc wk t' err)" for err
      using finish_failure [of 0 svc wk ctx t' err] by (simp only: eval_nat_numeral One_nat_def BitM.simps)
    ultimately show ?thesis
      using claim None
      by (auto simp: seven run_action_def Worker_executeTaskAction_def then_dec_def split: prod.split)
  next
    case (Some handler)
    have fail: "worker_finish 6 svc wk ctx (failure_pc t' err) = then_dec wk (Worker_handleTaskFailure svc wk t' err)" for err
      using finish_failure [of 3 svc wk ctx t' err] by (simp only: eval_nat_numeral One_nat_def BitM.simps)
    have success: "worker_finish 6 svc wk ctx (W_complete t' out) = then_dec wk (Worker_handleTaskSuccess wk t' out)" for out
      using finish_success [of 4 svc wk ctx t' out] by (simp only: eval_nat_numeral One_nat_def BitM.simps)
    show ?thesis
      using claim Some fail success
      by (auto simp: seven run_action_def Worker_executeTaskAction_def then_dec_def split: prod.split sum.split)
  qed
qed

lemma run_then_dec:
  "run_state (then_dec wk m) w = (W_idle, snd (run_state (deferred (dec WorkerActiveTasks [workerID wk]) m) w))"
  by (simp add: then_dec_def split: prod.split)

lemma finish_fetched:
  "run_state (worker_finish 7 svc wk ctx (if SkipHint t then W_skip t else W_claim t)) w =
     (W_idle, snd (run_state (Worker_processFetchedTask svc wk ctx t) w))"
proof (cases "SkipHint t")
  case True
  have "worker_finish 7 svc wk ctx (W_skip t) = do {
      pc \<leftarrow> worker_step svc wk ctx (W_skip t); worker_finish 6 svc wk ctx pc }"
    using worker_finish.simps(2) [of 6 svc wk ctx "W_skip t"]
    by (simp del: worker_step.simps worker_finish.simps)
  moreover have "worker_finish 6 svc wk ctx (W_skip_publish t) = worker_step svc wk ctx (W_skip_publish t)"
    using worker_finish.simps(2) [of 5 svc wk ctx "W_skip_publish t"]
    by (simp del: worker_finish.simps)
  ultimately show ?thesis
    using True
    by (auto simp: Worker_processFetchedTask_def Worker_handleSkippedTask_def split: prod.split sum.split)
next
  case False
  then show ?thesis
    by (simp add: finish_claimed Worker_processFetchedTask_def run_then_dec split: prod.split)
qed

lemma worker_uninterrupted:
  "run_state (do { pc \<leftarrow> worker_step svc wk ctx W_idle; worker_finish 8 svc wk ctx pc }) w =
     (W_idle, snd (run_state (Worker_ProcessNextTask svc wk ctx) w))"
proof -
  have find: "worker_finish 8 svc wk ctx (W_find i) = do {
      pc \<leftarrow> worker_step svc wk ctx (W_find i); worker_finish 7 svc wk ctx pc }" for i
    using worker_finish.simps(2) [of 7 svc wk ctx "W_find i"]
    by (simp del: worker_step.simps worker_finish.simps)
  show ?thesis
    by (auto simp: find Worker_ProcessNextTask_def Worker_popAndFetchTask_def finish_fetched
        split: prod.split sum.split simp del: if_split)
qed

section \<open>The coordinator and its subscribers\<close>

datatype coord_pc =
    C_idle
  | C_decrement TaskCompletedEvent
  | C_queue "uuid list" nat
  | C_check uuid
  | C_finish uuid
  | C_taint TaskTerminatedEvent
  | C_skip_queue "uuid list" nat TaskTerminationType

definition end_event :: "('h, coord_pc) io" where
  "end_event = do { observe CoordinatorDAGResolutionDuration []; return C_idle }"

text \<open>What follows the queueing of a terminated task's children: the counters and the end.\<close>

definition end_termination :: "nat \<Rightarrow> TaskTerminationType \<Rightarrow> ('h, coord_pc) io" where
  "end_termination n ty = do {
     for_each (replicate n ()) (\<lambda>_. do {
       inc CoordinatorSkipPropagationsTotal [];
       inc CoordinatorTasksUnblockedTotal []
     });
     (if ty = TaskTerminationFailed then inc CoordinatorWorkflowCompletionsTotal [''failed''] else return ());
     end_event
   }"

fun coord_step :: "'h services \<Rightarrow> 'h Coordinator \<Rightarrow> coord_pc \<Rightarrow> ('h, coord_pc) io" where
  "coord_step svc c C_idle = return C_idle"
| "coord_step svc c (C_decrement event) = do {
     r \<leftarrow> DecrementAndGetReadyTasks (co_taskRepo c) (tc_ExecutionID event) (tc_RefID event);
     case r of
       Inl err \<Rightarrow> end_event
     | Inr readyTaskIDs \<Rightarrow>
         return (if readyTaskIDs = [] then C_check (tc_ExecutionID event)
                 else C_queue readyTaskIDs (length readyTaskIDs))
   }"
| "coord_step svc c (C_queue [] n) = do {
     for_each (replicate n ()) (\<lambda>_. inc CoordinatorTasksUnblockedTotal []);
     end_event
   }"
| "coord_step svc c (C_queue (taskID # rest) n) = do {
     ignore (Push (co_queue c) (uuid_String svc taskID));
     return (C_queue rest n)
   }"
| "coord_step svc c (C_check executionID) = do {
     r \<leftarrow> AreAllTasksCompleted (co_taskRepo c) executionID;
     case r of
       Inl err \<Rightarrow> end_event
     | Inr allCompleted \<Rightarrow> if \<not> allCompleted then end_event else return (C_finish executionID)
   }"
| "coord_step svc c (C_finish executionID) = do {
     r \<leftarrow> UpdateStatus (co_workflowRepo c) executionID WorkflowCompleted;
     case r of
       Inl err \<Rightarrow> end_event
     | Inr _ \<Rightarrow> do { inc CoordinatorWorkflowCompletionsTotal [''completed'']; end_event }
   }"
| "coord_step svc c (C_taint event) = do {
     r \<leftarrow> DecrementAndSetSkipHint (co_taskRepo c) (tt_ExecutionID event) (tt_RefID event);
     case r of
       Inl err \<Rightarrow> end_event
     | Inr readyTaskIDs \<Rightarrow> return (C_skip_queue readyTaskIDs (length readyTaskIDs) (tt_Type event))
   }"
| "coord_step svc c (C_skip_queue [] n ty) = end_termination n ty"
| "coord_step svc c (C_skip_queue (taskID # rest) n ty) = do {
     ignore (Push (co_queue c) (uuid_String svc taskID));
     return (C_skip_queue rest n ty)
   }"

fun coord_finish :: "nat \<Rightarrow> 'h services \<Rightarrow> 'h Coordinator \<Rightarrow> coord_pc \<Rightarrow> ('h, coord_pc) io" where
  "coord_finish 0 svc c pc = return pc"
| "coord_finish (Suc n) svc c pc =
     (if pc = C_idle then return C_idle
      else do { pc' \<leftarrow> coord_step svc c pc; coord_finish n svc c pc' })"

lemma coord_finish_idle [simp]: "coord_finish n svc c C_idle = return C_idle"
  by (cases n) simp_all

lemma for_each_replicate: "for_each (replicate (length xs) ()) (\<lambda>_. m) = for_each xs (\<lambda>_. m)"
  by (induction xs) simp_all

lemma finish_queue:
  "coord_finish (Suc (length ids)) svc c (C_queue ids n) = do {
     Coordinator_queueReady svc c ids;
     for_each (replicate n ()) (\<lambda>_. inc CoordinatorTasksUnblockedTotal []);
     end_event }"
  "coord_finish (Suc (length ids)) svc c (C_skip_queue ids n ty) = do {
     Coordinator_queueReady svc c ids; end_termination n ty }"
proof (induction ids)
  case Nil
  case 1
  show ?case by (rule state_eqI) (simp add: Coordinator_queueReady_def end_event_def split: prod.split)
  case 2
  show ?case
    by (rule state_eqI) (auto simp: Coordinator_queueReady_def end_termination_def end_event_def split: prod.split)
next
  case (Cons i ids)
  case 1
  show ?case using Cons(1) by (simp add: Coordinator_queueReady_def)
  case 2
  show ?case using Cons(2) by (simp add: Coordinator_queueReady_def)
qed

lemma coord_finish_step:
  "pc \<noteq> C_idle \<Longrightarrow> coord_finish (Suc n) svc c pc = do { pc' \<leftarrow> coord_step svc c pc; coord_finish n svc c pc' }"
  by simp

lemma finish_check:
  "run_state (coord_finish 2 svc c (C_check ex)) w =
     (C_idle, snd (run_state (deferred (observe CoordinatorDAGResolutionDuration [])
        (Coordinator_checkIfWorkflowFinished c ex)) w))"
  by (auto simp: eval_nat_numeral end_event_def Coordinator_checkIfWorkflowFinished_def
      split: prod.split sum.split)

lemma coordinator_uninterrupted_completed:
  "\<exists>n. run_state (coord_finish n svc c (C_decrement ev)) w =
     (C_idle, snd (run_state (Coordinator_handleTaskCompleted svc c ev) w))"
proof -
  obtain r w1 where decr: "run_state (DecrementAndGetReadyTasks (co_taskRepo c) (tc_ExecutionID ev) (tc_RefID ev)) w = (r, w1)"
    by fastforce
  show ?thesis
  proof (cases r)
    case (Inl err)
    with decr show ?thesis
      by (auto simp: coord_finish_step Coordinator_handleTaskCompleted_def end_event_def
          simp del: coord_finish.simps intro!: exI [of _ "Suc 0"])
  next
    case (Inr ids)
    show ?thesis
    proof (cases "ids = []")
      case True
      have "run_state (coord_finish 3 svc c (C_decrement ev)) w = run_state (coord_finish 2 svc c (C_check (tc_ExecutionID ev))) w1"
        using decr Inr True coord_finish_step [of "C_decrement ev" 2 svc c]
        by (simp del: coord_finish.simps)
      with decr Inr True show ?thesis
        by (intro exI [of _ 3])
           (simp add: finish_check Coordinator_handleTaskCompleted_def Coordinator_queueReady_def
             split: prod.split)
    next
      case False
      then have run: "run_state (coord_finish (Suc (Suc (length ids))) svc c (C_decrement ev)) w =
          run_state (coord_finish (Suc (length ids)) svc c (C_queue ids (length ids))) w1"
        using decr Inr by (simp del: coord_finish.simps add: coord_finish_step)
      have "run_state (coord_finish (Suc (Suc (length ids))) svc c (C_decrement ev)) w =
          (C_idle, snd (run_state (Coordinator_handleTaskCompleted svc c ev) w))"
        unfolding run finish_queue(1) for_each_replicate
        using decr Inr False by (simp add: Coordinator_handleTaskCompleted_def end_event_def split: prod.split)
      then show ?thesis by (rule exI)
    qed
  qed
qed

lemma coordinator_uninterrupted_terminated:
  "\<exists>n. run_state (coord_finish n svc c (C_taint ev)) w =
     (C_idle, snd (run_state (Coordinator_handleTaskTerminated svc c ev) w))"
proof -
  obtain r w1 where decr: "run_state (DecrementAndSetSkipHint (co_taskRepo c) (tt_ExecutionID ev) (tt_RefID ev)) w = (r, w1)"
    by fastforce
  show ?thesis
  proof (cases r)
    case (Inl err)
    with decr show ?thesis
      by (auto simp: coord_finish_step Coordinator_handleTaskTerminated_def end_event_def
          simp del: coord_finish.simps intro!: exI [of _ "Suc 0"])
  next
    case (Inr ids)
    then have run: "run_state (coord_finish (Suc (Suc (length ids))) svc c (C_taint ev)) w =
        run_state (coord_finish (Suc (length ids)) svc c (C_skip_queue ids (length ids) (tt_Type ev))) w1"
      using decr by (simp del: coord_finish.simps add: coord_finish_step)
    have "run_state (coord_finish (Suc (Suc (length ids))) svc c (C_taint ev)) w =
        (C_idle, snd (run_state (Coordinator_handleTaskTerminated svc c ev) w))"
      unfolding run finish_queue(2) end_termination_def for_each_replicate
      using decr Inr by (auto simp: Coordinator_handleTaskTerminated_def end_event_def split: prod.split)
    then show ?thesis by (rule exI)
  qed
qed

section \<open>Requests\<close>

text \<open>
  A submission in progress: the workflow is to be stored, then its root tasks are pushed one
  by one; the answer is given when the goroutine is done.
\<close>

datatype request_pc =
    R_create WorkflowExecution "Task list"
  | R_push WorkflowExecution "Task list"
  | R_done "error + uuid"

fun request_step :: "'h services \<Rightarrow> 'h workflowService \<Rightarrow> request_pc \<Rightarrow> ('h, request_pc) io" where
  "request_step svc s (R_create execution tasks) = do {
     r \<leftarrow> workflowService_persistWorkflow s execution tasks;
     return (case r of
        Inl err \<Rightarrow> R_done (Inl err)
      | Inr _ \<Rightarrow> R_push execution (workflowService_getRootTasks tasks))
   }"
| "request_step svc s (R_push execution []) = return (R_done (Inr (we_ID execution)))"
| "request_step svc s (R_push execution (task # rest)) = do {
     r \<leftarrow> Push (ws_queue s) (uuid_String svc (ID task));
     return (case r of Inl err \<Rightarrow> R_done (Inl err) | Inr _ \<Rightarrow> R_push execution rest)
   }"
| "request_step svc s (R_done r) = return (R_done r)"

fun request_finish :: "nat \<Rightarrow> 'h services \<Rightarrow> 'h workflowService \<Rightarrow> request_pc \<Rightarrow> ('h, request_pc) io" where
  "request_finish 0 svc s pc = return pc"
| "request_finish (Suc n) svc s pc = do { pc' \<leftarrow> request_step svc s pc; request_finish n svc s pc' }"

lemma request_finish_done [simp]: "request_finish n svc s (R_done r) = return (R_done r)"
  by (induction n) simp_all

lemma finish_push:
  "run_state (request_finish (Suc (length ts)) svc s (R_push e ts)) w =
     (case run_state (workflowService_enqueueRootTasks svc s ts) w of
        (r, w') \<Rightarrow> (R_done (case r of Inl err \<Rightarrow> Inl err | Inr _ \<Rightarrow> Inr (we_ID e)), w'))"
proof (induction ts arbitrary: w)
  case (Cons t ts)
  obtain r1 w1 where "run_state (Push (ws_queue s) (uuid_String svc (ID t))) w = (r1, w1)" by fastforce
  with Cons show ?case by (cases r1) (auto split: prod.split sum.split)
qed simp

lemma request_uninterrupted:
  "run_state (request_finish (Suc (Suc (length (workflowService_getRootTasks ts)))) svc s (R_create e ts)) w =
     (case run_state (workflowService_SubmitWorkflow svc s e ts) w of (r, w') \<Rightarrow> (R_done r, w'))"
proof -
  obtain r1 w1 where "run_state (workflowService_persistWorkflow s e ts) w = (r1, w1)" by fastforce
  then show ?thesis
    using finish_push [of "workflowService_getRootTasks ts" svc s e w1]
    by (cases r1) (auto simp: workflowService_SubmitWorkflow_def split: prod.split sum.split
        simp del: request_finish.simps(2), auto simp: request_finish.simps(2) split: prod.split sum.split)
qed

end
