(* ===== verification/System_Run.thy ===== *)
theory System_Run
  imports System
begin

text \<open>
  The states and steps of the running program: the goroutines of \<open>main\<close> over one world. A
  step is one call of one goroutine, any goroutine that can move may move, and the results of
  the calls, failures included, are whatever the services allow. Two history variables record
  what no goroutine reads: the tasks whose action has returned an output, and the events
  whose decrement took effect.
\<close>

section \<open>States\<close>

record 'h sys =
  sys_world :: "'h world"
  sys_workers :: "worker_pc list"
  sys_coord :: coord_pc
  sys_completed :: "TaskCompletedEvent option"
  sys_terminated :: "TaskTerminatedEvent option"
  sys_requests :: "request_pc list"
  sys_succeeded :: "uuid list"
  sys_handled :: "(uuid \<times> bool) list"

text \<open>
  \<open>main\<close> starts nine goroutines of the main worker and one of the retry worker, the
  coordinator with its two subscriber goroutines, each of which holds at most one event that
  the coordinator has not taken yet, and a goroutine per request.
\<close>

definition worker_of :: "'h server \<Rightarrow> nat \<Rightarrow> 'h Worker" where
  "worker_of sv k = (if k < sv_mainWorkers sv then sv_mainWorker sv else sv_retryWorker sv)"

definition sys_init :: "'h server \<Rightarrow> 'h world \<Rightarrow> 'h sys" where
  "sys_init sv w =
     \<lparr>sys_world = w, sys_workers = replicate (sv_mainWorkers sv + sv_retryWorkers sv) W_idle,
      sys_coord = C_idle, sys_completed = None, sys_terminated = None, sys_requests = [],
      sys_succeeded = [], sys_handled = []\<rparr>"

text \<open>The history a step leaves.\<close>

fun success_of :: "worker_pc \<Rightarrow> worker_pc \<Rightarrow> uuid list" where
  "success_of (W_claim _) (W_complete task out) = [ID task]"
| "success_of _ _ = []"

fun handled_of :: "(Task \<Rightarrow> string \<Rightarrow> bool) \<Rightarrow> coord_pc \<Rightarrow> 'h world \<Rightarrow> 'h world \<Rightarrow> (uuid \<times> bool) list" where
  "handled_of dep (C_decrement ev) w w' =
     (if tasks_rewritten (children dep (tc_ExecutionID ev) (tc_RefID ev)) decremented w w'
      then [(tc_TaskID ev, True)] else [])"
| "handled_of dep (C_taint ev) w w' =
     (if tasks_rewritten (children dep (tt_ExecutionID ev) (tt_RefID ev)) tainted w w'
      then [(tt_TaskID ev, False)] else [])"
| "handled_of dep _ w w' = []"

section \<open>Requests the model considers\<close>

text \<open>
  The mapper accepts any request that binds. The system is studied on requests whose reference
  identifiers are distinct and need no escaping in JSON, whose dependency lists have no
  duplicates and whose actions are registered. Outside these bounds the resolution goes wrong:
  the theories \<open>Store_Properties\<close> and \<open>App_Properties\<close> prove it for a task that lists a parent
  twice, and for one whose action nobody registered. Names that no task has and cycles are allowed.
\<close>

definition sane_task :: "TaskRegistry \<Rightarrow> TaskDTO \<Rightarrow> bool" where
  "sane_task reg d \<longleftrightarrow> plain (dto_RefID d) \<and> reg (dto_Action d) \<noteq> None \<and>
     (case dto_Dependencies d of None \<Rightarrow> True | Some ds \<Rightarrow> distinct ds)"

definition sane_request :: "TaskRegistry \<Rightarrow> CreateWorkflowRequest \<Rightarrow> bool" where
  "sane_request reg req \<longleftrightarrow> distinct (map dto_RefID (req_Tasks req)) \<and> list_all (sane_task reg) (req_Tasks req)"

section \<open>Steps\<close>

inductive sys_step :: "'h services \<Rightarrow> 'h server \<Rightarrow> 'h sys \<Rightarrow> 'h sys \<Rightarrow> bool"
  for svc :: "'h services" and sv :: "'h server" where
  worker:
    "k < length (sys_workers s) \<Longrightarrow>
     run_state (worker_step svc (worker_of sv k) Background (sys_workers s ! k)) (sys_world s) = (pc, w) \<Longrightarrow>
     sys_step svc sv s (s\<lparr>sys_world := w, sys_workers := (sys_workers s)[k := pc],
       sys_succeeded := sys_succeeded s @ success_of (sys_workers s ! k) pc\<rparr>)"
| receive_completed:
    "sys_completed s = None \<Longrightarrow>
     run_state (SubscribeToEvents (co_eventBus (sv_coord sv))) (sys_world s) = (x, w) \<Longrightarrow>
     sys_step svc sv s (s\<lparr>sys_world := w, sys_completed := x\<rparr>)"
| receive_terminated:
    "sys_terminated s = None \<Longrightarrow>
     run_state (SubscribeToTerminationEvents (co_eventBus (sv_coord sv))) (sys_world s) = (y, w) \<Longrightarrow>
     sys_step svc sv s (s\<lparr>sys_world := w, sys_terminated := y\<rparr>)"
| take_completed:
    "sys_coord s = C_idle \<Longrightarrow> sys_completed s = Some ev \<Longrightarrow>
     run_state (inc CoordinatorEventsProcessedTotal [''completed'']) (sys_world s) = (u, w) \<Longrightarrow>
     sys_step svc sv s (s\<lparr>sys_world := w, sys_coord := C_decrement ev, sys_completed := None\<rparr>)"
| take_terminated:
    "sys_coord s = C_idle \<Longrightarrow> sys_terminated s = Some ev' \<Longrightarrow>
     run_state (inc CoordinatorEventsProcessedTotal [''terminated'']) (sys_world s) = (u, w) \<Longrightarrow>
     sys_step svc sv s (s\<lparr>sys_world := w, sys_coord := C_taint ev', sys_terminated := None\<rparr>)"
| coordinator:
    "run_state (coord_step svc (sv_coord sv) (sys_coord s)) (sys_world s) = (c, w) \<Longrightarrow>
     sys_step svc sv s (s\<lparr>sys_world := w, sys_coord := c,
       sys_handled := sys_handled s @ handled_of (depends_on svc) (sys_coord s) (sys_world s) w\<rparr>)"
| arrive:
    "sane_request InitRegistry req \<Longrightarrow> ToWorkflowExecution ids clock req = (e, ts) \<Longrightarrow>
     sys_step svc sv s (s\<lparr>sys_requests := sys_requests s @ [R_create e ts]\<rparr>)"
| request:
    "k < length (sys_requests s) \<Longrightarrow>
     run_state (request_step svc (sv_workflowSvc sv) (sys_requests s ! k)) (sys_world s) = (q, w) \<Longrightarrow>
     sys_step svc sv s (s\<lparr>sys_world := w, sys_requests := (sys_requests s)[k := q]\<rparr>)"
| collector:
    "m = RedisQueueDepthCollector_tick svc key \<or> m = DBPoolCollector_tick idle in_use \<Longrightarrow>
     run_state m (sys_world s) = (u, w) \<Longrightarrow>
     sys_step svc sv s (s\<lparr>sys_world := w\<rparr>)"

text \<open>The states the program can reach from an empty database, empty queues and no messages.\<close>

definition empty_world :: "'h world \<Rightarrow> bool" where
  "empty_world w \<longleftrightarrow> task_rows w = [] \<and> exec_rows w = [] \<and>
     redis_list w main_key = [] \<and> redis_list w retry_key = [] \<and>
     inbox w completed_channel = [] \<and> inbox w terminated_channel = []"

inductive reachable :: "'h services \<Rightarrow> 'h server \<Rightarrow> 'h sys \<Rightarrow> bool"
  for svc :: "'h services" and sv :: "'h server" where
  start: "empty_world w \<Longrightarrow> reachable svc sv (sys_init sv w)"
| step: "reachable svc sv s \<Longrightarrow> sys_step svc sv s t \<Longrightarrow> reachable svc sv t"

inductive_cases sys_stepE: "sys_step svc sv s t"

section \<open>Every step evolves the world\<close>

context lawful_services
begin

lemma worker_step_evolves:
  "state_io_rel evolves (worker_step svc
     (NewWorker svc i (NewRedisQueue svc key) (NewRedisQueue svc rkey) (NewTaskRepository svc)
       (NewWorkflowRepository svc) (NewRedisEventBus svc) reg) ctx pc)"
  by (cases pc)
     (auto simp: worker_fields Worker_claimTask_def run_action_def end_claimed_def Let_def
       intro!: evolve_intros queue.Pop_evolves queue.Push_evolves repo.task_repository_evolves
         wrepo.workflow_repository_evolves bus.bus_evolves)

end

end
