(* ===== verification/System_Abstract.thy ===== *)
theory System_Abstract
  imports System_Run
begin

text \<open>
  The abstract specification of the running program: what the database, the queues and the
  channels hold as far as the resolution of dependencies is concerned, and the moves each
  goroutine may make on it. Calls that fail are moves that lose what the goroutine held. The
  invariants of the program are proved here, on the moves; \<open>System_Refinement\<close> shows that every
  step of the code is a move.
\<close>

section \<open>The board\<close>

record info =
  i_ID :: uuid
  i_Exec :: uuid
  i_Ref :: string
  i_Action :: string
  i_Deps :: string
  i_InDegree :: int
  i_Skip :: bool

definition info :: "Task \<Rightarrow> info" where
  "info t = \<lparr>i_ID = ID t, i_Exec = ExecutionID t, i_Ref = RefID t, i_Action = Action t,
             i_Deps = Dependencies t, i_InDegree = InDegree t, i_Skip = SkipHint t\<rparr>"

lemma info_simps [simp]:
  "i_ID (info t) = ID t" "i_Exec (info t) = ExecutionID t" "i_Ref (info t) = RefID t"
  "i_Action (info t) = Action t" "i_Deps (info t) = Dependencies t" "i_InDegree (info t) = InDegree t"
  "i_Skip (info t) = SkipHint t"
  by (simp_all add: info_def)

record board =
  b_tasks :: "info list"
  b_execs :: "uuid set"
  b_main :: "uuid list"
  b_retry :: "uuid list"
  b_completed :: "TaskCompletedEvent list"
  b_terminated :: "TaskTerminatedEvent list"

definition deps :: "info \<Rightarrow> string set" where
  "deps x = (case string_array (i_Deps x) of None \<Rightarrow> {} | Some ds \<Rightarrow> set ds)"

definition waits_for :: "uuid \<Rightarrow> string \<Rightarrow> info \<Rightarrow> bool" where
  "waits_for ex p x \<longleftrightarrow> i_Exec x = ex \<and> p \<in> deps x"

definition lowered :: "info \<Rightarrow> info" where
  "lowered x = x\<lparr>i_InDegree := i_InDegree x - 1\<rparr>"

definition marked :: "info \<Rightarrow> info" where
  "marked x = x\<lparr>i_InDegree := i_InDegree x - 1, i_Skip := True\<rparr>"

lemma deps_simps [simp]:
  "deps (x\<lparr>i_InDegree := n\<rparr>) = deps x" "deps (x\<lparr>i_Skip := b\<rparr>) = deps x"
  by (simp_all add: deps_def)

lemma lowered_simps [simp]:
  "i_ID (lowered x) = i_ID x" "i_Exec (lowered x) = i_Exec x" "i_Ref (lowered x) = i_Ref x"
  "i_Action (lowered x) = i_Action x" "i_Deps (lowered x) = i_Deps x" "deps (lowered x) = deps x"
  "i_InDegree (lowered x) = i_InDegree x - 1" "i_Skip (lowered x) = i_Skip x"
  "i_ID (marked x) = i_ID x" "i_Exec (marked x) = i_Exec x" "i_Ref (marked x) = i_Ref x"
  "i_Action (marked x) = i_Action x" "i_Deps (marked x) = i_Deps x" "deps (marked x) = deps x"
  "i_InDegree (marked x) = i_InDegree x - 1" "i_Skip (marked x)"
  by (simp_all add: lowered_def marked_def)

section \<open>Moves\<close>

text \<open>Of a worker; \<open>m\<close> says whether it takes from the main queue.\<close>

inductive worker_move :: "bool \<Rightarrow> worker_pc \<Rightarrow> board \<Rightarrow> worker_pc \<Rightarrow> board \<Rightarrow> bool" where
  lose: "worker_move m pc b W_idle b"
| pop_main: "b_main b = i # is \<Longrightarrow> pc' = W_idle \<or> pc' = W_find i \<Longrightarrow>
    worker_move True W_idle b pc' (b\<lparr>b_main := is\<rparr>)"
| pop_retry: "b_retry b = i # is \<Longrightarrow> pc' = W_idle \<or> pc' = W_find i \<Longrightarrow>
    worker_move False W_idle b pc' (b\<lparr>b_retry := is\<rparr>)"
| find: "info t \<in> set (b_tasks b) \<Longrightarrow>
    worker_move m (W_find (ID t)) b (if SkipHint t then W_skip t else W_claim t) b"
| skip: "worker_move m (W_skip t) b (W_skip_publish t) b"
| skip_publish: "worker_move m (W_skip_publish t) b W_idle
    (b\<lparr>b_terminated := b_terminated b @ [terminated_event t TaskTerminationSkipped ''skipped due to parent task failure'']\<rparr>)"
| run: "info t' = info t \<Longrightarrow> pc' = W_complete t' out \<or> pc' = W_retry t' \<or> pc' = W_fail t' err \<Longrightarrow>
    worker_move m (W_claim t) b pc' b"
| complete: "worker_move m (W_complete t out) b (W_complete_publish t) b"
| complete_publish: "worker_move m (W_complete_publish t) b W_idle
    (b\<lparr>b_completed := b_completed b @ [completed_event t]\<rparr>)"
| retry: "worker_move m (W_retry t) b (W_retry_push t) b"
| retry_push: "worker_move m (W_retry_push t) b W_idle (b\<lparr>b_retry := b_retry b @ [ID t]\<rparr>)"
| fail: "worker_move m (W_fail t err) b (W_fail_execution t err) b"
| fail_execution: "worker_move m (W_fail_execution t err) b (W_fail_publish t err) b"
| fail_publish: "worker_move m (W_fail_publish t err) b W_idle
    (b\<lparr>b_terminated := b_terminated b @ [terminated_event t TaskTerminationFailed (Error err)]\<rparr>)"

text \<open>Of the coordinator, with the events whose decrement took effect.\<close>

fun coord_tokens :: "coord_pc \<Rightarrow> uuid list" where
  "coord_tokens (C_decrement ev) = [tc_TaskID ev]"
| "coord_tokens (C_taint ev) = [tt_TaskID ev]"
| "coord_tokens (C_queue ids n) = ids"
| "coord_tokens (C_skip_queue ids n ty) = ids"
| "coord_tokens _ = []"

definition released :: "uuid \<Rightarrow> string \<Rightarrow> info list \<Rightarrow> uuid multiset" where
  "released ex p xs = mset (map i_ID (filter (\<lambda>x. waits_for ex p x \<and> i_InDegree x = 1) xs))"

definition holds_event :: "coord_pc \<Rightarrow> bool" where
  "holds_event pc \<longleftrightarrow> (\<exists>ev. pc = C_decrement ev) \<or> (\<exists>ev. pc = C_taint ev)"

inductive coord_move :: "coord_pc \<Rightarrow> board \<Rightarrow> (uuid \<times> bool) list \<Rightarrow> coord_pc \<Rightarrow> board \<Rightarrow> bool" where
  silent: "coord_tokens pc' = [] \<Longrightarrow> \<not> holds_event pc' \<Longrightarrow> coord_move pc b [] pc' b"
| decrement: "mset (coord_tokens pc') \<subseteq># released (tc_ExecutionID ev) (tc_RefID ev) (b_tasks b) \<Longrightarrow>
    \<not> holds_event pc' \<Longrightarrow>
    coord_move (C_decrement ev) b [(tc_TaskID ev, True)] pc'
      (b\<lparr>b_tasks := update_where (waits_for (tc_ExecutionID ev) (tc_RefID ev)) lowered (b_tasks b)\<rparr>)"
| taint: "mset (coord_tokens pc') \<subseteq># released (tt_ExecutionID ev) (tt_RefID ev) (b_tasks b) \<Longrightarrow>
    \<not> holds_event pc' \<Longrightarrow>
    coord_move (C_taint ev) b [(tt_TaskID ev, False)] pc'
      (b\<lparr>b_tasks := update_where (waits_for (tt_ExecutionID ev) (tt_RefID ev)) marked (b_tasks b)\<rparr>)"
| queue: "coord_tokens pc = i # coord_tokens pc' \<Longrightarrow> \<not> holds_event pc \<Longrightarrow> \<not> holds_event pc' \<Longrightarrow>
    b' = b \<or> b' = b\<lparr>b_main := b_main b @ [i]\<rparr> \<Longrightarrow> coord_move pc b [] pc' b'"

text \<open>Of a request.\<close>

definition sane_submission :: "TaskRegistry \<Rightarrow> WorkflowExecution \<Rightarrow> Task list \<Rightarrow> bool" where
  "sane_submission reg e ts \<longleftrightarrow> distinct (map RefID ts) \<and> we_Status e \<noteq> WorkflowCompleted \<and>
     we_Status e \<noteq> WorkflowFailed \<and>
     (\<forall>t \<in> set ts. Status t \<noteq> StatusCompleted \<and> Status t \<noteq> StatusFailed \<and> Status t \<noteq> StatusSkipped \<and>
        ExecutionID t = we_ID e \<and> plain (RefID t) \<and> reg (Action t) \<noteq> None \<and> \<not> SkipHint t \<and>
        (\<exists>ds. Dependencies t = marshal_dependencies ds \<and> InDegree t = slice_len ds \<and>
           (case ds of None \<Rightarrow> True | Some xs \<Rightarrow> distinct xs)))"

inductive request_move :: "request_pc \<Rightarrow> board \<Rightarrow> request_pc \<Rightarrow> board \<Rightarrow> bool" where
  give_up: "request_move q b (R_done r) b"
| create: "we_ID e \<notin> b_execs b \<Longrightarrow> distinct (map ID ts) \<Longrightarrow> ID ` set ts \<inter> i_ID ` set (b_tasks b) = {} \<Longrightarrow>
    q' = R_done r \<or> q' = R_push e (workflowService_getRootTasks ts) \<Longrightarrow>
    request_move (R_create e ts) b q'
      (b\<lparr>b_tasks := b_tasks b @ map info ts, b_execs := insert (we_ID e) (b_execs b)\<rparr>)"
| push: "b' = b \<or> b' = b\<lparr>b_main := b_main b @ [ID t]\<rparr> \<Longrightarrow> q' = R_done r \<or> q' = R_push e ts \<Longrightarrow>
    request_move (R_push e (t # ts)) b q' b'"

section \<open>The abstract system\<close>

record asys =
  a_board :: board
  a_workers :: "worker_pc list"
  a_coord :: coord_pc
  a_completed :: "TaskCompletedEvent option"
  a_terminated :: "TaskTerminatedEvent option"
  a_requests :: "request_pc list"
  a_succeeded :: "uuid list"
  a_handled :: "(uuid \<times> bool) list"

inductive move :: "TaskRegistry \<Rightarrow> asys \<Rightarrow> asys \<Rightarrow> bool" for reg where
  worker: "k < length (a_workers a) \<Longrightarrow> worker_move m (a_workers a ! k) (a_board a) pc b \<Longrightarrow>
    move reg a (a\<lparr>a_board := b, a_workers := (a_workers a)[k := pc],
      a_succeeded := a_succeeded a @ success_of (a_workers a ! k) pc\<rparr>)"
| receive_completed: "a_completed a = None \<Longrightarrow> b_completed (a_board a) = ev # evs \<Longrightarrow> x = None \<or> x = Some ev \<Longrightarrow>
    move reg a (a\<lparr>a_board := (a_board a)\<lparr>b_completed := evs\<rparr>, a_completed := x\<rparr>)"
| receive_terminated: "a_terminated a = None \<Longrightarrow> b_terminated (a_board a) = ev' # evs' \<Longrightarrow> y = None \<or> y = Some ev' \<Longrightarrow>
    move reg a (a\<lparr>a_board := (a_board a)\<lparr>b_terminated := evs'\<rparr>, a_terminated := y\<rparr>)"
| take_completed: "a_coord a = C_idle \<Longrightarrow> a_completed a = Some ev \<Longrightarrow>
    move reg a (a\<lparr>a_coord := C_decrement ev, a_completed := None\<rparr>)"
| take_terminated: "a_coord a = C_idle \<Longrightarrow> a_terminated a = Some ev' \<Longrightarrow>
    move reg a (a\<lparr>a_coord := C_taint ev', a_terminated := None\<rparr>)"
| coordinator: "coord_move (a_coord a) (a_board a) hs c b \<Longrightarrow>
    move reg a (a\<lparr>a_board := b, a_coord := c, a_handled := a_handled a @ hs\<rparr>)"
| arrive: "sane_submission reg e ts \<Longrightarrow>
    move reg a (a\<lparr>a_requests := a_requests a @ [R_create e ts]\<rparr>)"
| request: "k < length (a_requests a) \<Longrightarrow> request_move (a_requests a ! k) (a_board a) q b \<Longrightarrow>
    move reg a (a\<lparr>a_board := b, a_requests := (a_requests a)[k := q]\<rparr>)"
| stay: "move reg a a"

end
