(* ===== verification/System_Tokens.thy ===== *)
theory System_Tokens
  imports System_Abstract
begin

text \<open>
  Where a task can be while it is on its way: waiting for its parents in the database, in one of
  the two queues, in the hands of a goroutine, in an event, or already accounted for by the
  coordinator. A task is in one place at most, since every move takes it out of the place it
  was in: no task is ever processed by two goroutines at once, and none succeeds twice.
\<close>

section \<open>The places of a task\<close>

fun worker_tokens :: "worker_pc \<Rightarrow> uuid list" where
  "worker_tokens W_idle = []"
| "worker_tokens (W_find i) = [i]"
| "worker_tokens (W_skip t) = [ID t]"
| "worker_tokens (W_skip_publish t) = [ID t]"
| "worker_tokens (W_claim t) = [ID t]"
| "worker_tokens (W_complete t out) = [ID t]"
| "worker_tokens (W_complete_publish t) = [ID t]"
| "worker_tokens (W_retry t) = [ID t]"
| "worker_tokens (W_retry_push t) = [ID t]"
| "worker_tokens (W_fail t err) = [ID t]"
| "worker_tokens (W_fail_execution t err) = [ID t]"
| "worker_tokens (W_fail_publish t err) = [ID t]"
| "worker_tokens (W_unknown t) = [ID t]"
| "worker_tokens (W_unknown_publish t) = [ID t]"
| "worker_tokens (W_unknown_execution t) = [ID t]"

text \<open>A worker that holds a task whose action has returned an output.\<close>

fun succeeding :: "worker_pc \<Rightarrow> bool" where
  "succeeding (W_complete t out) = True"
| "succeeding (W_complete_publish t) = True"
| "succeeding _ = False"

fun request_tokens :: "request_pc \<Rightarrow> uuid list" where
  "request_tokens (R_push e ts) = map ID ts"
| "request_tokens _ = []"

definition slots :: "('a \<Rightarrow> 'b list) \<Rightarrow> 'a list \<Rightarrow> 'b multiset" where
  "slots f xs = mset (concat (map f xs))"

definition waiting :: "info list \<Rightarrow> uuid multiset" where
  "waiting xs = mset (map i_ID (filter (\<lambda>x. 0 < i_InDegree x) xs))"

definition queued :: "board \<Rightarrow> uuid multiset" where
  "queued b = waiting (b_tasks b) + mset (b_main b) + mset (b_retry b)"

definition announced :: "board \<Rightarrow> uuid multiset" where
  "announced b = mset (map tc_TaskID (b_completed b)) + mset (map tt_TaskID (b_terminated b))"

definition task_ids :: "board \<Rightarrow> uuid multiset" where
  "task_ids b = mset (map i_ID (b_tasks b))"

text \<open>All places, and the places from which a task may still be run.\<close>

definition coord_places :: "asys \<Rightarrow> uuid multiset" where
  "coord_places a = mset (coord_tokens (a_coord a)) + mset (map fst (a_handled a)) +
     (case a_completed a of None \<Rightarrow> {#} | Some ev \<Rightarrow> {#tc_TaskID ev#}) +
     (case a_terminated a of None \<Rightarrow> {#} | Some ev \<Rightarrow> {#tt_TaskID ev#})"

definition places :: "asys \<Rightarrow> uuid multiset" where
  "places a = queued (a_board a) + announced (a_board a) + coord_places a +
     slots worker_tokens (a_workers a) + slots request_tokens (a_requests a)"

definition worker_live :: "worker_pc \<Rightarrow> uuid list" where
  "worker_live pc = (if succeeding pc then [] else worker_tokens pc)"

definition coord_live :: "coord_pc \<Rightarrow> uuid list" where
  "coord_live pc = (if holds_event pc then [] else coord_tokens pc)"

definition live :: "asys \<Rightarrow> uuid multiset" where
  "live a = queued (a_board a) + mset (coord_live (a_coord a)) +
     slots worker_live (a_workers a) +
     slots request_tokens (a_requests a)"

section \<open>One slot of a list\<close>

text \<open>What the other slots hold.\<close>

definition others :: "('a \<Rightarrow> 'b list) \<Rightarrow> nat \<Rightarrow> 'a list \<Rightarrow> 'b multiset" where
  "others f k xs = slots f (take k xs @ drop (Suc k) xs)"

lemma slots_split: "k < length xs \<Longrightarrow> slots f xs = mset (f (xs ! k)) + others f k xs"
  unfolding others_def slots_def by (subst (1) id_take_nth_drop [of k xs]) simp_all

lemma slots_update: "k < length xs \<Longrightarrow> slots f (xs[k := y]) = mset (f y) + others f k xs"
  by (simp add: others_def slots_def upd_conv_take_nth_drop)

lemma slots_simps [simp]: "slots f [] = {#}" "slots f (xs @ [x]) = slots f xs + mset (f x)"
  by (simp_all add: slots_def)

lemma slots_replicate [simp]: "f x = [] \<Longrightarrow> slots f (replicate n x) = {#}"
  by (induction n) (simp_all add: slots_def)

lemma waiting_append [simp]: "waiting (xs @ ys) = waiting xs + waiting ys"
  by (simp add: waiting_def)

lemma waiting_released:
  assumes "\<And>x. i_ID (f x) = i_ID x" and "\<And>x. i_InDegree (f x) = i_InDegree x - 1"
  shows "waiting (update_where (waits_for ex p) f xs) + released ex p xs = waiting xs"
  by (induction xs) (use assms in \<open>auto simp: waiting_def released_def\<close>)

lemma ids_update:
  "(\<And>x. i_ID (f x) = i_ID x) \<Longrightarrow> mset (map i_ID (update_where P f xs)) = mset (map i_ID xs)"
  by (simp add: map_update_where)

section \<open>Every move takes a task out of the place it was in\<close>

lemma worker_move_tokens:
  assumes "worker_move m pc b pc' b'"
  shows "b_tasks b' = b_tasks b"
    and "mset (worker_tokens pc') + (queued b' + announced b') \<subseteq># mset (worker_tokens pc) + (queued b + announced b)"
    and "mset (worker_live pc') + (queued b' + mset (success_of pc pc'))
      \<subseteq># mset (worker_live pc) + queued b"
  using assms
  by (induction rule: worker_move.induct)
     (auto simp: queued_def announced_def completed_event_def terminated_event_def
       info_def worker_live_def subset_eq_diff_conv)

lemma coord_move_tokens:
  assumes "coord_move pc b hs pc' b'"
  shows "task_ids b' = task_ids b"
    and "mset (coord_tokens pc') + mset (map fst hs) + queued b' + announced b' \<subseteq>#
         mset (coord_tokens pc) + queued b + announced b"
    and "mset (coord_live pc') + queued b' \<subseteq>#
         mset (coord_live pc) + queued b"
proof -
  have release: "mset c + waiting (update_where (waits_for ex p) f xs) \<subseteq># waiting xs"
    if "mset c \<subseteq># released ex p xs" and "f = lowered \<or> f = marked" for c ex p f xs
    using that(1) waiting_released [of f ex p xs] that(2)
    by (metis lowered_simps(1,7,9,15) subset_mset.add_left_mono union_commute)
  show "task_ids b' = task_ids b"
    using assms by (induction rule: coord_move.induct) (auto simp: task_ids_def ids_update simp del: mset_map)
  show "mset (coord_tokens pc') + mset (map fst hs) + queued b' + announced b' \<subseteq>#
        mset (coord_tokens pc) + queued b + announced b"
    using assms
  proof (induction rule: coord_move.induct)
    case (decrement pc' ev b)
    from release [OF decrement(1)] show ?case by (simp add: queued_def announced_def)
  next
    case (taint pc' ev b)
    from release [OF taint(1)] show ?case by (simp add: queued_def announced_def)
  qed (auto simp: queued_def announced_def)
  show "mset (coord_live pc') + queued b' \<subseteq>#
        mset (coord_live pc) + queued b"
    using assms
  proof (induction rule: coord_move.induct)
    case (decrement pc' ev b)
    from release [OF decrement(1)] decrement(2) show ?case by (simp add: queued_def holds_event_def coord_live_def)
  next
    case (taint pc' ev b)
    from release [OF taint(1)] taint(2) show ?case by (simp add: queued_def holds_event_def coord_live_def)
  qed (auto simp: queued_def coord_live_def)
qed

text \<open>A stored workflow adds its tasks; each of them either waits or is pushed as a root.\<close>

lemma stored_tokens:
  "waiting (map info ts) + mset (map ID (workflowService_getRootTasks ts)) \<subseteq># mset (map ID ts)"
  by (induction ts) (auto simp: getRootTasks_filter waiting_def intro: subset_mset.order_trans)

lemma waiting_stored: "waiting (map info ts) \<subseteq># mset (map ID ts)"
  using stored_tokens [of ts] by (rule subset_mset.order_trans [rotated]) simp

lemma request_move_tokens:
  assumes "request_move q b q' b'"
  shows "\<exists>new. task_ids b' = task_ids b + new \<and>
     mset (request_tokens q') + (queued b' + announced b') \<subseteq># mset (request_tokens q) + (queued b + announced b) + new \<and>
     mset (request_tokens q') + queued b' \<subseteq># mset (request_tokens q) + queued b + new"
  using assms
proof (induction rule: request_move.induct)
  case (create e b ts q')
  then show ?case
    by (intro exI [of _ "mset (map ID ts)"])
       (auto simp: task_ids_def queued_def announced_def comp_def stored_tokens [simplified] waiting_stored [simplified]
         ac_simps)
qed (auto simp: task_ids_def queued_def announced_def intro!: exI [of _ "{#}"])

section \<open>The invariant\<close>

definition inv_tokens :: "asys \<Rightarrow> bool" where
  "inv_tokens a \<longleftrightarrow> distinct (map i_ID (b_tasks (a_board a))) \<and> places a \<subseteq># task_ids (a_board a) \<and>
     live a + mset (a_succeeded a) \<subseteq># task_ids (a_board a)"

lemma inv_tokensI:
  assumes "inv_tokens a" and "task_ids (a_board a') = task_ids (a_board a) + new"
    and "distinct (map i_ID (b_tasks (a_board a')))"
    and "places a' \<subseteq># places a + new"
    and "live a' + mset (a_succeeded a') \<subseteq># live a + mset (a_succeeded a) + new"
  shows "inv_tokens a'"
  using assms by (auto simp: inv_tokens_def intro: subset_mset.order_trans)

lemma request_move_distinct:
  "request_move q b q' b' \<Longrightarrow> distinct (map i_ID (b_tasks b)) \<Longrightarrow> distinct (map i_ID (b_tasks b'))"
  by (induction rule: request_move.induct) (auto simp: comp_def)

lemma inv_tokens_same:
  assumes "inv_tokens a" and "map i_ID (b_tasks (a_board a')) = map i_ID (b_tasks (a_board a))"
    and "places a' \<subseteq># places a"
    and "live a' + mset (a_succeeded a') \<subseteq># live a + mset (a_succeeded a)"
  shows "inv_tokens a'"
  using assms by (auto simp: inv_tokens_def task_ids_def simp del: mset_map intro: subset_mset.order_trans)

lemma tokens_worker:
  assumes "inv_tokens a" and k: "k < length (a_workers a)" and "worker_move m (a_workers a ! k) (a_board a) pc b"
  shows "inv_tokens (a\<lparr>a_board := b, a_workers := (a_workers a)[k := pc],
    a_succeeded := a_succeeded a @ success_of (a_workers a ! k) pc\<rparr>)"
  using worker_move_tokens [OF assms(3)]
  by (intro inv_tokens_same [OF assms(1)])
     (simp_all add: places_def live_def coord_places_def slots_split [OF k] slots_update [OF k] ac_simps)

lemma coord_move_map_ids:
  "coord_move pc b hs pc' b' \<Longrightarrow> map i_ID (b_tasks b') = map i_ID (b_tasks b)"
  by (induction rule: coord_move.induct) (auto simp: map_update_where)

lemma tokens_coordinator:
  assumes "inv_tokens a" and "coord_move (a_coord a) (a_board a) hs c b"
  shows "inv_tokens (a\<lparr>a_board := b, a_coord := c, a_handled := a_handled a @ hs\<rparr>)"
  using coord_move_tokens [OF assms(2)] coord_move_map_ids [OF assms(2)]
  by (intro inv_tokens_same [OF assms(1)]) (simp_all add: places_def live_def coord_places_def ac_simps)

lemma tokens_request:
  assumes "inv_tokens a" and k: "k < length (a_requests a)" and "request_move (a_requests a ! k) (a_board a) q b"
  shows "inv_tokens (a\<lparr>a_board := b, a_requests := (a_requests a)[k := q]\<rparr>)"
proof -
  obtain new where "task_ids b = task_ids (a_board a) + new"
    "mset (request_tokens q) + (queued b + announced b) \<subseteq>#
       mset (request_tokens (a_requests a ! k)) + (queued (a_board a) + announced (a_board a)) + new"
    "mset (request_tokens q) + queued b \<subseteq># mset (request_tokens (a_requests a ! k)) + queued (a_board a) + new"
    using request_move_tokens [OF assms(3)] by (elim exE conjE) (rule that)
  moreover have "distinct (map i_ID (b_tasks b))"
    using request_move_distinct [OF assms(3)] assms(1) by (simp add: inv_tokens_def)
  ultimately show ?thesis
    by (intro inv_tokensI [OF assms(1), where new = new])
       (simp_all add: places_def live_def coord_places_def slots_split [OF k] slots_update [OF k] ac_simps)
qed

lemma tokens_move:
  assumes "move reg a a'" and "inv_tokens a"
  shows "inv_tokens a'"
  using assms
proof (induction rule: move.induct)
  case (receive_completed a ev evs x)
  then show ?case
    by (intro inv_tokens_same [OF receive_completed(4)])
       (auto simp: places_def live_def coord_places_def queued_def announced_def)
next
  case (receive_terminated a ev evs x)
  then show ?case
    by (intro inv_tokens_same [OF receive_terminated(4)])
       (auto simp: places_def live_def coord_places_def queued_def announced_def)
next
  case (take_completed a ev)
  then show ?case
    by (intro inv_tokens_same [OF take_completed(3)])
       (auto simp: places_def live_def coord_places_def coord_live_def holds_event_def)
next
  case (take_terminated a ev)
  then show ?case
    by (intro inv_tokens_same [OF take_terminated(3)])
       (auto simp: places_def live_def coord_places_def coord_live_def holds_event_def)
next
  case (arrive e ts a)
  then show ?case
    by (intro inv_tokens_same [OF arrive(2)]) (auto simp: places_def live_def coord_places_def)
qed (blast intro: tokens_worker tokens_coordinator tokens_request)+

section \<open>What follows\<close>

lemma others_member: "j < length xs \<Longrightarrow> j \<noteq> k \<Longrightarrow> i \<in> set (f (xs ! j)) \<Longrightarrow> i \<in># others f k xs"
proof -
  assume j: "j < length xs" "j \<noteq> k" and i: "i \<in> set (f (xs ! j))"
  have "xs ! j \<in> set (take k xs @ drop (Suc k) xs)"
  proof (cases "j < k")
    case True
    with j(1) show ?thesis by (auto simp: in_set_conv_nth intro!: exI [of _ j])
  next
    case False
    with j have "drop (Suc k) xs ! (j - Suc k) = xs ! j" "j - Suc k < length (drop (Suc k) xs)" by simp_all
    then show ?thesis by (metis Un_iff nth_mem set_append)
  qed
  with i show ?thesis by (auto simp: others_def slots_def)
qed

text \<open>No task is in two places.\<close>

lemma places_once: "inv_tokens a \<Longrightarrow> places a = M + N \<Longrightarrow> i \<in># M \<Longrightarrow> i \<notin># N"
proof
  assume inv: "inv_tokens a" and split: "places a = M + N" and i: "i \<in># M" "i \<in># N"
  have "count (task_ids (a_board a)) i \<le> 1"
    using inv by (simp add: inv_tokens_def task_ids_def distinct_count_atmost_1 del: mset_map)
  moreover have "count (places a) i \<le> count (task_ids (a_board a)) i"
    using inv by (simp add: inv_tokens_def mset_subset_eq_count)
  moreover have "2 \<le> count (places a) i"
    using i by (simp add: split Suc_leI flip: count_greater_zero_iff)
  ultimately show False by simp
qed

lemma succeeded_distinct: "inv_tokens a \<Longrightarrow> distinct (a_succeeded a)"
  and not_run_again: "inv_tokens a \<Longrightarrow> i \<in> set (a_succeeded a) \<Longrightarrow> i \<notin># live a"
proof -
  assume inv: "inv_tokens a"
  have one: "count (live a) i + count (mset (a_succeeded a)) i \<le> 1" for i
  proof -
    have "count (live a + mset (a_succeeded a)) i \<le> count (task_ids (a_board a)) i"
      using inv by (simp add: inv_tokens_def mset_subset_eq_count del: count_union)
    also have "\<dots> \<le> 1" using inv by (simp add: inv_tokens_def task_ids_def distinct_count_atmost_1 del: mset_map)
    finally show ?thesis by simp
  qed
  show "distinct (a_succeeded a)"
    unfolding distinct_count_atmost_1
  proof
    fix i
    show "count (mset (a_succeeded a)) i = (if i \<in> set (a_succeeded a) then 1 else 0)"
    proof (cases "i \<in> set (a_succeeded a)")
      case True
      then have "0 < count (mset (a_succeeded a)) i" by simp
      with one [of i] True show ?thesis by (simp only: if_True)
    qed simp
  qed
  assume "i \<in> set (a_succeeded a)"
  then have "0 < count (mset (a_succeeded a)) i" by simp
  with one [of i] have "count (live a) i = 0" by (simp only: add_le_same_cancel2)
  then show "i \<notin># live a" by (simp add: not_in_iff)
qed

lemma held_once:
  assumes "inv_tokens a" and "j < length (a_workers a)" and k: "k < length (a_workers a)" and "j \<noteq> k"
    and "i \<in> set (worker_tokens (a_workers a ! j))"
  shows "i \<notin> set (worker_tokens (a_workers a ! k))"
proof -
  have "places a = (queued (a_board a) + announced (a_board a) + coord_places a + others worker_tokens k (a_workers a) +
      slots request_tokens (a_requests a)) + mset (worker_tokens (a_workers a ! k))"
    by (simp add: places_def slots_split [OF k])
  from places_once [OF assms(1) this, of i] others_member [of j "a_workers a" k i worker_tokens] assms(2,4,5) show ?thesis by simp
qed

end
