(* ===== verification/System_Invariant.thy ===== *)
theory System_Invariant
  imports System_Tokens
begin

text \<open>
  The invariant of the abstract system: every in-degree counts the parents whose events have not
  been handled, a child of a terminated parent carries the skip hint, the events and the
  snapshots of the workers belong to stored tasks, and a task is run only after all of its
  dependencies have succeeded.
\<close>

section \<open>Rows up to the fields that change\<close>

definition ident :: "info \<Rightarrow> info" where
  "ident x = x\<lparr>i_InDegree := 0, i_Skip := False\<rparr>"

lemma ident_simps [simp]:
  "i_ID (ident x) = i_ID x" "i_Exec (ident x) = i_Exec x" "i_Ref (ident x) = i_Ref x"
  "i_Action (ident x) = i_Action x" "i_Deps (ident x) = i_Deps x" "deps (ident x) = deps x"
  "ident (lowered x) = ident x" "ident (marked x) = ident x" "ident (ident x) = ident x"
  by (simp_all add: ident_def lowered_def marked_def)

definition rows :: "info list \<Rightarrow> info set" where
  "rows xs = ident ` set xs"

lemma rows_simps [simp]: "rows [] = {}" "rows (xs @ ys) = rows xs \<union> rows ys"
  by (auto simp: rows_def)

lemma rows_update:
  assumes "\<And>x. ident (f x) = ident x"
  shows "rows (update_where P f xs) = rows xs"
  using arg_cong [OF map_update_where [of P ident f xs], of set] assms by (simp add: rows_def)

definition has_row :: "info list \<Rightarrow> uuid \<Rightarrow> uuid \<Rightarrow> string \<Rightarrow> bool" where
  "has_row xs i ex p \<longleftrightarrow> (\<exists>x \<in> rows xs. i_ID x = i \<and> i_Exec x = ex \<and> i_Ref x = p)"

definition one_ref :: "info list \<Rightarrow> bool" where
  "one_ref xs \<longleftrightarrow> (\<forall>x \<in> rows xs. \<forall>y \<in> rows xs. i_Exec x = i_Exec y \<and> i_Ref x = i_Ref y \<longrightarrow> x = y)"

lemma rows_eq:
  "distinct (map i_ID xs) \<Longrightarrow> x \<in> rows xs \<Longrightarrow> y \<in> rows xs \<Longrightarrow> i_ID x = i_ID y \<Longrightarrow> x = y"
  by (auto simp: rows_def dest: distinct_key_unique)

lemma has_row_id: "one_ref xs \<Longrightarrow> has_row xs i ex p \<Longrightarrow> has_row xs j ex p \<Longrightarrow> i = j"
  unfolding has_row_def one_ref_def by metis

lemma has_row_name:
  "distinct (map i_ID xs) \<Longrightarrow> has_row xs i ex p \<Longrightarrow> has_row xs i ex' p' \<Longrightarrow> ex' = ex \<and> p' = p"
  unfolding has_row_def by (metis rows_eq)

lemma has_row_mono: "rows xs \<subseteq> rows ys \<Longrightarrow> has_row xs i ex p \<Longrightarrow> has_row ys i ex p"
  by (auto simp: has_row_def)

lemma has_row_cong: "rows xs = rows ys \<Longrightarrow> has_row xs = has_row ys"
  by (simp add: has_row_def fun_eq_iff)

lemma finite_deps [simp]: "finite (deps x)"
  by (simp add: deps_def split: option.split)

section \<open>Resolved parents\<close>

definition resolved :: "info list \<Rightarrow> (uuid \<times> bool) list \<Rightarrow> bool \<Rightarrow> uuid \<Rightarrow> string \<Rightarrow> bool" where
  "resolved xs hs ok ex p \<longleftrightarrow> (\<exists>i. (i, ok) \<in> set hs \<and> has_row xs i ex p)"

definition unresolved :: "info list \<Rightarrow> (uuid \<times> bool) list \<Rightarrow> info \<Rightarrow> string set" where
  "unresolved xs hs x = {p \<in> deps x. \<not> resolved xs hs True (i_Exec x) p \<and> \<not> resolved xs hs False (i_Exec x) p}"

definition degrees_ok :: "info list \<Rightarrow> (uuid \<times> bool) list \<Rightarrow> bool" where
  "degrees_ok xs hs \<longleftrightarrow> (\<forall>x \<in> set xs. i_InDegree x = int (card (unresolved xs hs x)))"

definition skips_ok :: "info list \<Rightarrow> (uuid \<times> bool) list \<Rightarrow> bool" where
  "skips_ok xs hs \<longleftrightarrow> (\<forall>x \<in> set xs. \<forall>p \<in> deps x. resolved xs hs False (i_Exec x) p \<longrightarrow> i_Skip x)"

lemma resolved_snoc:
  assumes "distinct (map i_ID xs)" and "has_row xs i ex p"
  shows "resolved xs (hs @ [(i, ok)]) b ex' p' \<longleftrightarrow> resolved xs hs b ex' p' \<or> b = ok \<and> ex' = ex \<and> p' = p"
proof -
  have "has_row xs i ex' p' \<longleftrightarrow> ex' = ex \<and> p' = p"
    using has_row_name [OF assms, of ex' p'] assms(2) by blast
  then show ?thesis by (auto simp: resolved_def)
qed

lemma resolved_fresh:
  "one_ref xs \<Longrightarrow> has_row xs i ex p \<Longrightarrow> i \<notin> fst ` set hs \<Longrightarrow> \<not> resolved xs hs ok ex p"
  unfolding resolved_def using has_row_id by force

lemma resolved_update:
  assumes "\<And>x. ident (f x) = ident x"
  shows "resolved (update_where P f xs) = resolved xs"
  using has_row_cong [OF rows_update [OF assms]] by (simp add: resolved_def fun_eq_iff)

lemma unresolved_update:
  assumes "\<And>x. ident (f x) = ident x"
  shows "unresolved (update_where P f xs) = unresolved xs"
  by (simp add: unresolved_def resolved_update [OF assms] fun_eq_iff)

lemma unresolved_snoc:
  assumes "distinct (map i_ID xs)" and "has_row xs i ex p"
  shows "unresolved xs (hs @ [(i, ok)]) x = (if i_Exec x = ex then unresolved xs hs x - {p} else unresolved xs hs x)"
  by (cases ok) (auto simp: unresolved_def resolved_snoc [OF assms])

lemma unresolved_ident: "unresolved xs hs (ident x) = unresolved xs hs x"
  by (simp add: unresolved_def)

lemma unresolved_cong: "ident x = ident y \<Longrightarrow> unresolved xs hs x = unresolved xs hs y"
  by (metis unresolved_ident)

text \<open>Handling the event of a task that was not handled before.\<close>

lemma degrees_handle:
  assumes ok: "degrees_ok xs hs" and f: "f = lowered \<or> f = marked"
    and ids: "distinct (map i_ID xs)" "one_ref xs"
    and i: "has_row xs i ex p" "i \<notin> fst ` set hs"
  shows "degrees_ok (update_where (waits_for ex p) f xs) (hs @ [(i, b)])"
proof -
  have same: "\<And>x. ident (f x) = ident x" "\<And>x. i_InDegree (f x) = i_InDegree x - 1" using f by auto
  have one: "i_InDegree (if waits_for ex p x then f x else x) = int (card (unresolved xs (hs @ [(i, b)]) x))"
    if "x \<in> set xs" for x
  proof -
    have "p \<in> unresolved xs hs x" if "waits_for ex p x"
      using that resolved_fresh [OF ids(2) i] by (auto simp: unresolved_def waits_for_def)
    moreover have "finite (unresolved xs hs x)" by (simp add: unresolved_def)
    ultimately have "card (unresolved xs (hs @ [(i, b)]) x) =
        (if waits_for ex p x then card (unresolved xs hs x) - 1 else card (unresolved xs hs x))"
      and "waits_for ex p x \<Longrightarrow> 0 < card (unresolved xs hs x)"
      by (auto simp: unresolved_snoc [OF ids(1) i(1)] card_gt_0_iff)
        (auto simp: unresolved_def waits_for_def)
    with ok that show ?thesis by (auto simp: degrees_ok_def same(2))
  qed
  show ?thesis
    unfolding degrees_ok_def set_update_where unresolved_update [OF same(1)]
  proof (intro ballI, elim CollectE bexE)
    fix x y assume x: "x \<in> set xs" "y = (if waits_for ex p x then f x else x)"
    then have "unresolved xs (hs @ [(i, b)]) y = unresolved xs (hs @ [(i, b)]) x"
      by (intro unresolved_cong) (simp add: same(1))
    with one [OF x(1)] x(2) show "i_InDegree y = int (card (unresolved xs (hs @ [(i, b)]) y))" by simp
  qed
qed

lemma skips_handle:
  assumes ok: "skips_ok xs hs" and f: "f = (if b then lowered else marked)"
    and ids: "distinct (map i_ID xs)" and i: "has_row xs i ex p"
  shows "skips_ok (update_where (waits_for ex p) f xs) (hs @ [(i, b)])"
proof -
  have same: "\<And>x. ident (f x) = ident x" using f by auto
  have fields: "i_Exec (f x) = i_Exec x" "deps (f x) = deps x" "i_Skip x \<Longrightarrow> i_Skip (f x)" "\<not> b \<Longrightarrow> i_Skip (f x)" for x
    using f by simp_all
  show ?thesis
    using ok unfolding skips_ok_def set_update_where resolved_update [OF same] resolved_snoc [OF ids i]
    by (auto simp: fields waits_for_def) (metis fields(4))
qed

text \<open>Storing a workflow of a new execution.\<close>

lemma has_row_append:
  "has_row (xs @ ys) i ex p \<longleftrightarrow> has_row xs i ex p \<or> has_row ys i ex p"
  by (auto simp: has_row_def)

lemma resolved_append:
  assumes "fst ` set hs \<subseteq> i_ID ` set xs" and "i_ID ` set ys \<inter> i_ID ` set xs = {}"
  shows "resolved (xs @ ys) hs = resolved xs hs"
proof -
  have "\<not> has_row ys i ex p" if "(i, ok) \<in> set hs" for i ok ex p
    using that assms by (force simp: has_row_def rows_def)
  then show ?thesis by (auto simp: resolved_def has_row_append fun_eq_iff)
qed

lemma resolved_exec: "resolved xs hs ok ex p \<Longrightarrow> ex \<in> i_Exec ` set xs"
  by (auto simp: resolved_def has_row_def rows_def)

definition fresh_rows :: "info list \<Rightarrow> bool" where
  "fresh_rows ys \<longleftrightarrow> (\<forall>y \<in> set ys. i_InDegree y = int (card (deps y)))"

lemma degrees_append:
  assumes "degrees_ok xs hs" and "fresh_rows ys" and "resolved (xs @ ys) hs = resolved xs hs"
    and "i_Exec ` set ys \<inter> i_Exec ` set xs = {}"
  shows "degrees_ok (xs @ ys) hs"
proof -
  have old: "unresolved (xs @ ys) hs = unresolved xs hs" by (simp add: unresolved_def assms(3) fun_eq_iff)
  have "unresolved xs hs y = deps y" if "y \<in> set ys" for y
    using that assms(4) resolved_exec [of xs hs _ "i_Exec y"] by (auto simp: unresolved_def)
  with assms(1,2) show ?thesis by (auto simp: degrees_ok_def fresh_rows_def old)
qed

lemma skips_append:
  assumes "skips_ok xs hs" and "resolved (xs @ ys) hs = resolved xs hs"
    and "i_Exec ` set ys \<inter> i_Exec ` set xs = {}"
  shows "skips_ok (xs @ ys) hs"
  using assms(1,3) unfolding skips_ok_def assms(2)
  by (auto dest: resolved_exec)

section \<open>The invariant of the system\<close>

text \<open>The task a worker holds a copy of, and that task when the worker has claimed it to run it.\<close>

fun worker_task :: "worker_pc \<Rightarrow> Task option" where
  "worker_task W_idle = None"
| "worker_task (W_find i) = None"
| "worker_task (W_skip t) = Some t"
| "worker_task (W_skip_publish t) = Some t"
| "worker_task (W_claim t) = Some t"
| "worker_task (W_complete t out) = Some t"
| "worker_task (W_complete_publish t) = Some t"
| "worker_task (W_retry t) = Some t"
| "worker_task (W_retry_push t) = Some t"
| "worker_task (W_fail t err) = Some t"
| "worker_task (W_fail_execution t err) = Some t"
| "worker_task (W_fail_publish t err) = Some t"
| "worker_task (W_unknown t) = Some t"
| "worker_task (W_unknown_publish t) = Some t"
| "worker_task (W_unknown_execution t) = Some t"

fun skipping :: "worker_pc \<Rightarrow> bool" where
  "skipping (W_skip t) = True"
| "skipping (W_skip_publish t) = True"
| "skipping _ = False"

text \<open>A worker on its way out of an unknown action: no registered task gets there.\<close>

fun unregistered :: "worker_pc \<Rightarrow> bool" where
  "unregistered (W_unknown t) = True"
| "unregistered (W_unknown_publish t) = True"
| "unregistered (W_unknown_execution t) = True"
| "unregistered _ = False"

definition well_formed :: "TaskRegistry \<Rightarrow> info \<Rightarrow> bool" where
  "well_formed reg x \<longleftrightarrow> plain (i_Ref x) \<and> reg (i_Action x) \<noteq> None \<and> (\<exists>ds. i_Deps x = marshal_dependencies ds)"

definition inv_rows :: "TaskRegistry \<Rightarrow> asys \<Rightarrow> bool" where
  "inv_rows reg a \<longleftrightarrow> one_ref (b_tasks (a_board a)) \<and>
     (\<forall>x \<in> set (b_tasks (a_board a)). i_Exec x \<in> b_execs (a_board a) \<and> well_formed reg x)"

definition completed_events :: "asys \<Rightarrow> TaskCompletedEvent set" where
  "completed_events a = set (b_completed (a_board a)) \<union> set_option (a_completed a) \<union> {ev. a_coord a = C_decrement ev}"

definition terminated_events :: "asys \<Rightarrow> TaskTerminatedEvent set" where
  "terminated_events a = set (b_terminated (a_board a)) \<union> set_option (a_terminated a) \<union> {ev. a_coord a = C_taint ev}"

definition inv_events :: "asys \<Rightarrow> bool" where
  "inv_events a \<longleftrightarrow>
     (\<forall>ev \<in> completed_events a. has_row (b_tasks (a_board a)) (tc_TaskID ev) (tc_ExecutionID ev) (tc_RefID ev) \<and>
        tc_TaskID ev \<in> set (a_succeeded a)) \<and>
     (\<forall>ev \<in> terminated_events a. has_row (b_tasks (a_board a)) (tt_TaskID ev) (tt_ExecutionID ev) (tt_RefID ev)) \<and>
     (\<forall>i. (i, True) \<in> set (a_handled a) \<longrightarrow> i \<in> set (a_succeeded a))"

definition inv_degrees :: "asys \<Rightarrow> bool" where
  "inv_degrees a \<longleftrightarrow> degrees_ok (b_tasks (a_board a)) (a_handled a) \<and> skips_ok (b_tasks (a_board a)) (a_handled a)"

text \<open>All dependencies of a row are among the given successes.\<close>

definition satisfied :: "info list \<Rightarrow> uuid list \<Rightarrow> info \<Rightarrow> bool" where
  "satisfied xs done x \<longleftrightarrow> (\<forall>p \<in> deps x. \<exists>i \<in> set done. has_row xs i (i_Exec x) p)"

definition worker_ok :: "asys \<Rightarrow> worker_pc \<Rightarrow> bool" where
  "worker_ok a pc \<longleftrightarrow> \<not> unregistered pc \<and> (\<forall>t. worker_task pc = Some t \<longrightarrow> ident (info t) \<in> rows (b_tasks (a_board a)) \<and>
     (succeeding pc \<longrightarrow> ID t \<in> set (a_succeeded a)) \<and>
     (\<not> skipping pc \<longrightarrow> satisfied (b_tasks (a_board a)) (a_succeeded a) (info t)))"

definition inv_workers :: "asys \<Rightarrow> bool" where
  "inv_workers a \<longleftrightarrow> (\<forall>pc \<in> set (a_workers a). worker_ok a pc)"

definition inv_requests :: "TaskRegistry \<Rightarrow> asys \<Rightarrow> bool" where
  "inv_requests reg a \<longleftrightarrow> (\<forall>e ts. R_create e ts \<in> set (a_requests a) \<longrightarrow> sane_submission reg e ts)"

text \<open>The successes are in a topological order of the dependencies.\<close>

fun in_order :: "info list \<Rightarrow> uuid list \<Rightarrow> uuid list \<Rightarrow> bool" where
  "in_order xs done [] \<longleftrightarrow> True"
| "in_order xs done (i # js) \<longleftrightarrow>
     (\<forall>x \<in> rows xs. i_ID x = i \<longrightarrow> satisfied xs done x) \<and> in_order xs (done @ [i]) js"

definition inv_order :: "asys \<Rightarrow> bool" where
  "inv_order a \<longleftrightarrow> in_order (b_tasks (a_board a)) [] (a_succeeded a)"

definition sys_inv :: "TaskRegistry \<Rightarrow> asys \<Rightarrow> bool" where
  "sys_inv reg a \<longleftrightarrow> inv_tokens a \<and> inv_rows reg a \<and> inv_events a \<and> inv_degrees a \<and> inv_workers a \<and>
     inv_requests reg a \<and> inv_order a"

end
