(* ===== verification/System_Safety.thy ===== *)
theory System_Safety
  imports System_Invariant
begin

text \<open>Every move preserves the invariant, one group of goroutines at a time.\<close>

lemma satisfied_mono:
  "satisfied xs done x \<Longrightarrow> rows xs \<subseteq> rows ys \<Longrightarrow> set done \<subseteq> set done' \<Longrightarrow> satisfied ys done' x"
  unfolding satisfied_def by (blast intro: has_row_mono)

lemma satisfied_ident: "ident x = ident y \<Longrightarrow> satisfied xs done x = satisfied xs done y"
  unfolding satisfied_def by (metis ident_simps(2,6))

lemma worker_ok_mono:
  "worker_ok a pc \<Longrightarrow> rows (b_tasks (a_board a)) \<subseteq> rows (b_tasks (a_board a')) \<Longrightarrow>
   set (a_succeeded a) \<subseteq> set (a_succeeded a') \<Longrightarrow> worker_ok a' pc"
  unfolding worker_ok_def by (blast intro: satisfied_mono)

lemma inv_workers_mono:
  "inv_workers a \<Longrightarrow> a_workers a' = a_workers a \<Longrightarrow>
   rows (b_tasks (a_board a)) \<subseteq> rows (b_tasks (a_board a')) \<Longrightarrow>
   set (a_succeeded a) \<subseteq> set (a_succeeded a') \<Longrightarrow> inv_workers a'"
  unfolding inv_workers_def using worker_ok_mono by metis

lemma inv_workers_update:
  assumes "inv_workers a" and "worker_ok a' pc" and "a_workers a' = (a_workers a)[k := pc]"
    and "rows (b_tasks (a_board a)) \<subseteq> rows (b_tasks (a_board a'))"
    and "set (a_succeeded a) \<subseteq> set (a_succeeded a')"
  shows "inv_workers a'"
  unfolding inv_workers_def
proof
  fix q assume "q \<in> set (a_workers a')"
  then have "q = pc \<or> q \<in> set (a_workers a)"
    using set_update_subset_insert [of "a_workers a" k pc] assms(3) by auto
  then show "worker_ok a' q"
    using assms(1,2) worker_ok_mono [OF _ assms(4,5)] by (auto simp: inv_workers_def)
qed

lemma in_order_append:
  "in_order xs done (us @ vs) \<longleftrightarrow> in_order xs done us \<and> in_order xs (done @ us) vs"
  by (induction us arbitrary: "done") auto

lemma in_order_cong:
  assumes "rows ys = rows xs"
  shows "in_order ys done js = in_order xs done js"
  by (induction js arbitrary: "done") (simp_all add: assms satisfied_def has_row_cong [OF assms])

lemma succeeded_rows: "inv_tokens a \<Longrightarrow> i \<in> set (a_succeeded a) \<Longrightarrow> i \<in> i_ID ` set (b_tasks (a_board a))"
  and handled_rows: "inv_tokens a \<Longrightarrow> fst ` set (a_handled a) \<subseteq> i_ID ` set (b_tasks (a_board a))"
  by (auto simp: inv_tokens_def task_ids_def places_def coord_places_def dest!: mset_subset_eqD)

section \<open>Workers\<close>

text \<open>A task that a worker has taken from a queue waits for nothing.\<close>

lemma held_not_waiting:
  assumes "inv_tokens a" and k: "k < length (a_workers a)" and "i \<in> set (worker_tokens (a_workers a ! k))"
  shows "i \<notin># waiting (b_tasks (a_board a))"
proof -
  have "places a = mset (worker_tokens (a_workers a ! k)) + (others worker_tokens k (a_workers a) +
      queued (a_board a) + announced (a_board a) + coord_places a + slots request_tokens (a_requests a))"
    by (simp add: places_def slots_split [OF k])
  from places_once [OF assms(1) this, of i] assms(3) show ?thesis by (simp add: queued_def)
qed

lemma released_satisfied:
  assumes "inv_degrees a" and "inv_events a" and "x \<in> set (b_tasks (a_board a))"
    and "i_ID x \<notin># waiting (b_tasks (a_board a))" and "\<not> i_Skip x"
  shows "satisfied (b_tasks (a_board a)) (a_succeeded a) x"
proof -
  have "\<not> 0 < i_InDegree x" using assms(3,4) by (auto simp: waiting_def)
  moreover have "i_InDegree x = int (card (unresolved (b_tasks (a_board a)) (a_handled a) x))"
    using assms(1,3) by (simp add: inv_degrees_def degrees_ok_def)
  ultimately have none: "unresolved (b_tasks (a_board a)) (a_handled a) x = {}"
    by (simp add: unresolved_def)
  have "\<not> resolved (b_tasks (a_board a)) (a_handled a) False (i_Exec x) p" if "p \<in> deps x" for p
    using assms(1,3,5) that by (auto simp: inv_degrees_def skips_ok_def)
  with none have "resolved (b_tasks (a_board a)) (a_handled a) True (i_Exec x) p" if "p \<in> deps x" for p
    using that by (auto simp: unresolved_def)
  with assms(2) show ?thesis unfolding satisfied_def resolved_def inv_events_def by blast
qed

lemma worker_move_ok:
  assumes "sys_inv reg a" and k: "k < length (a_workers a)" and "worker_move m pc b pc' b'"
    and "pc = a_workers a ! k" and "b = a_board a"
    and "a' = a\<lparr>a_board := b', a_workers := (a_workers a)[k := pc'], a_succeeded := a_succeeded a @ success_of pc pc'\<rparr>"
  shows "worker_ok a' pc'"
proof -
  have same: "b_tasks b' = b_tasks (a_board a)" using worker_move_tokens(1) [OF assms(3)] assms(5) by simp
  have "worker_ok a pc" using assms(1,2,4) by (simp add: sys_inv_def inv_workers_def)
  then have now: "worker_ok a' pc"
    by (rule worker_ok_mono) (simp_all add: assms(6) same)
  show ?thesis using assms(3)
  proof cases
    case (find t)
    have x: "info t \<in> set (b_tasks (a_board a))" using find assms(5) by simp
    have "ID t \<in> set (worker_tokens pc)" using find by simp
    then have "ID t \<notin># waiting (b_tasks (a_board a))"
      using held_not_waiting [of a k "ID t"] assms(1,2,4) by (simp add: sys_inv_def)
    with released_satisfied [OF _ _ x] assms(1) have "\<not> SkipHint t \<Longrightarrow> satisfied (b_tasks (a_board a)) (a_succeeded a) (info t)"
      by (simp add: sys_inv_def)
    with x find show ?thesis by (auto simp: worker_ok_def assms(5,6) same rows_def)
  next
    case (run t' t out err)
    with now show ?thesis by (auto simp: worker_ok_def assms(6) same)
  qed (use now in \<open>auto simp: worker_ok_def\<close>)
qed

lemma worker_move_events:
  assumes "worker_move m pc b pc' b'"
  shows "set (b_completed b') \<subseteq> set (b_completed b) \<union>
      {completed_event t | t. worker_task pc = Some t \<and> succeeding pc}"
    and "set (b_terminated b') \<subseteq> set (b_terminated b) \<union>
      {terminated_event t ty msg | t ty msg. worker_task pc = Some t}"
    and "b_execs b' = b_execs b"
    and "i \<in> set (success_of pc pc') \<Longrightarrow> \<exists>t t'. pc = W_claim t \<and> i = ID t \<and> info t' = info t \<and> success_of pc pc' = [ID t]"
  using assms
  by (induction rule: worker_move.induct) (auto simp: info_def)

lemma has_row_task:
  "ident (info t) \<in> rows xs \<Longrightarrow> has_row xs (ID t) (ExecutionID t) (RefID t)"
  unfolding has_row_def by (rule bexI [of _ "ident (info t)"]) simp_all

lemma inv_eventsI:
  assumes "inv_events a"
    and "\<And>ev. ev \<in> completed_events a' \<Longrightarrow> ev \<in> completed_events a \<or>
      has_row (b_tasks (a_board a')) (tc_TaskID ev) (tc_ExecutionID ev) (tc_RefID ev) \<and> tc_TaskID ev \<in> set (a_succeeded a')"
    and "\<And>ev. ev \<in> terminated_events a' \<Longrightarrow> ev \<in> terminated_events a \<or>
      has_row (b_tasks (a_board a')) (tt_TaskID ev) (tt_ExecutionID ev) (tt_RefID ev)"
    and "\<And>i. (i, True) \<in> set (a_handled a') \<Longrightarrow> (i, True) \<in> set (a_handled a) \<or> i \<in> set (a_succeeded a')"
    and "rows (b_tasks (a_board a)) \<subseteq> rows (b_tasks (a_board a'))"
    and "set (a_succeeded a) \<subseteq> set (a_succeeded a')"
  shows "inv_events a'"
  using assms has_row_mono [OF assms(5)] unfolding inv_events_def by blast

lemma inv_events_worker:
  assumes "inv_events a" and ok: "worker_ok a pc"
    and "completed_events a' \<subseteq> completed_events a \<union> {completed_event t | t. worker_task pc = Some t \<and> succeeding pc}"
    and "terminated_events a' \<subseteq> terminated_events a \<union> {terminated_event t ty msg | t ty msg. worker_task pc = Some t}"
    and same: "b_tasks (a_board a') = b_tasks (a_board a)" "a_handled a' = a_handled a"
    and grow: "set (a_succeeded a) \<subseteq> set (a_succeeded a')"
  shows "inv_events a'"
proof (rule inv_eventsI [OF assms(1)])
  have held: "has_row (b_tasks (a_board a')) (ID t) (ExecutionID t) (RefID t)" if "worker_task pc = Some t" for t
    using ok that by (simp add: worker_ok_def same has_row_task)
  fix ev assume "ev \<in> completed_events a'"
  then have "ev \<in> completed_events a \<or> (\<exists>t. ev = completed_event t \<and> worker_task pc = Some t \<and> succeeding pc)"
    using assms(3) by blast
  with held ok grow show "ev \<in> completed_events a \<or>
      has_row (b_tasks (a_board a')) (tc_TaskID ev) (tc_ExecutionID ev) (tc_RefID ev) \<and> tc_TaskID ev \<in> set (a_succeeded a')"
    by (auto simp: completed_event_def worker_ok_def)
next
  fix ev assume "ev \<in> terminated_events a'"
  with assms(4) ok show "ev \<in> terminated_events a \<or>
      has_row (b_tasks (a_board a')) (tt_TaskID ev) (tt_ExecutionID ev) (tt_RefID ev)"
    by (auto simp: terminated_event_def worker_ok_def same has_row_task)
qed (use same grow in auto)

lemma inv_worker:
  assumes sys_inv: "sys_inv reg a" and k: "k < length (a_workers a)" and step: "worker_move m (a_workers a ! k) (a_board a) pc b"
  shows "sys_inv reg (a\<lparr>a_board := b, a_workers := (a_workers a)[k := pc],
    a_succeeded := a_succeeded a @ success_of (a_workers a ! k) pc\<rparr>)"
    (is "sys_inv reg ?a")
proof -
  let ?pc = "a_workers a ! k"
  have same: "b_tasks b = b_tasks (a_board a)" using worker_move_tokens(1) [OF step] .
  have old: "worker_ok a ?pc" using sys_inv k by (simp add: sys_inv_def inv_workers_def)
  have "inv_tokens ?a" using tokens_worker [OF _ k step] sys_inv by (simp add: sys_inv_def)
  moreover have "inv_rows reg ?a"
    using sys_inv worker_move_events(3) [OF step] same by (simp add: sys_inv_def inv_rows_def)
  moreover have "inv_events ?a"
  proof -
    have "completed_events ?a \<subseteq> completed_events a \<union> {completed_event t | t. worker_task ?pc = Some t \<and> succeeding ?pc}"
      and "terminated_events ?a \<subseteq> terminated_events a \<union> {terminated_event t ty msg | t ty msg. worker_task ?pc = Some t}"
      using worker_move_events(1,2) [OF step] by (auto simp: completed_events_def terminated_events_def)
    with sys_inv old show ?thesis
      by (intro inv_events_worker [of a ?pc ?a]) (simp_all add: sys_inv_def same)
  qed
  moreover have "inv_degrees ?a" using sys_inv same by (simp add: sys_inv_def inv_degrees_def)
  moreover have "inv_workers ?a"
    using sys_inv worker_move_ok [OF sys_inv k step refl refl refl]
    by (intro inv_workers_update [of a ?a pc k]) (simp_all add: sys_inv_def same)
  moreover have "inv_requests reg ?a" using sys_inv by (simp add: sys_inv_def inv_requests_def)
  moreover have "inv_order ?a"
  proof (cases "success_of ?pc pc")
    case (Cons i js)
    then obtain t where t: "?pc = W_claim t" "success_of ?pc pc = [ID t]"
      using worker_move_events(4) [OF step, of i] by auto
    have "satisfied (b_tasks (a_board a)) (a_succeeded a) x" if "x \<in> rows (b_tasks (a_board a))" "i_ID x = ID t" for x
    proof -
      have "x = ident (info t)"
        using that old t(1) sys_inv by (intro rows_eq [of "b_tasks (a_board a)"]) (auto simp: worker_ok_def sys_inv_def inv_tokens_def)
      with old t(1) satisfied_ident [of x "info t"] show ?thesis by (simp add: worker_ok_def)
    qed
    with sys_inv t(2) show ?thesis by (simp add: inv_order_def in_order_append same sys_inv_def)
  qed (use sys_inv same in \<open>simp add: inv_order_def sys_inv_def\<close>)
  ultimately show ?thesis by (simp add: sys_inv_def)
qed

section \<open>The coordinator\<close>

lemma event_not_handled:
  assumes "inv_tokens a" and "i \<in> set (coord_tokens (a_coord a))"
  shows "i \<notin> fst ` set (a_handled a)"
proof -
  have "places a = mset (coord_tokens (a_coord a)) + (queued (a_board a) + announced (a_board a) +
      mset (map fst (a_handled a)) +
      (case a_completed a of None \<Rightarrow> {#} | Some ev \<Rightarrow> {#tc_TaskID ev#}) +
      (case a_terminated a of None \<Rightarrow> {#} | Some ev \<Rightarrow> {#tt_TaskID ev#}) +
      slots worker_tokens (a_workers a) + slots request_tokens (a_requests a))"
    by (simp add: places_def coord_places_def)
  from places_once [OF assms(1) this, of i] assms(2) show ?thesis by auto
qed

lemma idents_update:
  "f = lowered \<or> f = marked \<Longrightarrow> rows (update_where P f xs) = rows xs"
  by (rule rows_update) auto

lemma well_formed_ident: "ident x = ident y \<Longrightarrow> well_formed reg x = well_formed reg y"
  unfolding well_formed_def by (metis ident_simps(3-5))

lemma inv_rows_alt:
  "inv_rows reg a \<longleftrightarrow> one_ref (b_tasks (a_board a)) \<and>
     (\<forall>x \<in> rows (b_tasks (a_board a)). i_Exec x \<in> b_execs (a_board a) \<and> well_formed reg x)"
proof -
  have "well_formed reg (ident x) = well_formed reg x" for x by (rule well_formed_ident) simp
  then show ?thesis by (simp add: inv_rows_def rows_def)
qed

lemma coord_move_rows:
  assumes "coord_move pc b hs pc' b'"
  shows "rows (b_tasks b') = rows (b_tasks b)" and "b_execs b' = b_execs b"
    and "b_completed b' = b_completed b" and "b_terminated b' = b_terminated b"
    and "\<not> holds_event pc'"
    and "(i, True) \<in> set hs \<Longrightarrow> \<exists>ev. pc = C_decrement ev \<and> i = tc_TaskID ev"
  using assms by (induction rule: coord_move.induct) (auto simp: idents_update)

lemma coord_move_degrees:
  assumes sys_inv: "sys_inv reg a" and step: "coord_move (a_coord a) (a_board a) hs c b"
  shows "degrees_ok (b_tasks b) (a_handled a @ hs) \<and> skips_ok (b_tasks b) (a_handled a @ hs)"
proof -
  let ?xs = "b_tasks (a_board a)"
  have ok: "degrees_ok ?xs (a_handled a)" "skips_ok ?xs (a_handled a)"
    and tokens: "inv_tokens a" "distinct (map i_ID ?xs)" "one_ref ?xs" and events: "inv_events a"
    using sys_inv by (simp_all add: sys_inv_def inv_degrees_def inv_tokens_def inv_rows_def)
  show ?thesis using step
  proof cases
    case (decrement ev)
    then have "ev \<in> completed_events a" by (simp add: completed_events_def)
    then have row: "has_row ?xs (tc_TaskID ev) (tc_ExecutionID ev) (tc_RefID ev)"
      using events by (simp add: inv_events_def)
    have "tc_TaskID ev \<notin> fst ` set (a_handled a)"
      using event_not_handled [OF tokens(1)] decrement by simp
    with degrees_handle [OF ok(1) _ tokens(2,3) row] skips_handle [OF ok(2) _ tokens(2) row, of lowered True] decrement
    show ?thesis by simp
  next
    case (taint ev)
    then have "ev \<in> terminated_events a" by (simp add: terminated_events_def)
    then have row: "has_row ?xs (tt_TaskID ev) (tt_ExecutionID ev) (tt_RefID ev)"
      using events by (simp add: inv_events_def)
    have "tt_TaskID ev \<notin> fst ` set (a_handled a)"
      using event_not_handled [OF tokens(1)] taint by simp
    with degrees_handle [OF ok(1) _ tokens(2,3) row] skips_handle [OF ok(2) _ tokens(2) row, of marked False] taint
    show ?thesis by simp
  qed (use ok in auto)
qed

lemma one_ref_rows: "rows ys = rows xs \<Longrightarrow> one_ref ys = one_ref xs"
  by (simp add: one_ref_def)

lemma inv_coordinator:
  assumes sys_inv: "sys_inv reg a" and step: "coord_move (a_coord a) (a_board a) hs c b"
    and a': "a' = a\<lparr>a_board := b, a_coord := c, a_handled := a_handled a @ hs\<rparr>"
  shows "sys_inv reg a'"
proof -
  note rows = coord_move_rows [OF step]
  have fields: "a_board a' = b" "a_coord a' = c" "a_handled a' = a_handled a @ hs" "a_workers a' = a_workers a"
    "a_requests a' = a_requests a" "a_succeeded a' = a_succeeded a" "a_completed a' = a_completed a"
    "a_terminated a' = a_terminated a"
    by (simp_all add: a')
  have "inv_tokens a'" unfolding a' using tokens_coordinator [OF _ step] sys_inv by (simp add: sys_inv_def)
  moreover have "inv_rows reg a'"
    using sys_inv by (simp add: sys_inv_def inv_rows_alt fields rows one_ref_rows [OF rows(1)])
  moreover have "inv_events a'"
  proof (rule inv_eventsI)
    show "inv_events a" using sys_inv by (simp add: sys_inv_def)
    then show "(i, True) \<in> set (a_handled a') \<Longrightarrow> (i, True) \<in> set (a_handled a) \<or> i \<in> set (a_succeeded a')" for i
      using rows(6) [of i] by (auto simp: fields inv_events_def completed_events_def)
  qed (use rows(5) in \<open>auto simp: fields rows completed_events_def terminated_events_def holds_event_def\<close>)
  moreover have "inv_degrees a'" using coord_move_degrees [OF sys_inv step] by (simp add: inv_degrees_def fields)
  moreover have "inv_workers a'"
    using sys_inv inv_workers_mono [of a a'] by (simp add: sys_inv_def fields rows)
  moreover have "inv_requests reg a'" using sys_inv by (simp add: sys_inv_def inv_requests_def fields)
  moreover have "inv_order a'" using sys_inv by (simp add: sys_inv_def inv_order_def fields in_order_cong [OF rows(1)])
  ultimately show ?thesis by (simp add: sys_inv_def)
qed

section \<open>Requests\<close>

lemma deps_submitted: "Dependencies t = marshal_dependencies ds \<Longrightarrow> deps (info t) = (case ds of None \<Rightarrow> {} | Some xs \<Rightarrow> set xs)"
  by (simp add: deps_def string_array_dependencies split: option.split)

lemma submission_rows:
  assumes "sane_submission reg e ts" and "we_ID e \<notin> i_Exec ` set xs" and "one_ref xs"
  shows "one_ref (xs @ map info ts)" and "fresh_rows (map info ts)"
    and "\<And>x. x \<in> set (map info ts) \<Longrightarrow> i_Exec x = we_ID e \<and> well_formed reg x"
proof -
  show *: "\<And>x. x \<in> set (map info ts) \<Longrightarrow> i_Exec x = we_ID e \<and> well_formed reg x"
    using assms(1) by (auto simp: sane_submission_def well_formed_def) metis+
  have new: "x = y" if "x \<in> rows (map info ts)" "y \<in> rows (map info ts)" "i_Ref x = i_Ref y" for x y
  proof -
    have "distinct (map RefID ts)" using assms(1) by (simp add: sane_submission_def)
    then show ?thesis using that by (auto simp: rows_def dest: distinct_key_unique)
  qed
  have "i_Exec x \<noteq> i_Exec y" if "x \<in> rows xs" "y \<in> rows (map info ts)" for x y
  proof -
    obtain t where "t \<in> set ts" "y = ident (info t)" using \<open>y \<in> rows (map info ts)\<close> by (auto simp: rows_def)
    then have "i_Exec y = we_ID e" using * [of "info t"] by simp
    moreover have "i_Exec x \<in> i_Exec ` set xs" using \<open>x \<in> rows xs\<close> by (auto simp: rows_def)
    ultimately show ?thesis using assms(2) by metis
  qed
  with new assms(3) show "one_ref (xs @ map info ts)"
    unfolding one_ref_def rows_simps by (metis UnE)
  have "InDegree t = int (card (deps (info t)))" if "t \<in> set ts" for t
  proof -
    obtain ds where "Dependencies t = marshal_dependencies ds" "InDegree t = slice_len ds"
      and "case ds of None \<Rightarrow> True | Some xs \<Rightarrow> distinct xs"
      using assms(1) \<open>t \<in> set ts\<close> unfolding sane_submission_def by blast
    then show ?thesis
      by (cases ds) (simp_all add: deps_submitted slice_len_def distinct_card)
  qed
  then show "fresh_rows (map info ts)" by (auto simp: fresh_rows_def)
qed

lemma in_order_stored:
  assumes "in_order xs done js" and "i_ID ` set ys \<inter> set js = {}"
  shows "in_order (xs @ ys) done js"
  using assms
proof (induction js arbitrary: "done")
  case (Cons i js)
  have "satisfied (xs @ ys) done x" if "x \<in> rows (xs @ ys)" "i_ID x = i" for x
  proof -
    have "x \<in> rows xs" using that Cons(3) by (auto simp: rows_def)
    with Cons(2) that(2) show ?thesis using satisfied_mono [of xs "done" x "xs @ ys"] by simp
  qed
  with Cons show ?case by simp
qed simp

lemma request_move_board:
  assumes "request_move q b q' b'"
  shows "(b_tasks b' = b_tasks b \<and> b_execs b' = b_execs b \<or>
      (\<exists>e ts. q = R_create e ts \<and> we_ID e \<notin> b_execs b \<and> ID ` set ts \<inter> i_ID ` set (b_tasks b) = {} \<and>
        b_tasks b' = b_tasks b @ map info ts \<and> b_execs b' = insert (we_ID e) (b_execs b))) \<and>
    b_completed b' = b_completed b \<and> b_terminated b' = b_terminated b \<and> (\<forall>e ts. q' \<noteq> R_create e ts)"
  using assms by (induction rule: request_move.induct) auto

lemma rows_stored:
  assumes sys_inv: "sys_inv reg a" and sane: "sane_submission reg e ts"
    and new: "we_ID e \<notin> b_execs (a_board a)" "ID ` set ts \<inter> i_ID ` set (b_tasks (a_board a)) = {}"
    and a': "b_tasks (a_board a') = b_tasks (a_board a) @ map info ts"
      "b_execs (a_board a') = insert (we_ID e) (b_execs (a_board a))"
      "a_handled a' = a_handled a" "a_succeeded a' = a_succeeded a"
  shows "inv_rows reg a'" and "inv_degrees a'" and "inv_order a'"
proof -
  let ?xs = "b_tasks (a_board a)" and ?ys = "map info ts"
  have old: "inv_tokens a" "one_ref ?xs" "we_ID e \<notin> i_Exec ` set ?xs" "degrees_ok ?xs (a_handled a)" "skips_ok ?xs (a_handled a)"
    using sys_inv new(1) by (auto simp: sys_inv_def inv_rows_def inv_degrees_def)
  note rows = submission_rows [OF sane old(3,2)]
  show "inv_rows reg a'" using sys_inv rows(1,3) by (auto simp: sys_inv_def inv_rows_def a')
  have apart: "i_Exec ` set ?ys \<inter> i_Exec ` set ?xs = {}" "i_ID ` set ?ys \<inter> i_ID ` set ?xs = {}"
    using rows(3) old(3) new(2) by (force, simp add: image_image)
  have "resolved (?xs @ ?ys) (a_handled a) = resolved ?xs (a_handled a)"
    by (rule resolved_append [OF handled_rows [OF old(1)] apart(2)])
  with degrees_append [OF old(4) rows(2) _ apart(1)] skips_append [OF old(5) _ apart(1)]
  show "inv_degrees a'" by (simp add: inv_degrees_def a')
  have "i_ID ` set ?ys \<inter> set (a_succeeded a) = {}" using succeeded_rows [OF old(1)] apart(2) by auto
  with sys_inv show "inv_order a'"
    unfolding sys_inv_def inv_order_def a' by (intro in_order_stored) simp_all
qed

lemma inv_request:
  assumes sys_inv: "sys_inv reg a" and k: "k < length (a_requests a)" and step: "request_move (a_requests a ! k) (a_board a) q b"
    and a': "a' = a\<lparr>a_board := b, a_requests := (a_requests a)[k := q]\<rparr>"
  shows "sys_inv reg a'"
proof -
  note board = request_move_board [OF step]
  have fields: "a_board a' = b" "a_coord a' = a_coord a" "a_handled a' = a_handled a" "a_workers a' = a_workers a"
    "a_requests a' = (a_requests a)[k := q]" "a_succeeded a' = a_succeeded a" "a_completed a' = a_completed a"
    "a_terminated a' = a_terminated a"
    by (simp_all add: a')
  have grow: "rows (b_tasks (a_board a)) \<subseteq> rows (b_tasks b)" using board by auto
  have "inv_tokens a'" unfolding a' using tokens_request [OF _ k step] sys_inv by (simp add: sys_inv_def)
  moreover have "inv_rows reg a' \<and> inv_degrees a' \<and> inv_order a'"
  proof (cases "b_tasks b = b_tasks (a_board a) \<and> b_execs b = b_execs (a_board a)")
    case True
    with sys_inv show ?thesis by (simp add: sys_inv_def inv_rows_def inv_degrees_def inv_order_def fields)
  next
    case False
    with board obtain e ts where create: "a_requests a ! k = R_create e ts" "we_ID e \<notin> b_execs (a_board a)"
      "ID ` set ts \<inter> i_ID ` set (b_tasks (a_board a)) = {}" "b_tasks b = b_tasks (a_board a) @ map info ts"
      "b_execs b = insert (we_ID e) (b_execs (a_board a))" by blast
    have "R_create e ts \<in> set (a_requests a)" using k create(1) by (metis nth_mem)
    then have "sane_submission reg e ts" using sys_inv by (simp add: sys_inv_def inv_requests_def)
    from rows_stored [OF sys_inv this create(2,3)] create(4,5) show ?thesis by (simp add: fields)
  qed
  moreover have "inv_events a'"
    using sys_inv grow board
    by (intro inv_eventsI [of a a']) (auto simp: sys_inv_def fields completed_events_def terminated_events_def)
  moreover have "inv_workers a'"
    using sys_inv grow inv_workers_mono [of a a'] by (simp add: sys_inv_def fields)
  moreover have "inv_requests reg a'"
    using sys_inv board set_update_subset_insert [of "a_requests a" k q]
    by (auto simp: sys_inv_def inv_requests_def fields)
  ultimately show ?thesis by (simp add: sys_inv_def)
qed

section \<open>All moves\<close>

lemma inv_frame:
  assumes "sys_inv reg a" and "inv_tokens a'"
    and "b_tasks (a_board a') = b_tasks (a_board a)" "b_execs (a_board a') = b_execs (a_board a)"
    and "a_handled a' = a_handled a" "a_succeeded a' = a_succeeded a" "a_workers a' = a_workers a"
    and "completed_events a' \<subseteq> completed_events a" "terminated_events a' \<subseteq> terminated_events a"
    and "inv_requests reg a'"
  shows "sys_inv reg a'"
proof -
  have "inv_events a'" using assms by (intro inv_eventsI [of a a']) (auto simp: sys_inv_def)
  moreover have "inv_workers a'" using assms inv_workers_mono [of a a'] by (simp add: sys_inv_def)
  ultimately show ?thesis using assms by (simp add: sys_inv_def inv_rows_def inv_degrees_def inv_order_def)
qed

theorem inv_move:
  assumes "move reg a a'" and "sys_inv reg a"
  shows "sys_inv reg a'"
  using assms(1)
proof cases
  case (worker k m pc b)
  with inv_worker [OF assms(2)] show ?thesis by simp
next
  case (coordinator hs c b)
  with inv_coordinator [OF assms(2)] show ?thesis by simp
next
  case (request k q b)
  with inv_request [OF assms(2)] show ?thesis by simp
next
  case (arrive e ts)
  have "inv_requests reg a'"
    using assms(2) arrive by (auto simp: sys_inv_def inv_requests_def)
  then show ?thesis
    by (rule inv_frame [OF assms(2), rotated -1])
       (use assms tokens_move [OF assms(1)] arrive in \<open>auto simp: sys_inv_def completed_events_def terminated_events_def\<close>)
qed (rule inv_frame [OF assms(2)];
     use assms tokens_move [OF assms(1)] in
       \<open>auto simp: sys_inv_def inv_requests_def completed_events_def terminated_events_def\<close>)+

end
