(* ===== verification/System_Refinement.thy ===== *)
theory System_Refinement
  imports System_Safety
begin

text \<open>
  The running program refines the abstract system: the board of a world is what its rows, lists
  and inboxes say about the resolution of dependencies, and every step of a goroutine from a
  state whose board satisfies the invariant is a move.
\<close>

section \<open>The board of a world\<close>

definition parsed :: "'h services \<Rightarrow> string list \<Rightarrow> uuid list" where
  "parsed svc xs = List.map_filter (\<lambda>s. case uuid_Parse svc s of Inl err \<Rightarrow> None | Inr i \<Rightarrow> Some i) xs"

definition board :: "'h services \<Rightarrow> 'h world \<Rightarrow> board" where
  "board svc w =
     \<lparr>b_tasks = map info (task_rows w), b_execs = we_ID ` set (exec_rows w),
      b_main = parsed svc (redis_list w main_key), b_retry = parsed svc (redis_list w retry_key),
      b_completed = List.map_filter (unmarshal_completed svc) (inbox w completed_channel),
      b_terminated = List.map_filter (unmarshal_terminated svc) (inbox w terminated_channel)\<rparr>"

definition abs_sys :: "'h services \<Rightarrow> 'h sys \<Rightarrow> asys" where
  "abs_sys svc s =
     \<lparr>a_board = board svc (sys_world s), a_workers = sys_workers s, a_coord = sys_coord s,
      a_completed = sys_completed s, a_terminated = sys_terminated s, a_requests = sys_requests s,
      a_succeeded = sys_succeeded s, a_handled = sys_handled s\<rparr>"

lemma abs_sys_simps [simp]:
  "a_board (abs_sys svc s) = board svc (sys_world s)" "a_workers (abs_sys svc s) = sys_workers s"
  "a_coord (abs_sys svc s) = sys_coord s" "a_completed (abs_sys svc s) = sys_completed s"
  "a_terminated (abs_sys svc s) = sys_terminated s" "a_requests (abs_sys svc s) = sys_requests s"
  "a_succeeded (abs_sys svc s) = sys_succeeded s" "a_handled (abs_sys svc s) = sys_handled s"
  by (simp_all add: abs_sys_def)

lemma parsed_simps [simp]:
  "parsed svc [] = []" "parsed svc (xs @ ys) = parsed svc xs @ parsed svc ys"
  "uuid_Parse svc x = Inr i \<Longrightarrow> parsed svc (x # xs) = i # parsed svc xs"
  "uuid_Parse svc x = Inl e \<Longrightarrow> parsed svc (x # xs) = parsed svc xs"
  by (simp_all add: parsed_def List.map_filter_def)

lemma map_filter_append [simp]:
  "List.map_filter f (xs @ ys) = List.map_filter f xs @ List.map_filter f ys"
  by (simp add: List.map_filter_def)

lemma map_filter_Cons:
  "List.map_filter f (x # xs) = (case f x of None \<Rightarrow> List.map_filter f xs | Some y \<Rightarrow> y # List.map_filter f xs)"
  by (simp add: List.map_filter_def split: option.split)

lemma board_log [simp]: "board svc (w\<lparr>mlog := l\<rparr>) = board svc w"
  by (simp add: board_def)

lemma board_unwritten: "unwritten w w' \<Longrightarrow> board svc w' = board svc w"
  by (simp add: unwritten_def board_def)

lemma board_same: "same w w' \<Longrightarrow> board svc w' = board svc w"
  by (rule board_unwritten) (rule same_unwritten)

text \<open>Writes that leave the resolution of dependencies alone.\<close>

lemma board_tasks_written:
  assumes "tasks_written P f w w'" and "\<And>t. info (f t) = info t"
  shows "board svc w' = board svc w"
proof -
  obtain ts where rows: "task_rows w' = update_where P (\<lambda>t. (f t)\<lparr>UpdatedAt := ts\<rparr>) (task_rows w)"
    using assms(1) by (auto simp: tasks_written_def)
  have "info ((f t)\<lparr>UpdatedAt := ts\<rparr>) = info t" for t
    using assms(2) [of t] by (simp add: info_def)
  then have "map info (task_rows w') = map info (task_rows w)" by (simp add: rows map_update_where)
  with assms(1) show ?thesis by (simp add: board_def tasks_written_def)
qed

lemma info_row_updates [simp]:
  "info (claimed i v t) = info t" "info (retried v t) = info t" "info (completed out t) = info t"
  "info (failed_row msg out t) = info t" "info (skipped_row out t) = info t" "info (t\<lparr>Version := n\<rparr>) = info t"
  "info (stamp_task ts t) = info t" "info (task_column_defaults t) = info t"
  by (simp_all add: info_def claimed_def retried_def completed_def failed_row_def skipped_row_def
      stamp_task_def task_column_defaults_def)

lemma board_execs_written:
  assumes "execs_written Q g w w'" and "\<And>e. we_ID (g e) = we_ID e"
  shows "board svc w' = board svc w"
proof -
  obtain ts where rows: "exec_rows w' = update_where Q (\<lambda>e. (g e)\<lparr>we_UpdatedAt := ts\<rparr>) (exec_rows w)"
    using assms(1) by (auto simp: execs_written_def)
  have "map we_ID (exec_rows w') = map we_ID (exec_rows w)" by (simp add: rows map_update_where assms(2))
  then have "we_ID ` set (exec_rows w') = we_ID ` set (exec_rows w)" by (metis list.set_map)
  with assms(1) show ?thesis by (simp add: board_def execs_written_def)
qed

lemma board_row_written:
  "maybe (row_written i f) w w' \<Longrightarrow> (\<And>t. info (f t) = info t) \<Longrightarrow> board svc w' = board svc w"
  by (auto simp: maybe_def row_written_def intro: board_unwritten board_tasks_written)

lemma board_failed_execution: "maybe (failed_execution ex) w w' \<Longrightarrow> board svc w' = board svc w"
  unfolding maybe_def failed_execution_def
  by (elim disjE) (auto intro: board_unwritten board_execs_written)

text \<open>Writes that send something on.\<close>

lemma board_queue_written:
  "queue_written ((redis_list w)(main_key := xs)) w w' \<Longrightarrow> board svc w' = (board svc w)\<lparr>b_main := parsed svc xs\<rparr>"
  "queue_written ((redis_list w)(retry_key := xs)) w w' \<Longrightarrow> board svc w' = (board svc w)\<lparr>b_retry := parsed svc xs\<rparr>"
  by (simp_all add: queue_written_def board_def)

lemma board_sent_completed:
  assumes "maybe (sent_completed (redis_wires svc rkey) ev) w w'"
  shows "board svc w' = board svc w \<or>
    board svc w' = (board svc w)\<lparr>b_completed := b_completed (board svc w) @ [ev]\<rparr>"
  using assms
  by (auto simp: maybe_def sent_completed_def redis_wires_def inbox_appended_def board_def unwritten_def
      map_filter_Cons List.map_filter_simps completed_channel_def terminated_channel_def)

lemma board_sent_terminated:
  assumes "maybe (sent_terminated (redis_wires svc rkey) ev) w w'"
  shows "board svc w' = board svc w \<or>
    board svc w' = (board svc w)\<lparr>b_terminated := b_terminated (board svc w) @ [ev]\<rparr>"
  using assms
  by (auto simp: maybe_def sent_terminated_def redis_wires_def inbox_appended_def board_def unwritten_def
      map_filter_Cons List.map_filter_simps completed_channel_def terminated_channel_def)

section \<open>Workers\<close>

context lawful_services
begin

lemma parsed_String: "uuid_String svc u \<in> set xs \<Longrightarrow> u \<in> set (parsed svc xs)"
  using uuid_law [of u]
  by (auto simp: parsed_def List.map_filter_def image_iff intro!: bexI [of _ "uuid_String svc u"])

lemma pop_refines:
  assumes run: "run_state (Pop (NewRedisQueue svc key)) w = (r, w')" and key: "key = (if m then main_key else retry_key)"
  shows "worker_move m W_idle (board svc w) (case r of Inl err \<Rightarrow> W_idle
      | Inr s \<Rightarrow> (case uuid_Parse svc s of Inl err \<Rightarrow> W_idle | Inr i \<Rightarrow> W_find i)) (board svc w')"
    (is "worker_move m W_idle _ ?pc _")
proof -
  have taken: "worker_move m W_idle (board svc w) ?pc (board svc w')"
    if "redis_list w key = x # xs" "queue_written ((redis_list w)(key := xs)) w w'"
      and r: "\<And>s. r = Inr s \<Longrightarrow> s = x" for x xs
  proof (cases "uuid_Parse svc x")
    case (Inl e)
    have "?pc = W_idle" using Inl r by (cases r) auto
    moreover have "board svc w' = board svc w"
      using that(1,2) key Inl board_queue_written [of w xs w' svc] by (cases m) (auto simp: board_def)
    ultimately show ?thesis by (simp add: worker_move.lose)
  next
    case (Inr i)
    have "?pc = W_idle \<or> ?pc = W_find i" using Inr r by (cases r) auto
    then show ?thesis
      using that(1,2) key Inr board_queue_written [of w xs w' svc]
        worker_move.pop_main [of "board svc w" i "parsed svc xs" ?pc]
        worker_move.pop_retry [of "board svc w" i "parsed svc xs" ?pc]
      by (cases m) (auto simp: board_def)
  qed
  have "(\<exists>x xs. redis_list w key = x # xs \<and> queue_written ((redis_list w)(key := xs)) w w' \<and> (\<forall>s. r = Inr s \<longrightarrow> s = x)) \<or>
      (\<exists>e. r = Inl e) \<and> unwritten w w'"
    using queue.Pop_outcome [OF run] by (cases r) auto
  then show ?thesis
  proof (elim disjE exE conjE)
    fix e assume "r = Inl e" "unwritten w w'"
    then show ?thesis by (simp add: board_unwritten worker_move.lose)
  qed (rule taken; simp)
qed

lemma claim_refines:
  assumes run: "run_state (worker_step svc (NewWorker svc i q rq (NewTaskRepository svc) wr bus reg) ctx (W_claim t)) w = (pc', w')"
    and "reg (Action t) \<noteq> None"
  shows "worker_move m (W_claim t) (board svc w) pc' (board svc w')"
proof -
  obtain u w1 where claim: "run_state (ClaimTask (NewTaskRepository svc) (ID t) (uuid_String svc i) (Version t)) w = (u, w1)"
    by fastforce
  have same: "board svc w1 = board svc w"
    using repo.ClaimTask_outcome [OF claim, THEN conjunct1] board_unwritten [of w w1 svc]
      board_tasks_written [of _ "claimed (uuid_String svc i) (Version t)" w w1 svc]
    by (cases u) auto
  show ?thesis
  proof (cases u)
    case (Inl e)
    with run claim have "pc' = W_idle" "\<exists>l. w' = w1\<lparr>mlog := l\<rparr>"
      by (auto simp: worker_fields Worker_claimTask_def)
    with same show ?thesis by (auto simp: worker_move.lose)
  next
    case (Inr a)
    let ?t = "t\<lparr>Version := Version t + 1\<rparr>"
    from assms(2) obtain handler where handler: "reg (Action t) = Some handler" by auto
    have pc': "pc' = (case handler ctx (Input t) of Inl err \<Rightarrow> failure_pc ?t err | Inr out \<Rightarrow> W_complete ?t out)"
      and w': "\<exists>l. w' = w1\<lparr>mlog := l\<rparr>"
      using run claim Inr handler by (auto simp: worker_fields Worker_claimTask_def run_action_def Let_def)
    have "info ?t = info t" by simp
    from worker_move.run [OF this, of pc' "case handler ctx (Input t) of Inl err \<Rightarrow> undefined | Inr out \<Rightarrow> out"
        "case handler ctx (Input t) of Inl err \<Rightarrow> err | Inr out \<Rightarrow> undefined" m "board svc w"] pc' w' same
    show ?thesis by (cases "handler ctx (Input t)") (auto simp: failure_pc_def)
  qed
qed

lemma find_refines:
  assumes "run_state (worker_step svc (NewWorker svc i q rq (NewTaskRepository svc) wr bus reg) ctx (W_find tid)) w = (pc', w')"
  shows "worker_move m (W_find tid) (board svc w) pc' (board svc w')"
proof -
  obtain r w1 where find: "run_state (FindTaskByID (NewTaskRepository svc) tid) w = (r, w1)" by fastforce
  from repo.FindTaskByID_outcome [OF find] have same: "board svc w1 = board svc w"
    and found: "\<And>t. r = Inr t \<Longrightarrow> info t \<in> set (b_tasks (board svc w)) \<and> ID t = tid"
    by (auto simp: board_unwritten, auto simp: board_def)
  show ?thesis
  proof (cases r)
    case (Inl e)
    with assms find same show ?thesis by (auto simp: worker_fields worker_move.lose)
  next
    case (Inr t)
    with assms find have "pc' = (if SkipHint t then W_skip t else W_claim t)" "\<exists>l. w' = w1\<lparr>mlog := l\<rparr>"
      by (auto simp: worker_fields)
    with found [OF Inr] same worker_move.find [of t "board svc w" m] show ?thesis by auto
  qed
qed

lemma publish_refines:
  "run_state (PublishTaskCompleted (NewRedisEventBus svc) ev) w = (r, w') \<Longrightarrow>
     board svc w' = board svc w \<or> board svc w' = (board svc w)\<lparr>b_completed := b_completed (board svc w) @ [ev]\<rparr>"
  "run_state (PublishTaskTerminated (NewRedisEventBus svc) ev') w = (r, w') \<Longrightarrow>
     board svc w' = board svc w \<or> board svc w' = (board svc w)\<lparr>b_terminated := b_terminated (board svc w) @ [ev']\<rparr>"
  by (rule board_sent_completed, rule pool.Publish_maybe(1) [unfolded pool_wires], assumption)
     (rule board_sent_terminated, rule pool.Publish_maybe(2) [unfolded pool_wires], assumption)

lemma push_refines:
  assumes "run_state (Push (NewRedisQueue svc key) (uuid_String svc i)) w = (r, w')"
  shows "key = main_key \<Longrightarrow> board svc w' = board svc w \<or> board svc w' = (board svc w)\<lparr>b_main := b_main (board svc w) @ [i]\<rparr>"
    and "key = retry_key \<Longrightarrow> board svc w' = board svc w \<or> board svc w' = (board svc w)\<lparr>b_retry := b_retry (board svc w) @ [i]\<rparr>"
proof -
  have out: "queue_written ((redis_list w)(key := redis_list w key @ [uuid_String svc i])) w w' \<or> unwritten w w'"
    using queue.Push_outcome [OF assms] by (cases r) auto
  have snoc: "parsed svc (xs @ [uuid_String svc i]) = parsed svc xs @ [i]" for xs
    using uuid_law [of i] by simp
  have lists: "b_main (board svc w) = parsed svc (redis_list w main_key)"
    "b_retry (board svc w) = parsed svc (redis_list w retry_key)" by (simp_all add: board_def)
  show "key = main_key \<Longrightarrow> board svc w' = board svc w \<or> board svc w' = (board svc w)\<lparr>b_main := b_main (board svc w) @ [i]\<rparr>"
    using out board_unwritten [of w w' svc]
      board_queue_written(1) [of w "redis_list w main_key @ [uuid_String svc i]" w' svc]
    by (simp only: snoc lists) blast
  show "key = retry_key \<Longrightarrow> board svc w' = board svc w \<or> board svc w' = (board svc w)\<lparr>b_retry := b_retry (board svc w) @ [i]\<rparr>"
    using out board_unwritten [of w w' svc]
      board_queue_written(2) [of w "redis_list w retry_key @ [uuid_String svc i]" w' svc]
    by (simp only: snoc lists) blast
qed

text \<open>The writes of a worker that change neither queues nor dependencies.\<close>

lemma mark_refines:
  "run_state (MarkCompleted (NewTaskRepository svc) tid out) w = (r, w') \<Longrightarrow> board svc w' = board svc w"
  "run_state (MarkFailed (NewTaskRepository svc) tid msg) w = (r, w') \<Longrightarrow> board svc w' = board svc w"
  "run_state (MarkSkipped (NewTaskRepository svc) tid) w = (r, w') \<Longrightarrow> board svc w' = board svc w"
  "run_state (IncrementRetryCount (NewTaskRepository svc) tid v) w = (r, w') \<Longrightarrow> board svc w' = board svc w"
  "run_state (UpdateStatus (NewWorkflowRepository svc) ex WorkflowFailed) w = (r, w') \<Longrightarrow> board svc w' = board svc w"
proof -
  show "run_state (MarkCompleted (NewTaskRepository svc) tid out) w = (r, w') \<Longrightarrow> board svc w' = board svc w"
    by (rule board_row_written, erule pool.MarkCompleted_maybe) simp
  show "run_state (MarkFailed (NewTaskRepository svc) tid msg) w = (r, w') \<Longrightarrow> board svc w' = board svc w"
    by (drule pool.MarkFailed_maybe, erule exE, erule board_row_written) simp
  show "run_state (MarkSkipped (NewTaskRepository svc) tid) w = (r, w') \<Longrightarrow> board svc w' = board svc w"
    by (drule repo.MarkSkipped_outcome, cases r)
       (auto simp: info_def intro: board_unwritten board_tasks_written)
  show "run_state (IncrementRetryCount (NewTaskRepository svc) tid v) w = (r, w') \<Longrightarrow> board svc w' = board svc w"
    by (drule repo.IncrementRetryCount_outcome [THEN conjunct1], cases r)
       (auto intro: board_unwritten board_tasks_written)
  show "run_state (UpdateStatus (NewWorkflowRepository svc) ex WorkflowFailed) w = (r, w') \<Longrightarrow> board svc w' = board svc w"
    by (rule board_failed_execution, erule pool.UpdateStatus_maybe)
qed

lemma worker_refines:
  assumes run: "run_state (worker_step svc (NewWorker svc i (NewRedisQueue svc key) (NewRedisQueue svc retry_key)
      (NewTaskRepository svc) (NewWorkflowRepository svc) (NewRedisEventBus svc) reg) ctx pc) w = (pc', w')"
    and key: "key = (if m then main_key else retry_key)"
    and pc: "\<not> unregistered pc" "\<And>t. worker_task pc = Some t \<Longrightarrow> reg (Action t) \<noteq> None"
  shows "worker_move m pc (board svc w) pc' (board svc w')"
proof (cases pc)
  case W_idle
  obtain r w1 where pop: "run_state (Pop (NewRedisQueue svc key)) w = (r, w1)" by fastforce
  with run W_idle pop_refines [OF pop key] show ?thesis by (auto simp: worker_fields)
next
  case (W_find tid)
  with run find_refines show ?thesis by simp
next
  case (W_skip t)
  obtain r w1 where mark: "run_state (MarkSkipped (NewTaskRepository svc) (ID t)) w = (r, w1)" by fastforce
  with run W_skip mark_refines(3) [OF mark] show ?thesis
    by (auto simp: worker_fields worker_move.lose worker_move.skip split: sum.split)
next
  case (W_skip_publish t)
  obtain r w1 where pub: "run_state (PublishTaskTerminated (NewRedisEventBus svc)
      (terminated_event t TaskTerminationSkipped ''skipped due to parent task failure'')) w = (r, w1)" by fastforce
  then have "pc' = W_idle" "board svc w' = board svc w1"
    using run W_skip_publish by (auto simp: worker_fields terminated_event_def NewTaskTerminatedEvent_def)
  with publish_refines(2) [OF pub] W_skip_publish show ?thesis
    by (auto simp: worker_move.lose worker_move.skip_publish)
next
  case (W_claim t)
  with run claim_refines pc(2) [of t] show ?thesis by simp
next
  case (W_complete t out)
  obtain r w1 where mark: "run_state (MarkCompleted (NewTaskRepository svc) (ID t) out) w = (r, w1)" by fastforce
  with run W_complete mark_refines(1) [OF mark] show ?thesis
    by (auto simp: worker_fields worker_move.complete)
next
  case (W_complete_publish t)
  obtain r w1 where pub: "run_state (PublishTaskCompleted (NewRedisEventBus svc) (completed_event t)) w = (r, w1)"
    by fastforce
  then have "pc' = W_idle" "board svc w' = board svc w1"
    using run W_complete_publish by (auto simp: worker_fields completed_event_def end_claimed_def)
  with publish_refines(1) [OF pub] W_complete_publish show ?thesis
    by (auto simp: worker_move.lose worker_move.complete_publish)
next
  case (W_retry t)
  define w1 where "w1 = w\<lparr>mlog := mlog w @ [MInc WorkerRetriesTotal [Action t, Itoa (RetryCount t + 1)]]\<rparr>"
  obtain r w2 where cas: "run_state (IncrementRetryCount (NewTaskRepository svc) (ID t) (Version t)) w1 = (r, w2)"
    by fastforce
  have "board svc w1 = board svc w" by (simp add: w1_def)
  with run W_retry mark_refines(4) [OF cas] cas show ?thesis
    by (auto simp: worker_fields end_claimed_def w1_def worker_move.lose worker_move.retry split: sum.splits)
next
  case (W_retry_push t)
  obtain r w1 where push: "run_state (Push (NewRedisQueue svc retry_key) (uuid_String svc (ID t))) w = (r, w1)"
    by fastforce
  then have "pc' = W_idle" "board svc w' = board svc w1"
    using run W_retry_push by (auto simp: worker_fields end_claimed_def)
  with push_refines(2) [OF push refl] W_retry_push show ?thesis
    by (auto simp: worker_move.lose worker_move.retry_push)
next
  case (W_fail t err)
  obtain r w1 where mark: "run_state (MarkFailed (NewTaskRepository svc) (ID t) (Error err)) w = (r, w1)" by fastforce
  with run W_fail mark_refines(2) [OF mark] show ?thesis
    by (auto simp: worker_fields worker_move.fail)
next
  case (W_fail_execution t err)
  obtain r w1 where upd: "run_state (UpdateStatus (NewWorkflowRepository svc) (ExecutionID t) WorkflowFailed) w = (r, w1)"
    by fastforce
  with run W_fail_execution mark_refines(5) [OF upd] show ?thesis
    by (auto simp: worker_fields worker_move.fail_execution)
next
  case (W_fail_publish t err)
  obtain r w1 where pub: "run_state (PublishTaskTerminated (NewRedisEventBus svc)
      (terminated_event t TaskTerminationFailed (Error err))) w = (r, w1)" by fastforce
  then have "pc' = W_idle" "board svc w' = board svc w1"
    using run W_fail_publish by (auto simp: worker_fields terminated_event_def NewTaskTerminatedEvent_def end_claimed_def)
  with publish_refines(2) [OF pub] W_fail_publish show ?thesis
    by (auto simp: worker_move.lose worker_move.fail_publish)
qed (use pc(1) in simp_all)

end

section \<open>The coordinator\<close>

lemma map_update_where_related:
  assumes "\<And>x. x \<in> set xs \<Longrightarrow> P x \<longleftrightarrow> Q (g x)" and "\<And>x. g (f x) = h (g x)"
  shows "map g (update_where P f xs) = update_where Q h (map g xs)"
  using assms(1) by (induction xs) (simp_all add: assms(2))

lemma info_decremented [simp]: "info (decremented t) = lowered (info t)" "info (tainted t) = marked (info t)"
  by (simp_all add: info_def decremented_def tainted_def lowered_def marked_def)

text \<open>The query of the repository finds the rows that wait for the parent.\<close>

definition finds_children :: "'h services \<Rightarrow> 'h world \<Rightarrow> uuid \<Rightarrow> string \<Rightarrow> bool" where
  "finds_children svc w ex p \<longleftrightarrow>
     (\<forall>t \<in> set (task_rows w). children (depends_on svc) ex p t \<longleftrightarrow> waits_for ex p (info t))"

lemma board_decremented:
  assumes "finds_children svc w ex p" and "tasks_rewritten (children (depends_on svc) ex p) f w w'"
    and "\<And>t. info (f t) = g (info t)"
  shows "board svc w' = (board svc w)\<lparr>b_tasks := update_where (waits_for ex p) g (b_tasks (board svc w))\<rparr>"
proof -
  have "map info (task_rows w') = update_where (waits_for ex p) g (map info (task_rows w))"
    using assms map_update_where_related [of "task_rows w" "children (depends_on svc) ex p" "waits_for ex p" info f g]
    by (simp add: tasks_rewritten_def finds_children_def)
  with assms(2) show ?thesis by (simp add: board_def tasks_rewritten_def)
qed

lemma released_unblocked:
  assumes "finds_children svc w ex p"
  shows "released ex p (b_tasks (board svc w)) =
    mset (map ID (filter (\<lambda>t. ExecutionID t = ex \<and> depends_on svc t p \<and> InDegree t = 1) (task_rows w)))"
proof -
  have "filter (\<lambda>t. waits_for ex p (info t) \<and> InDegree t = 1) (task_rows w) =
      filter (\<lambda>t. ExecutionID t = ex \<and> depends_on svc t p \<and> InDegree t = 1) (task_rows w)"
    using assms by (intro filter_cong refl) (auto simp: finds_children_def children_def)
  then show ?thesis by (simp add: released_def board_def filter_map comp_def flip: mset_map)
qed

context lawful_services
begin

lemma finds_childrenI:
  assumes "inv_rows reg a" and "a_board a = board svc w" and "has_row (b_tasks (board svc w)) i ex p"
  shows "finds_children svc w ex p"
proof -
  have plain: "plain p"
    using assms unfolding inv_rows_alt has_row_def by (auto simp: well_formed_def)
  have "children (depends_on svc) ex p t \<longleftrightarrow> waits_for ex p (info t)" if "t \<in> set (task_rows w)" for t
  proof -
    have "well_formed reg (info t)"
      using assms(1,2) that by (auto simp: inv_rows_def board_def)
    then obtain ds where ds: "Dependencies t = marshal_dependencies ds" by (auto simp: well_formed_def)
    from depends_on_marshalled [OF lawful_services_axioms plain ds] deps_submitted [OF ds]
    show ?thesis by (auto simp: children_def waits_for_def split: option.splits)
  qed
  then show ?thesis by (simp add: finds_children_def)
qed

lemma decrement_refines:
  assumes run: "run_state (coord_step svc (NewCoordinator (NewTaskRepository svc) wr q bus) (C_decrement ev)) w = (c, w')"
    and dep: "finds_children svc w (tc_ExecutionID ev) (tc_RefID ev)"
  shows "coord_move (C_decrement ev) (board svc w) (handled_of (depends_on svc) (C_decrement ev) w w') c (board svc w')"
proof -
  let ?ex = "tc_ExecutionID ev" and ?p = "tc_RefID ev"
  obtain r w1 where decr: "run_state (DecrementAndGetReadyTasks (NewTaskRepository svc) ?ex ?p) w = (r, w1)" by fastforce
  note out = repo.DecrementAndGetReadyTasks_outcome [OF decr]
  have c: "c = (case r of Inl e \<Rightarrow> C_idle | Inr ids \<Rightarrow> if ids = [] then C_check ?ex else C_queue ids (length ids))"
    and w': "\<exists>l. w' = w1\<lparr>mlog := l\<rparr>"
    using run decr by (auto simp: coordinator_fields end_event_def split: sum.splits if_splits intro: exI [of _ "mlog w1"])
  then have rewritten: "tasks_rewritten (children (depends_on svc) ?ex ?p) decremented w w' \<longleftrightarrow>
      tasks_rewritten (children (depends_on svc) ?ex ?p) decremented w w1"
    and board: "board svc w' = board svc w1" by auto
  have idle: "\<not> holds_event c" using c by (auto simp: holds_event_def split: sum.splits)
  show ?thesis
  proof (cases "tasks_rewritten (children (depends_on svc) ?ex ?p) decremented w w1")
    case True
    have "mset (coord_tokens c) \<subseteq># released ?ex ?p (b_tasks (board svc w))"
      unfolding released_unblocked [OF dep] using c out by (auto split: sum.splits)
    with idle True rewritten board board_decremented [OF dep True info_decremented(1)]
      coord_move.decrement [of c ev "board svc w"]
    show ?thesis by simp
  next
    case False
    with out have "(\<exists>e. r = Inl e)" and "board svc w1 = board svc w"
      by (auto simp: children_def [abs_def] intro: board_unwritten)
    with False rewritten board c idle show ?thesis by (auto intro: coord_move.silent)
  qed
qed

lemma taint_refines:
  assumes run: "run_state (coord_step svc (NewCoordinator (NewTaskRepository svc) wr q bus) (C_taint ev)) w = (c, w')"
    and dep: "finds_children svc w (tt_ExecutionID ev) (tt_RefID ev)"
  shows "coord_move (C_taint ev) (board svc w) (handled_of (depends_on svc) (C_taint ev) w w') c (board svc w')"
proof -
  let ?ex = "tt_ExecutionID ev" and ?p = "tt_RefID ev"
  obtain r w1 where decr: "run_state (DecrementAndSetSkipHint (NewTaskRepository svc) ?ex ?p) w = (r, w1)" by fastforce
  note out = repo.DecrementAndSetSkipHint_outcome [OF decr]
  have c: "c = (case r of Inl e \<Rightarrow> C_idle | Inr ids \<Rightarrow> C_skip_queue ids (length ids) (tt_Type ev))"
    and w': "\<exists>l. w' = w1\<lparr>mlog := l\<rparr>"
    using run decr by (auto simp: coordinator_fields end_event_def split: sum.splits intro: exI [of _ "mlog w1"])
  then have rewritten: "tasks_rewritten (children (depends_on svc) ?ex ?p) tainted w w' \<longleftrightarrow>
      tasks_rewritten (children (depends_on svc) ?ex ?p) tainted w w1"
    and board: "board svc w' = board svc w1" by auto
  have idle: "\<not> holds_event c" using c by (auto simp: holds_event_def split: sum.splits)
  show ?thesis
  proof (cases "tasks_rewritten (children (depends_on svc) ?ex ?p) tainted w w1")
    case True
    have "mset (coord_tokens c) \<subseteq># released ?ex ?p (b_tasks (board svc w))"
      unfolding released_unblocked [OF dep] using c out by (auto split: sum.splits)
    with idle True rewritten board board_decremented [OF dep True info_decremented(2)]
      coord_move.taint [of c ev "board svc w"]
    show ?thesis by simp
  next
    case False
    with out have "(\<exists>e. r = Inl e)" and "board svc w1 = board svc w"
      by (auto simp: children_def [abs_def] intro: board_unwritten)
    with False rewritten board c idle show ?thesis by (auto intro: coord_move.silent)
  qed
qed

lemma run_for_each_log:
  assumes "\<And>x v. \<exists>l. run_state (f x) v = ((), v\<lparr>mlog := l\<rparr>)"
  shows "\<exists>l. run_state (for_each xs f) v = ((), v\<lparr>mlog := l\<rparr>)"
proof (induction xs arbitrary: v)
  case Nil
  show ?case by (intro exI [of _ "mlog v"]) simp
next
  case (Cons x xs)
  from assms [of x v] obtain l where l: "run_state (f x) v = ((), v\<lparr>mlog := l\<rparr>)" by blast
  from Cons [of "v\<lparr>mlog := l\<rparr>"] l show ?case by auto
qed

lemma end_termination_refines:
  "run_state (end_termination n ty) w = (c, w') \<Longrightarrow> c = C_idle \<and> board svc w' = board svc w"
proof -
  assume run: "run_state (end_termination n ty) w = (c, w')"
  obtain l where "run_state (for_each (replicate n ()) (\<lambda>_. do {
      inc CoordinatorSkipPropagationsTotal []; inc CoordinatorTasksUnblockedTotal [] })) w = ((), w\<lparr>mlog := l\<rparr>)"
    using run_for_each_log [of "\<lambda>_. do { inc CoordinatorSkipPropagationsTotal []; inc CoordinatorTasksUnblockedTotal [] }"
        "replicate n ()" w] by auto
  with run show ?thesis by (auto simp: end_termination_def end_event_def split: if_splits)
qed

lemma coordinator_refines:
  assumes run: "run_state (coord_step svc (NewCoordinator (NewTaskRepository svc) (NewWorkflowRepository svc)
      (NewRedisQueue svc main_key) (NewRedisEventBus svc)) pc) w = (c, w')"
    and dep: "\<And>ev. pc = C_decrement ev \<Longrightarrow> finds_children svc w (tc_ExecutionID ev) (tc_RefID ev)"
      "\<And>ev. pc = C_taint ev \<Longrightarrow> finds_children svc w (tt_ExecutionID ev) (tt_RefID ev)"
  shows "coord_move pc (board svc w) (handled_of (depends_on svc) pc w w') c (board svc w')"
proof (cases pc)
  case (C_decrement ev)
  with run dep(1) decrement_refines show ?thesis by (simp del: coord_step.simps handled_of.simps)
next
  case (C_taint ev)
  with run dep(2) taint_refines show ?thesis by (simp del: coord_step.simps handled_of.simps)
next
  case (C_queue ids n)
  show ?thesis
  proof (cases ids)
    case Nil
    with run C_queue show ?thesis
      by (auto simp: end_event_def holds_event_def intro!: coord_move.silent)
  next
    case (Cons i rest)
    obtain r w1 where push: "run_state (Push (NewRedisQueue svc main_key) (uuid_String svc i)) w = (r, w1)" by fastforce
    with run C_queue Cons have "c = C_queue rest n" "w' = w1" by (auto simp: coordinator_fields)
    with push_refines(1) [OF push refl] C_queue Cons show ?thesis
      by (auto simp: holds_event_def intro!: coord_move.queue)
  qed
next
  case (C_skip_queue ids n ty)
  show ?thesis
  proof (cases ids)
    case Nil
    with run C_skip_queue end_termination_refines [of n ty w c w'] show ?thesis
      by (auto simp: holds_event_def intro!: coord_move.silent)
  next
    case (Cons i rest)
    obtain r w1 where push: "run_state (Push (NewRedisQueue svc main_key) (uuid_String svc i)) w = (r, w1)" by fastforce
    with run C_skip_queue Cons have "c = C_skip_queue rest n ty" "w' = w1" by (auto simp: coordinator_fields)
    with push_refines(1) [OF push refl] C_skip_queue Cons show ?thesis
      by (auto simp: holds_event_def intro!: coord_move.queue)
  qed
next
  case (C_check ex)
  obtain r w1 where ask: "run_state (AreAllTasksCompleted (NewTaskRepository svc) ex) w = (r, w1)" by fastforce
  from repo.AreAllTasksCompleted_outcome [OF ask] have "board svc w1 = board svc w" by (auto intro: board_unwritten)
  with run C_check ask show ?thesis
    by (auto simp: coordinator_fields end_event_def holds_event_def split: sum.splits if_splits intro!: coord_move.silent)
next
  case (C_finish ex)
  obtain r w1 where upd: "run_state (UpdateStatus (NewWorkflowRepository svc) ex WorkflowCompleted) w = (r, w1)" by fastforce
  from wrepo.UpdateStatus_outcome [OF upd] have "board svc w1 = board svc w"
    by (cases r) (auto intro: board_unwritten board_execs_written)
  with run C_finish upd show ?thesis
    by (auto simp: coordinator_fields end_event_def holds_event_def split: sum.splits intro!: coord_move.silent)
qed (use run in \<open>auto simp: holds_event_def intro!: coord_move.silent\<close>)

section \<open>Requests\<close>

lemma board_created:
  "execution_created e ts w w' \<Longrightarrow> board svc w' = (board svc w)
     \<lparr>b_tasks := b_tasks (board svc w) @ map info ts, b_execs := insert (we_ID e) (b_execs (board svc w))\<rparr>"
  by (auto simp: execution_created_def board_def stamp_execution_def comp_def)

lemma request_refines:
  assumes run: "run_state (request_step svc (NewWorkflowService (NewTaskRepository svc) (NewRedisQueue svc main_key)) q) w = (q', w')"
  shows "request_move q (board svc w) q' (board svc w') \<or> (q' = q \<and> w' = w)"
proof (cases q)
  case (R_create e ts)
  obtain r w1 where create: "run_state (CreateExecution (NewTaskRepository svc) e ts) w = (r, w1)" by fastforce
  with run R_create have w': "w' = w1" and q': "q' = (case r of Inl err \<Rightarrow> R_done (Inl err)
      | Inr _ \<Rightarrow> R_push e (workflowService_getRootTasks ts))"
    by (auto simp: workflowService_persistWorkflow_def)
  have "execution_fresh e ts w \<and> execution_created e ts w w1 \<or> (\<exists>err. r = Inl err) \<and> unwritten w w1"
    using repo.CreateExecution_outcome [OF create] by (cases r) auto
  then show ?thesis
  proof (elim disjE exE conjE)
    assume new: "execution_fresh e ts w" "execution_created e ts w w1"
    then have "we_ID e \<notin> b_execs (board svc w)" "distinct (map ID ts)"
      "ID ` set ts \<inter> i_ID ` set (b_tasks (board svc w)) = {}"
      by (auto simp: execution_fresh_def board_def)
    from request_move.create [OF this, of q'] board_created [OF new(2)] q' w' R_create show ?thesis
      by (cases r) auto
  next
    fix err assume "r = Inl err" "unwritten w w1"
    with q' w' R_create show ?thesis by (auto simp: board_unwritten intro: request_move.give_up)
  qed
next
  case (R_push e ts)
  show ?thesis
  proof (cases ts)
    case Nil
    with run R_push show ?thesis by (auto intro: request_move.give_up)
  next
    case (Cons t rest)
    obtain r w1 where push: "run_state (Push (NewRedisQueue svc main_key) (uuid_String svc (ID t))) w = (r, w1)" by fastforce
    with run R_push Cons have w': "w' = w1" and q': "q' = (case r of Inl err \<Rightarrow> R_done (Inl err) | Inr _ \<Rightarrow> R_push e rest)"
      by auto
    from push_refines(1) [OF push refl] have "request_move (R_push e (t # rest)) (board svc w) q' (board svc w1)"
      by (intro request_move.push [where r = "case r of Inl err \<Rightarrow> Inl err | Inr _ \<Rightarrow> undefined"])
         (auto simp: q' split: sum.split)
    with w' R_push Cons show ?thesis by simp
  qed
next
  case (R_done r)
  with run show ?thesis by auto
qed

lemma submission_sane:
  assumes "sane_request reg req" and "ToWorkflowExecution ids clock req = (e, ts)"
  shows "sane_submission reg e ts"
proof -
  have e: "we_ID e = ids 0" "we_Status e = WorkflowRunning" and ts: "ts = ToTasks ids clock 1 (ids 0) (req_Tasks req)"
    using assms(2) by (auto simp: ToWorkflowExecution_simps NewWorkflow_def)
  have "\<exists>ds. marshal_dependencies (dto_Dependencies d) = marshal_dependencies ds \<and>
      slice_len (dto_Dependencies d) = slice_len ds \<and> (case ds of None \<Rightarrow> True | Some xs \<Rightarrow> distinct xs)"
    and "plain (dto_RefID d) \<and> reg (dto_Action d) \<noteq> None" if "d \<in> set (req_Tasks req)" for d
    using assms(1) that by (auto simp: sane_request_def sane_task_def list_all_iff)
  then show ?thesis
    using assms(1) unfolding sane_submission_def e ts map_ToTasks(2)
    by (auto simp: sane_request_def elim!: in_ToTasksE split: if_splits)
qed

section \<open>Every step is a move\<close>

lemma channels_differ [simp]: "completed_channel \<noteq> terminated_channel" "terminated_channel \<noteq> completed_channel"
  by (simp_all add: completed_channel_def terminated_channel_def)

lemma completed_taken:
  assumes "inbox_taken completed_channel P w w'"
  shows "\<exists>m. P m \<and> (case unmarshal_completed svc m of None \<Rightarrow> board svc w' = board svc w
    | Some ev \<Rightarrow> \<exists>evs. b_completed (board svc w) = ev # evs \<and> board svc w' = (board svc w)\<lparr>b_completed := evs\<rparr>)"
proof -
  obtain m ms where m: "P m" "inbox w completed_channel = m # ms" "inbox w' = (inbox w)(completed_channel := ms)"
    using assms by (auto simp: inbox_taken_def)
  with assms have "case unmarshal_completed svc m of None \<Rightarrow> board svc w' = board svc w
    | Some ev \<Rightarrow> \<exists>evs. b_completed (board svc w) = ev # evs \<and> board svc w' = (board svc w)\<lparr>b_completed := evs\<rparr>"
    by (simp add: inbox_taken_def board_def map_filter_Cons split: option.split)
  with m(1) show ?thesis by blast
qed

lemma terminated_taken:
  assumes "inbox_taken terminated_channel P w w'"
  shows "\<exists>m. P m \<and> (case unmarshal_terminated svc m of None \<Rightarrow> board svc w' = board svc w
    | Some ev \<Rightarrow> \<exists>evs. b_terminated (board svc w) = ev # evs \<and> board svc w' = (board svc w)\<lparr>b_terminated := evs\<rparr>)"
proof -
  obtain m ms where m: "P m" "inbox w terminated_channel = m # ms" "inbox w' = (inbox w)(terminated_channel := ms)"
    using assms by (auto simp: inbox_taken_def)
  with assms have "case unmarshal_terminated svc m of None \<Rightarrow> board svc w' = board svc w
    | Some ev \<Rightarrow> \<exists>evs. b_terminated (board svc w) = ev # evs \<and> board svc w' = (board svc w)\<lparr>b_terminated := evs\<rparr>"
    by (simp add: inbox_taken_def board_def map_filter_Cons split: option.split)
  with m(1) show ?thesis by blast
qed

lemma subscription_refines_completed:
  assumes "run_state (SubscribeToEvents (NewRedisEventBus svc)) w = (x, w')"
  shows "board svc w' = board svc w \<and> x = None \<or>
     (\<exists>ev evs. b_completed (board svc w) = ev # evs \<and> (x = None \<or> x = Some ev) \<and>
        board svc w' = (board svc w)\<lparr>b_completed := evs\<rparr>)"
proof (cases x)
  case None
  with bus.SubscribeToEvents_outcome [OF assms] have "unwritten w w' \<or> inbox_taken completed_channel (\<lambda>_. True) w w'"
    by simp
  with None completed_taken [of "\<lambda>_. True" w w'] show ?thesis
    by (auto simp: board_unwritten split: option.splits)
next
  case (Some ev)
  with bus.SubscribeToEvents_outcome [OF assms] completed_taken [of "\<lambda>m. unmarshal_completed svc m = Some ev" w w']
  show ?thesis by auto
qed

lemma subscription_refines_terminated:
  assumes "run_state (SubscribeToTerminationEvents (NewRedisEventBus svc)) w = (y, w')"
  shows "board svc w' = board svc w \<and> y = None \<or>
     (\<exists>ev evs. b_terminated (board svc w) = ev # evs \<and> (y = None \<or> y = Some ev) \<and>
        board svc w' = (board svc w)\<lparr>b_terminated := evs\<rparr>)"
proof (cases y)
  case None
  with bus.SubscribeToTerminationEvents_outcome [OF assms]
  have "unwritten w w' \<or> inbox_taken terminated_channel (\<lambda>_. True) w w'" by simp
  with None terminated_taken [of "\<lambda>_. True" w w'] show ?thesis
    by (auto simp: board_unwritten split: option.splits)
next
  case (Some ev)
  with bus.SubscribeToTerminationEvents_outcome [OF assms]
    terminated_taken [of "\<lambda>m. unmarshal_terminated svc m = Some ev" w w']
  show ?thesis by auto
qed

lemma collector_unwritten:
  assumes "m = RedisQueueDepthCollector_tick svc key \<or> m = DBPoolCollector_tick idle in_use"
    and "run_state m w = (u, w')"
  shows "unwritten w w'"
proof -
  obtain r w1 where len: "run_state (redis_LLen svc key) w = (r, w1)" by fastforce
  from LLen_law [unfolded call_law_def, rule_format, OF len] have "unwritten w w1"
    by (cases r) (auto intro: same_unwritten)
  with assms len show ?thesis
    by (auto simp: RedisQueueDepthCollector_tick_def DBPoolCollector_tick_def split: sum.splits)
qed

lemma worker_pc_registered:
  assumes "sys_inv reg a" and "pc \<in> set (a_workers a)"
  shows "\<not> unregistered pc" and "worker_task pc = Some t \<Longrightarrow> reg (Action t) \<noteq> None"
proof -
  have ok: "worker_ok a pc" using assms by (simp add: sys_inv_def inv_workers_def)
  then show "\<not> unregistered pc" by (simp add: worker_ok_def)
  assume "worker_task pc = Some t"
  with ok have "ident (info t) \<in> rows (b_tasks (a_board a))" by (simp add: worker_ok_def)
  with assms(1) have "well_formed reg (ident (info t))" by (simp add: sys_inv_def inv_rows_alt)
  then show "reg (Action t) \<noteq> None" by (simp add: well_formed_def)
qed

lemma main_worker:
  "\<exists>i. worker_of (main_server svc id1 id2) k =
     NewWorker svc i (NewRedisQueue svc (if k < 9 then main_key else retry_key)) (NewRedisQueue svc retry_key)
       (NewTaskRepository svc) (NewWorkflowRepository svc) (NewRedisEventBus svc) InitRegistry"
  by (cases "k < 9") (auto simp: worker_of_def)

lemma step_is_move:
  assumes "sys_step svc (main_server svc id1 id2) s t" and sys_inv: "sys_inv InitRegistry (abs_sys svc s)"
  shows "move InitRegistry (abs_sys svc s) (abs_sys svc t)"
  using assms(1)
proof cases
  case (worker k pc w)
  obtain i where wk: "worker_of (main_server svc id1 id2) k =
      NewWorker svc i (NewRedisQueue svc (if k < 9 then main_key else retry_key)) (NewRedisQueue svc retry_key)
       (NewTaskRepository svc) (NewWorkflowRepository svc) (NewRedisEventBus svc) InitRegistry"
    using main_worker by blast
  have pc: "sys_workers s ! k \<in> set (a_workers (abs_sys svc s))" using worker(2) by simp
  have "worker_move (k < 9) (sys_workers s ! k) (board svc (sys_world s)) pc (board svc w)"
    using worker_refines [OF worker(3) [unfolded wk] refl] worker_pc_registered [OF sys_inv pc] by blast
  with move.worker [of k "abs_sys svc s" "k < 9" pc "board svc w" InitRegistry] worker(1,2)
  show ?thesis by (simp add: abs_sys_def)
next
  case (receive_completed x w)
  have "run_state (SubscribeToEvents (NewRedisEventBus svc)) (sys_world s) = (x, w)"
    using receive_completed(3) by (simp add: coordinator_fields)
  from subscription_refines_completed [OF this] consider
      (same) "board svc w = board svc (sys_world s)" "x = None"
    | (taken) ev evs where "b_completed (board svc (sys_world s)) = ev # evs" "x = None \<or> x = Some ev"
        "board svc w = (board svc (sys_world s))\<lparr>b_completed := evs\<rparr>"
    by blast
  then show ?thesis
  proof cases
    case same
    with receive_completed have "abs_sys svc t = abs_sys svc s" by (simp add: abs_sys_def)
    then show ?thesis by (simp add: move.stay)
  next
    case taken
    with move.receive_completed [of "abs_sys svc s" ev evs x InitRegistry] receive_completed(1,2)
    show ?thesis by (simp add: abs_sys_def)
  qed
next
  case (coordinator c w)
  have a: "a_board (abs_sys svc s) = board svc (sys_world s)" by simp
  have rows: "inv_rows InitRegistry (abs_sys svc s)" and ev: "inv_events (abs_sys svc s)"
    using sys_inv by (simp_all add: sys_inv_def)
  have "finds_children svc (sys_world s) (tc_ExecutionID e) (tc_RefID e)" if "sys_coord s = C_decrement e" for e
    using ev that by (intro finds_childrenI [OF rows a]) (auto simp: inv_events_def completed_events_def)
  moreover have "finds_children svc (sys_world s) (tt_ExecutionID e) (tt_RefID e)" if "sys_coord s = C_taint e" for e
    using ev that by (intro finds_childrenI [OF rows a]) (auto simp: inv_events_def terminated_events_def)
  ultimately have "coord_move (sys_coord s) (board svc (sys_world s))
      (handled_of (depends_on svc) (sys_coord s) (sys_world s) w) c (board svc w)"
    using coordinator(2) by (intro coordinator_refines) simp_all
  with move.coordinator [of "abs_sys svc s" _ c "board svc w" InitRegistry] coordinator(1)
  show ?thesis by (simp add: abs_sys_def)
next
  case (request k q w)
  from request_refines [OF request(3) [unfolded main_server_simps]] show ?thesis
  proof
    assume "q = sys_requests s ! k \<and> w = sys_world s"
    with request(1,2) have "abs_sys svc t = abs_sys svc s" by (simp add: abs_sys_def)
    then show ?thesis by (simp add: move.stay)
  next
    assume "request_move (sys_requests s ! k) (board svc (sys_world s)) q (board svc w)"
    with move.request [of k "abs_sys svc s" q "board svc w" InitRegistry] request(1,2)
    show ?thesis by (simp add: abs_sys_def)
  qed
next
  case (collector m key idle in_use u w)
  have "abs_sys svc t = abs_sys svc s"
    using board_unwritten [OF collector_unwritten [OF collector(2,3)]] collector(1) by (simp add: abs_sys_def)
  then show ?thesis by (simp add: move.stay)
next
  case (arrive req ids clock e ts)
  with submission_sane move.arrive [of InitRegistry e ts "abs_sys svc s"] show ?thesis
    by (simp add: abs_sys_def)
next
  case (receive_terminated y w)
  have "run_state (SubscribeToTerminationEvents (NewRedisEventBus svc)) (sys_world s) = (y, w)"
    using receive_terminated(3) by (simp add: coordinator_fields)
  from subscription_refines_terminated [OF this] consider
      (same) "board svc w = board svc (sys_world s)" "y = None"
    | (taken) ev evs where "b_terminated (board svc (sys_world s)) = ev # evs" "y = None \<or> y = Some ev"
        "board svc w = (board svc (sys_world s))\<lparr>b_terminated := evs\<rparr>"
    by blast
  then show ?thesis
  proof cases
    case same
    with receive_terminated have "abs_sys svc t = abs_sys svc s" by (simp add: abs_sys_def)
    then show ?thesis by (simp add: move.stay)
  next
    case taken
    with move.receive_terminated [of "abs_sys svc s" ev evs y InitRegistry] receive_terminated(1,2)
    show ?thesis by (simp add: abs_sys_def)
  qed
next
  case (take_completed ev u w)
  with move.take_completed [of "abs_sys svc s" ev InitRegistry] show ?thesis by (auto simp: abs_sys_def)
next
  case (take_terminated ev u w)
  with move.take_terminated [of "abs_sys svc s" ev InitRegistry] show ?thesis by (auto simp: abs_sys_def)
qed

lemma initial_invariant:
  assumes "empty_world w"
  shows "sys_inv InitRegistry (abs_sys svc (sys_init sv w))"
proof -
  let ?a = "abs_sys svc (sys_init sv w)"
  have a: "a_board ?a = \<lparr>b_tasks = [], b_execs = {}, b_main = [], b_retry = [], b_completed = [], b_terminated = []\<rparr>"
    "a_coord ?a = C_idle" "a_completed ?a = None" "a_terminated ?a = None" "a_requests ?a = []"
    "a_succeeded ?a = []" "a_handled ?a = []" "set (a_workers ?a) \<subseteq> {W_idle}"
    using assms by (auto simp: empty_world_def sys_init_def board_def List.map_filter_simps)
  have "slots worker_tokens (a_workers ?a) = {#}" "slots worker_live (a_workers ?a) = {#}"
    by (simp_all add: sys_init_def worker_live_def)
  with a have "inv_tokens ?a"
    by (simp add: inv_tokens_def places_def live_def coord_places_def queued_def announced_def task_ids_def
        waiting_def coord_live_def holds_event_def del: abs_sys_simps)
  moreover have "inv_workers ?a" using a(8) by (auto simp: inv_workers_def worker_ok_def)
  ultimately show ?thesis
    using a(1-7)
    by (simp add: sys_inv_def inv_rows_def one_ref_def inv_events_def completed_events_def terminated_events_def
        inv_degrees_def degrees_ok_def skips_ok_def inv_requests_def inv_order_def del: abs_sys_simps)
qed

theorem reachable_invariant:
  "reachable svc (main_server svc id1 id2) s \<Longrightarrow> sys_inv InitRegistry (abs_sys svc s)"
  by (induction rule: reachable.induct) (blast intro: initial_invariant inv_move step_is_move)+

end

end
