(* ===== verification/System_Progress.thy ===== *)
theory System_Progress
  imports System_Refinement
begin

text \<open>
  What the steps make of the rows: every step keeps the database within the monotone order of
  \<open>Evolution\<close>, a task row is COMPLETED only if the task's action has succeeded, and an execution
  is COMPLETED only if the actions of all its tasks have.
\<close>

section \<open>Every step evolves the world\<close>

context lawful_services
begin

lemma coord_step_evolves:
  "state_io_rel evolves (coord_step svc (NewCoordinator (NewTaskRepository svc) (NewWorkflowRepository svc)
     (NewRedisQueue svc key) (NewRedisEventBus svc)) pc)"
  by (cases "(svc, NewCoordinator (NewTaskRepository svc) (NewWorkflowRepository svc)
        (NewRedisQueue svc key) (NewRedisEventBus svc), pc)" rule: coord_step.cases)
     (auto simp: coordinator_fields end_event_def end_termination_def
       intro!: evolve_intros queue.Push_evolves repo.task_repository_evolves wrepo.workflow_repository_evolves)

lemma request_step_evolves:
  "state_io_rel evolves (request_step svc (NewWorkflowService (NewTaskRepository svc) (NewRedisQueue svc key)) q)"
  by (cases "(svc, NewWorkflowService (NewTaskRepository svc) (NewRedisQueue svc key), q)" rule: request_step.cases)
     (auto simp: workflowService_persistWorkflow_def
       intro!: evolve_intros queue.Push_evolves repo.task_repository_evolves)

lemma system_step_evolves:
  assumes "sys_step svc (main_server svc id1 id2) s t"
  shows "evolves (sys_world s) (sys_world t)"
  using assms
proof cases
  case (worker k pc w)
  obtain i where wk: "worker_of (main_server svc id1 id2) k =
      NewWorker svc i (NewRedisQueue svc (if k < 9 then main_key else retry_key)) (NewRedisQueue svc retry_key)
       (NewTaskRepository svc) (NewWorkflowRepository svc) (NewRedisEventBus svc) InitRegistry"
    using main_worker by blast
  from state_io_relD [OF worker_step_evolves worker(3) [unfolded wk]] worker(1) show ?thesis by simp
next
  case (coordinator c w)
  then show ?thesis using state_io_relD [OF coord_step_evolves] by simp
next
  case (request k q w)
  then show ?thesis using state_io_relD [OF request_step_evolves] by simp
next
  case (collector m key idle in_use u w)
  then show ?thesis using state_io_relD [OF collector_evolves(1)] state_io_relD [OF collector_evolves(2)] by auto
next
  case (receive_completed x w)
  then show ?thesis using state_io_relD [OF bus.bus_evolves(3)] by (simp add: coordinator_fields)
next
  case (receive_terminated y w)
  then show ?thesis using state_io_relD [OF bus.bus_evolves(4)] by (simp add: coordinator_fields)
next
  case (take_completed ev u w)
  then show ?thesis by (auto intro: evolves_log)
next
  case (take_terminated ev u w)
  then show ?thesis by (auto intro: evolves_log)
qed (simp add: evolves_refl)

end

section \<open>Where the status COMPLETED comes from\<close>

text \<open>
  A call may set the status of the tasks in \<open>S\<close> and of the executions in \<open>E\<close> to COMPLETED, and
  of no other row.
\<close>

definition completes :: "uuid set \<Rightarrow> uuid set \<Rightarrow> 'h world \<Rightarrow> 'h world \<Rightarrow> bool" where
  "completes S E w w' \<longleftrightarrow>
     (\<forall>t' \<in> set (task_rows w'). Status t' = StatusCompleted \<longrightarrow>
        ID t' \<in> S \<or> (\<exists>t \<in> set (task_rows w). Status t = StatusCompleted \<and> ID t = ID t')) \<and>
     (\<forall>e' \<in> set (exec_rows w'). we_Status e' = WorkflowCompleted \<longrightarrow>
        we_ID e' \<in> E \<or> (\<exists>e \<in> set (exec_rows w). we_Status e = WorkflowCompleted \<and> we_ID e = we_ID e'))"

lemma completes_tables:
  "task_rows w' = task_rows w \<Longrightarrow> exec_rows w' = exec_rows w \<Longrightarrow> completes S E w w'"
  by (auto simp: completes_def)

lemma completes_unwritten: "unwritten w w' \<Longrightarrow> completes S E w w'"
  by (simp add: unwritten_def completes_tables)

lemma completes_log [simp]:
  "completes S E w (v\<lparr>mlog := l\<rparr>) = completes S E w v" "completes S E (w\<lparr>mlog := l\<rparr>) v = completes S E w v"
  by (simp_all add: completes_def)

lemma completes_update:
  assumes "task_rows w' = update_where P f (task_rows w)" and "exec_rows w' = exec_rows w"
    and "\<And>t. P t \<Longrightarrow> Status (f t) = StatusCompleted \<Longrightarrow> Status t = StatusCompleted \<or> ID t \<in> S"
    and "\<And>t. ID (f t) = ID t"
  shows "completes S E w w'"
  unfolding completes_def
proof (intro conjI ballI impI)
  fix t' assume t': "t' \<in> set (task_rows w')" "Status t' = StatusCompleted"
  then obtain t where t: "t \<in> set (task_rows w)" "t' = (if P t then f t else t)"
    by (auto simp: assms(1) set_update_where)
  with t'(2) assms(3,4) [of t] show "ID t' \<in> S \<or> (\<exists>t \<in> set (task_rows w). Status t = StatusCompleted \<and> ID t = ID t')"
    by (cases "P t") auto
qed (use assms(2) in auto)

lemma completes_tasks_written:
  assumes "tasks_written P f w w'"
    and "\<And>t. P t \<Longrightarrow> Status (f t) = StatusCompleted \<Longrightarrow> Status t = StatusCompleted \<or> ID t \<in> S"
    and "\<And>t. ID (f t) = ID t"
  shows "completes S E w w'"
proof -
  from assms(1) obtain ts where rows: "task_rows w' = update_where P (\<lambda>t. (f t)\<lparr>UpdatedAt := ts\<rparr>) (task_rows w)"
    and execs: "exec_rows w' = exec_rows w"
    by (auto simp: tasks_written_def)
  from rows execs show ?thesis by (rule completes_update) (use assms(2,3) in auto)
qed

lemma completes_execs_written:
  assumes "execs_written Q (\<lambda>e. e\<lparr>we_Status := s\<rparr>) w w'" and "\<And>e. Q e \<Longrightarrow> s = WorkflowCompleted \<Longrightarrow> we_ID e \<in> E"
  shows "completes S E w w'"
proof -
  obtain ts where rows: "exec_rows w' = update_where Q (\<lambda>e. (e\<lparr>we_Status := s\<rparr>)\<lparr>we_UpdatedAt := ts\<rparr>) (exec_rows w)"
    and tasks: "task_rows w' = task_rows w"
    using assms(1) by (auto simp: execs_written_def)
  show ?thesis
    unfolding completes_def rows set_update_where tasks using assms(2) by (auto split: if_splits)
qed

lemma completes_created:
  assumes "execution_created e ts w w'" and "we_Status e \<noteq> WorkflowCompleted"
    and "\<And>t. t \<in> set ts \<Longrightarrow> Status t \<noteq> StatusCompleted"
  shows "completes S E w w'"
  using assms by (auto simp: completes_def execution_created_def stamp_execution_def stamp_task_def task_column_defaults_def)

lemma completes_maybe:
  "maybe (row_written i f) w w' \<Longrightarrow>
   (\<And>t. ID t = i \<Longrightarrow> Status (f t) = StatusCompleted \<Longrightarrow> Status t = StatusCompleted \<or> ID t \<in> S) \<Longrightarrow>
   (\<And>t. ID (f t) = ID t) \<Longrightarrow> completes S E w w'"
  unfolding maybe_def row_written_def by (blast intro: completes_unwritten completes_tasks_written)

lemma completes_failed_execution: "maybe (failed_execution ex) w w' \<Longrightarrow> completes S E w w'"
  unfolding maybe_def failed_execution_def
  by (elim disjE) (auto intro: completes_unwritten completes_execs_written)

interpretation completing: preorder_relation "completes S E" for S E
  by unfold_locales (simp add: completes_tables, unfold completes_def, metis)

context lawful_services
begin

lemma completes_calls:
  "run_state (Push (NewRedisQueue svc key) x) w = (r1, w') \<Longrightarrow> completes S E w w'"
  "run_state (Pop (NewRedisQueue svc key)) w = (r2, w') \<Longrightarrow> completes S E w w'"
  "run_state (FindTaskByID (NewTaskRepository svc) tid) w = (r3, w') \<Longrightarrow> completes S E w w'"
  "run_state (ClaimTask (NewTaskRepository svc) tid name v) w = (r4, w') \<Longrightarrow> completes S E w w'"
  "run_state (MarkCompleted (NewTaskRepository svc) tid out) w = (r5, w') \<Longrightarrow> tid \<in> S \<Longrightarrow> completes S E w w'"
  "run_state (MarkFailed (NewTaskRepository svc) tid msg) w = (r6, w') \<Longrightarrow> completes S E w w'"
  "run_state (MarkSkipped (NewTaskRepository svc) tid) w = (r7, w') \<Longrightarrow> completes S E w w'"
  "run_state (IncrementRetryCount (NewTaskRepository svc) tid v) w = (r8, w') \<Longrightarrow> completes S E w w'"
  "run_state (UpdateStatus (NewWorkflowRepository svc) ex WorkflowFailed) w = (r9, w') \<Longrightarrow> completes S E w w'"
  "run_state (PublishTaskCompleted (NewRedisEventBus svc) ev) w = (r10, w') \<Longrightarrow> completes S E w w'"
  "run_state (PublishTaskTerminated (NewRedisEventBus svc) ev') w = (r11, w') \<Longrightarrow> completes S E w w'"
proof -
  show "run_state (Push (NewRedisQueue svc key) x) w = (r1, w') \<Longrightarrow> completes S E w w'"
    by (drule queue.Push_tables) (simp add: completes_tables)
  show "run_state (Pop (NewRedisQueue svc key)) w = (r2, w') \<Longrightarrow> completes S E w w'"
    by (drule queue.Pop_outcome, cases r2)
       (auto simp: queue_written_def unwritten_def intro!: completes_tables)
  show "run_state (FindTaskByID (NewTaskRepository svc) tid) w = (r3, w') \<Longrightarrow> completes S E w w'"
    by (drule repo.FindTaskByID_outcome) (simp add: completes_unwritten)
  show "run_state (ClaimTask (NewTaskRepository svc) tid name v) w = (r4, w') \<Longrightarrow> completes S E w w'"
    by (drule repo.ClaimTask_outcome [THEN conjunct1], cases r4)
       (auto simp: claimed_def intro: completes_unwritten completes_tasks_written)
  show "run_state (MarkCompleted (NewTaskRepository svc) tid out) w = (r5, w') \<Longrightarrow> tid \<in> S \<Longrightarrow> completes S E w w'"
    by (rule completes_maybe, erule pool.MarkCompleted_maybe) (auto simp: completed_def)
  show "run_state (MarkFailed (NewTaskRepository svc) tid msg) w = (r6, w') \<Longrightarrow> completes S E w w'"
    by (drule pool.MarkFailed_maybe, erule exE, erule completes_maybe) (auto simp: failed_row_def)
  show "run_state (MarkSkipped (NewTaskRepository svc) tid) w = (r7, w') \<Longrightarrow> completes S E w w'"
    by (drule repo.MarkSkipped_outcome, cases r7) (auto intro: completes_unwritten completes_tasks_written)
  show "run_state (IncrementRetryCount (NewTaskRepository svc) tid v) w = (r8, w') \<Longrightarrow> completes S E w w'"
    by (drule repo.IncrementRetryCount_outcome [THEN conjunct1], cases r8)
       (auto simp: retried_def intro: completes_unwritten completes_tasks_written)
  show "run_state (UpdateStatus (NewWorkflowRepository svc) ex WorkflowFailed) w = (r9, w') \<Longrightarrow> completes S E w w'"
    by (rule completes_failed_execution, erule pool.UpdateStatus_maybe)
  show "run_state (PublishTaskCompleted (NewRedisEventBus svc) ev) w = (r10, w') \<Longrightarrow> completes S E w w'"
    by (drule bus.Publish_keeps(1)) (simp add: completes_tables)
  show "run_state (PublishTaskTerminated (NewRedisEventBus svc) ev') w = (r11, w') \<Longrightarrow> completes S E w w'"
    by (drule bus.Publish_keeps(2)) (simp add: completes_tables)
qed

lemma completing_calls:
  "state_io_rel (completes S E) (Push (NewRedisQueue svc key) x)"
  "state_io_rel (completes S E) (Pop (NewRedisQueue svc key))"
  "state_io_rel (completes S E) (FindTaskByID (NewTaskRepository svc) tid)"
  "state_io_rel (completes S E) (ClaimTask (NewTaskRepository svc) tid name v)"
  "state_io_rel (completes S E) (MarkFailed (NewTaskRepository svc) tid msg)"
  "state_io_rel (completes S E) (MarkSkipped (NewTaskRepository svc) tid)"
  "state_io_rel (completes S E) (IncrementRetryCount (NewTaskRepository svc) tid v)"
  "state_io_rel (completes S E) (UpdateStatus (NewWorkflowRepository svc) ex WorkflowFailed)"
  "state_io_rel (completes S E) (PublishTaskCompleted (NewRedisEventBus svc) ev)"
  "state_io_rel (completes S E) (PublishTaskTerminated (NewRedisEventBus svc) ev')"
  "tid \<in> S \<Longrightarrow> state_io_rel (completes S E) (MarkCompleted (NewTaskRepository svc) tid out)"
  by (rule state_io_relI, erule completes_calls; assumption?)+

lemma completing_log:
  "state_io_rel (completes S E) (inc m ls)" "state_io_rel (completes S E) (dec m ls)"
  "state_io_rel (completes S E) (observe m ls)"
  by (auto intro!: state_io_relI completes_tables)

lemma worker_completes:
  assumes "\<And>t out. pc = W_complete t out \<Longrightarrow> ID t \<in> S"
  shows "state_io_rel (completes S E) (worker_step svc (NewWorker svc i (NewRedisQueue svc key) (NewRedisQueue svc rkey)
      (NewTaskRepository svc) (NewWorkflowRepository svc) (NewRedisEventBus svc) reg) ctx pc)"
  using assms
  by (cases pc)
     (auto simp: worker_fields Worker_claimTask_def run_action_def end_claimed_def Let_def
       intro!: completing.io_rules completing_log completing_calls)

lemma completing_coordinator_calls:
  "state_io_rel (completes S E) (DecrementAndGetReadyTasks (NewTaskRepository svc) ex p)"
  "state_io_rel (completes S E) (DecrementAndSetSkipHint (NewTaskRepository svc) ex p)"
  "state_io_rel (completes S E) (AreAllTasksCompleted (NewTaskRepository svc) ex)"
  "ex \<in> E \<Longrightarrow> state_io_rel (completes S E) (UpdateStatus (NewWorkflowRepository svc) ex WorkflowCompleted)"
proof -
  have decr: "completes S E w w'"
    if "tasks_rewritten P f w w'" "f = decremented \<or> f = tainted" for P f and w w' :: "'h world"
    using that by (intro completes_update [where P = P and f = f])
      (auto simp: tasks_rewritten_def decremented_def tainted_def split: if_splits)
  show "state_io_rel (completes S E) (DecrementAndGetReadyTasks (NewTaskRepository svc) ex p)"
    by (rule state_io_relI) (auto dest!: repo.DecrementAndGetReadyTasks_outcome [THEN conjunct1]
        intro: completes_unwritten decr)
  show "state_io_rel (completes S E) (DecrementAndSetSkipHint (NewTaskRepository svc) ex p)"
    by (rule state_io_relI) (auto dest!: repo.DecrementAndSetSkipHint_outcome [THEN conjunct1]
        intro: completes_unwritten decr)
  show "state_io_rel (completes S E) (AreAllTasksCompleted (NewTaskRepository svc) ex)"
    by (rule state_io_relI) (auto dest!: repo.AreAllTasksCompleted_outcome intro: completes_unwritten)
  assume ex: "ex \<in> E"
  show "state_io_rel (completes S E) (UpdateStatus (NewWorkflowRepository svc) ex WorkflowCompleted)"
  proof (rule state_io_relI)
    fix r and w w' :: "'h world"
    assume "run_state (UpdateStatus (NewWorkflowRepository svc) ex WorkflowCompleted) w = (r, w')"
    from wrepo.UpdateStatus_outcome [OF this] show "completes S E w w'"
      using ex by (cases r) (auto simp: status_writable_def intro: completes_unwritten completes_execs_written)
  qed
qed

lemma coordinator_completes:
  assumes "\<And>ex. pc = C_finish ex \<Longrightarrow> ex \<in> E"
  shows "state_io_rel (completes S E) (coord_step svc (NewCoordinator (NewTaskRepository svc) (NewWorkflowRepository svc)
     (NewRedisQueue svc key) (NewRedisEventBus svc)) pc)"
  using assms
  by (cases "(svc, NewCoordinator (NewTaskRepository svc) (NewWorkflowRepository svc)
        (NewRedisQueue svc key) (NewRedisEventBus svc), pc)" rule: coord_step.cases)
     (auto simp: coordinator_fields end_event_def end_termination_def
       intro!: completing.io_rules completing_log completing_calls completing_coordinator_calls)

lemma request_completes:
  assumes "\<And>e ts. q = R_create e ts \<Longrightarrow> sane_submission reg e ts"
  shows "state_io_rel (completes S E) (request_step svc (NewWorkflowService (NewTaskRepository svc) (NewRedisQueue svc key)) q)"
proof -
  have "state_io_rel (completes S E) (CreateExecution (NewTaskRepository svc) e ts)" if "sane_submission reg e ts" for e ts
  proof (rule state_io_relI)
    fix r and w w' :: "'h world"
    assume "run_state (CreateExecution (NewTaskRepository svc) e ts) w = (r, w')"
    from repo.CreateExecution_outcome [OF this] have "execution_created e ts w w' \<or> unwritten w w'"
      by (cases r) auto
    with that show "completes S E w w'"
      by (auto simp: sane_submission_def intro: completes_unwritten completes_created)
  qed
  with assms show ?thesis
    by (cases "(svc, NewWorkflowService (NewTaskRepository svc) (NewRedisQueue svc key), q)" rule: request_step.cases)
       (auto simp: workflowService_persistWorkflow_def intro!: completing.io_rules completing_calls)
qed

text \<open>What a step of the system may complete.\<close>

definition may_complete :: "'h sys \<Rightarrow> uuid set" where
  "may_complete s = {ex. sys_coord s = C_finish ex}"

lemma step_completes:
  assumes step: "sys_step svc (main_server svc id1 id2) s t" and sys_inv: "sys_inv InitRegistry (abs_sys svc s)"
  shows "completes (set (sys_succeeded s)) (may_complete s) (sys_world s) (sys_world t)"
  using step
proof cases
  case (worker k pc w)
  obtain i where wk: "worker_of (main_server svc id1 id2) k =
      NewWorker svc i (NewRedisQueue svc (if k < 9 then main_key else retry_key)) (NewRedisQueue svc retry_key)
       (NewTaskRepository svc) (NewWorkflowRepository svc) (NewRedisEventBus svc) InitRegistry"
    using main_worker by blast
  have "worker_ok (abs_sys svc s) (sys_workers s ! k)" using sys_inv worker(2) by (simp add: sys_inv_def inv_workers_def)
  then have "ID t \<in> set (sys_succeeded s)" if "sys_workers s ! k = W_complete t out" for t out
    using that by (simp add: worker_ok_def)
  from state_io_relD [OF worker_completes [OF this] worker(3) [unfolded wk]] worker(1) show ?thesis by simp
next
  case (coordinator c w)
  have "state_io_rel (completes (set (sys_succeeded s)) (may_complete s))
      (coord_step svc (sv_coord (main_server svc id1 id2)) (sys_coord s))"
    unfolding main_server_simps by (rule coordinator_completes) (simp add: may_complete_def)
  from state_io_relD [OF this coordinator(2)] coordinator(1) show ?thesis by simp
next
  case (request k q w)
  have "sane_submission InitRegistry e ts" if "sys_requests s ! k = R_create e ts" for e ts
  proof -
    have "R_create e ts \<in> set (sys_requests s)" using that request(2) by (metis nth_mem)
    with sys_inv show ?thesis by (simp add: sys_inv_def inv_requests_def)
  qed
  from state_io_relD [OF request_completes [OF this] request(3) [unfolded main_server_simps]] request(1)
  show ?thesis by simp
next
  case (collector m key idle in_use u w)
  with completes_unwritten [OF collector_unwritten [OF collector(2,3)]] show ?thesis by simp
next
  case (receive_completed x w)
  then have "run_state (SubscribeToEvents (NewRedisEventBus svc)) (sys_world s) = (x, w)" by (simp add: coordinator_fields)
  from bus.SubscribeToEvents_outcome [OF this] receive_completed(1) show ?thesis
    by (auto simp: unwritten_def inbox_taken_def split: option.splits intro!: completes_tables)
next
  case (receive_terminated y w)
  then have "run_state (SubscribeToTerminationEvents (NewRedisEventBus svc)) (sys_world s) = (y, w)"
    by (simp add: coordinator_fields)
  from bus.SubscribeToTerminationEvents_outcome [OF this] receive_terminated(1) show ?thesis
    by (auto simp: unwritten_def inbox_taken_def split: option.splits intro!: completes_tables)
qed (auto intro: completes_tables)

end

section \<open>COMPLETED means that every task succeeded\<close>

definition all_succeeded :: "'h sys \<Rightarrow> uuid \<Rightarrow> bool" where
  "all_succeeded s ex \<longleftrightarrow>
     (\<forall>t \<in> set (task_rows (sys_world s)). ExecutionID t = ex \<longrightarrow> ID t \<in> set (sys_succeeded s))"

definition stored_execution :: "'h sys \<Rightarrow> uuid \<Rightarrow> bool" where
  "stored_execution s ex \<longleftrightarrow> ex \<in> we_ID ` set (exec_rows (sys_world s))"

definition completions_ok :: "'h sys \<Rightarrow> bool" where
  "completions_ok s \<longleftrightarrow>
     (\<forall>t \<in> set (task_rows (sys_world s)). Status t = StatusCompleted \<longrightarrow> ID t \<in> set (sys_succeeded s)) \<and>
     (\<forall>e \<in> set (exec_rows (sys_world s)). we_Status e = WorkflowCompleted \<longrightarrow> all_succeeded s (we_ID e)) \<and>
     (\<forall>ex. sys_coord s = C_check ex \<or> sys_coord s = C_finish ex \<longrightarrow> stored_execution s ex) \<and>
     (\<forall>ex. sys_coord s = C_finish ex \<longrightarrow> all_succeeded s ex)"

text \<open>New tasks belong to new executions only.\<close>

lemma move_rows:
  assumes "move reg a a'" and "inv_requests reg a" and "x \<in> rows (b_tasks (a_board a'))"
  shows "x \<in> rows (b_tasks (a_board a)) \<or> i_Exec x \<notin> b_execs (a_board a)"
  using assms(1)
proof cases
  case (worker k m pc b)
  with worker_move_tokens(1) [OF worker(3)] assms(3) show ?thesis by simp
next
  case (coordinator hs c b)
  with coord_move_rows(1) [OF coordinator(2)] assms(3) show ?thesis by simp
next
  case (request k q b)
  from request_move_board [OF request(3)] show ?thesis
  proof (elim conjE disjE exE)
    fix e ts assume create: "a_requests a ! k = R_create e ts" "we_ID e \<notin> b_execs (a_board a)"
      "b_tasks b = b_tasks (a_board a) @ map info ts"
    have "R_create e ts \<in> set (a_requests a)" using create(1) request(2) by (metis nth_mem)
    then have "sane_submission reg e ts" using assms(2) by (simp add: inv_requests_def)
    with create(2,3) assms(3) request(1) show ?thesis by (auto simp: rows_def sane_submission_def)
  qed (use assms(3) request(1) in simp_all)
qed (use assms(3) in simp_all)

lemma move_mono:
  assumes "move reg a a'"
  shows "b_execs (a_board a) \<subseteq> b_execs (a_board a')" and "set (a_succeeded a) \<subseteq> set (a_succeeded a')"
  using assms
  by (induction rule: move.induct)
     (auto dest: worker_move_events(3) coord_move_rows(2) request_move_board)

context lawful_services
begin

lemma all_succeeded_step:
  assumes step: "sys_step svc (main_server svc id1 id2) s t" and sys_inv: "sys_inv InitRegistry (abs_sys svc s)"
    and "all_succeeded s ex" and "stored_execution s ex"
  shows "all_succeeded t ex"
  unfolding all_succeeded_def
proof (intro ballI impI)
  fix r assume r: "r \<in> set (task_rows (sys_world t))" "ExecutionID r = ex"
  note move = step_is_move [OF step sys_inv]
  have row: "ident (info r) \<in> rows (b_tasks (a_board (abs_sys svc t)))"
    using r(1) by (auto simp: rows_def board_def)
  have "inv_requests InitRegistry (abs_sys svc s)" using sys_inv by (simp add: sys_inv_def)
  from move_rows [OF move this row] have "ident (info r) \<in> rows (b_tasks (board svc (sys_world s))) \<or>
      i_Exec (ident (info r)) \<notin> b_execs (board svc (sys_world s))" by simp
  moreover have "ex \<in> b_execs (board svc (sys_world s))"
    using assms(4) by (simp add: stored_execution_def board_def)
  ultimately obtain r' where r': "r' \<in> set (task_rows (sys_world s))" "ident (info r') = ident (info r)"
    using r(2) by (auto simp: rows_def board_def)
  then have "ID r' = ID r" "ExecutionID r' = ex"
    using r(2) r'(2) by (metis ident_simps(1,2) info_simps(1,2))+
  with r'(1) assms(3) move_mono(2) [OF move] show "ID r \<in> set (sys_succeeded t)"
    by (auto simp: all_succeeded_def)
qed

lemma stored_execution_step:
  assumes step: "sys_step svc (main_server svc id1 id2) s t" and sys_inv: "sys_inv InitRegistry (abs_sys svc s)"
    and "stored_execution s ex"
  shows "stored_execution t ex"
  using assms(3) move_mono(1) [OF step_is_move [OF step sys_inv]] by (auto simp: stored_execution_def board_def)

text \<open>How the coordinator gets to the check and to the completion of an execution.\<close>

lemma coord_step_finish:
  assumes "run_state (coord_step svc (NewCoordinator (NewTaskRepository svc) (NewWorkflowRepository svc)
     (NewRedisQueue svc key) (NewRedisEventBus svc)) pc) w = (c, w')"
  shows "(c = C_check ex \<longrightarrow> (\<exists>ev. pc = C_decrement ev \<and> tc_ExecutionID ev = ex)) \<and>
    (c = C_finish ex \<longrightarrow> pc = C_check ex \<and>
       (\<forall>t \<in> set (task_rows w). ExecutionID t = ex \<longrightarrow> Status t = StatusCompleted))"
  using assms
  by (cases "(svc, NewCoordinator (NewTaskRepository svc) (NewWorkflowRepository svc)
        (NewRedisQueue svc key) (NewRedisEventBus svc), pc)" rule: coord_step.cases)
     (auto simp: coordinator_fields end_event_def end_termination_def split: prod.splits sum.splits if_splits
       dest!: repo.AreAllTasksCompleted_outcome)

lemma sys_step_coord:
  assumes "sys_step svc (main_server svc id1 id2) s t"
  shows "sys_coord t = sys_coord s \<or> (\<exists>ev. sys_coord t = C_decrement ev) \<or> (\<exists>ev. sys_coord t = C_taint ev) \<or>
    (\<exists>c w. run_state (coord_step svc (NewCoordinator (NewTaskRepository svc) (NewWorkflowRepository svc)
       (NewRedisQueue svc main_key) (NewRedisEventBus svc)) (sys_coord s)) (sys_world s) = (c, w) \<and> sys_coord t = c)"
  using assms by cases auto

lemma completions_step:
  assumes step: "sys_step svc (main_server svc id1 id2) s t" and sys_inv: "sys_inv InitRegistry (abs_sys svc s)"
    and ok: "completions_ok s"
  shows "completions_ok t"
proof -
  note move = step_is_move [OF step sys_inv]
  note completes = step_completes [OF step sys_inv]
  have more: "set (sys_succeeded s) \<subseteq> set (sys_succeeded t)" using move_mono(2) [OF move] by simp
  have "ID r \<in> set (sys_succeeded t)" if "r \<in> set (task_rows (sys_world t))" "Status r = StatusCompleted" for r
    using that completes ok more unfolding completes_def completions_ok_def by (metis subsetD)
  moreover have "all_succeeded t (we_ID e)"
    if e: "e \<in> set (exec_rows (sys_world t))" "we_Status e = WorkflowCompleted" for e
  proof -
    have "we_ID e \<in> may_complete s \<or> (\<exists>e' \<in> set (exec_rows (sys_world s)). we_Status e' = WorkflowCompleted \<and> we_ID e' = we_ID e)"
      using e completes unfolding completes_def by metis
    then have "all_succeeded s (we_ID e) \<and> stored_execution s (we_ID e)"
    proof
      assume "we_ID e \<in> may_complete s"
      with ok show ?thesis by (auto simp: may_complete_def completions_ok_def)
    next
      assume "\<exists>e' \<in> set (exec_rows (sys_world s)). we_Status e' = WorkflowCompleted \<and> we_ID e' = we_ID e"
      then obtain e' where "e' \<in> set (exec_rows (sys_world s))" "we_Status e' = WorkflowCompleted" "we_ID e' = we_ID e"
        by blast
      with ok show ?thesis unfolding completions_ok_def stored_execution_def by (metis imageI)
    qed
    then show ?thesis using all_succeeded_step [OF step sys_inv] by blast
  qed
  moreover have "stored_execution t ex \<and> (sys_coord t = C_finish ex \<longrightarrow> all_succeeded t ex)"
    if c: "sys_coord t = C_check ex \<or> sys_coord t = C_finish ex" for ex
  proof -
    have "stored_execution s ex \<and> (sys_coord t = C_finish ex \<longrightarrow> all_succeeded s ex)"
    proof (cases "sys_coord t = sys_coord s")
      case True
      with ok c show ?thesis by (auto simp: completions_ok_def)
    next
      case False
      with sys_step_coord [OF step] c obtain w where
        run: "run_state (coord_step svc (NewCoordinator (NewTaskRepository svc) (NewWorkflowRepository svc)
          (NewRedisQueue svc main_key) (NewRedisEventBus svc)) (sys_coord s)) (sys_world s) = (sys_coord t, w)" by auto
      note reach = coord_step_finish [OF run, of ex]
      from c show ?thesis
      proof
        assume check: "sys_coord t = C_check ex"
        with reach obtain ev where ev: "sys_coord s = C_decrement ev" "tc_ExecutionID ev = ex" by blast
        then have "ev \<in> completed_events (abs_sys svc s)" by (simp add: completed_events_def)
        with sys_inv obtain x where "x \<in> rows (b_tasks (board svc (sys_world s)))" "i_Exec x = ex"
          using ev(2) by (auto simp: sys_inv_def inv_events_def has_row_def)
        with sys_inv have "ex \<in> b_execs (board svc (sys_world s))" by (auto simp: sys_inv_def inv_rows_alt)
        with check show ?thesis by (simp add: stored_execution_def board_def)
      next
        assume "sys_coord t = C_finish ex"
        with reach have "sys_coord s = C_check ex"
          "\<forall>t \<in> set (task_rows (sys_world s)). ExecutionID t = ex \<longrightarrow> Status t = StatusCompleted" by blast+
        with ok show ?thesis by (auto simp: completions_ok_def all_succeeded_def)
      qed
    qed
    then show ?thesis using stored_execution_step [OF step sys_inv] all_succeeded_step [OF step sys_inv] by blast
  qed
  ultimately show ?thesis unfolding completions_ok_def by blast
qed

lemma reachable_completions:
  "reachable svc (main_server svc id1 id2) s \<Longrightarrow> completions_ok s"
proof (induction rule: reachable.induct)
  case (start w)
  then show ?case by (simp add: completions_ok_def empty_world_def sys_init_def)
next
  case (step s t)
  then show ?case using completions_step [OF step(2)] reachable_invariant [OF step(1)] by blast
qed

end

end
