(* ===== verification/Flawless.thy ===== *)
theory Flawless
  imports Server
begin

text \<open>
  Runs in which no service fails. \<open>Services\<close> lets every call fail; the locale here adds what
  the calls do from the hidden states \<open>quiet\<close> in which the services are healthy: they answer,
  take effect, and stay healthy. An insert may still be refused (the columns limit the lengths of
  names, identifiers may clash); it only has to stay healthy. The second half of the theory lifts
  this to the operations of the repositories, the queues and the bus. \<open>reference_services\<close> is
  healthy when its schedule of failures is empty.
\<close>

section \<open>Services that do not fail\<close>

definition succeeds_law :: "('h \<Rightarrow> bool) \<Rightarrow> ('h, 'a) fallible \<Rightarrow> ('h world \<Rightarrow> bool) \<Rightarrow> bool" where
  "succeeds_law q m P \<longleftrightarrow>
     (\<forall>w r w'. run_state m w = (r, w') \<longrightarrow> q (hidden w) \<longrightarrow> q (hidden w') \<and>
        (if P w then \<exists>a. r = Inr a else (\<exists>e. r = Inl e) \<and> same w w'))"

text \<open>
  PostgreSQL takes as \<open>jsonb\<close> every JSON text of printable ASCII characters that has no
  backslash and no number.
\<close>

definition printable :: "string \<Rightarrow> bool" where
  "printable s \<longleftrightarrow> list_all (\<lambda>c. 32 \<le> code c \<and> code c < 127 \<and> c \<noteq> bslash) s"

fun number_free :: "json \<Rightarrow> bool" where
  "number_free (JNum s) = False"
| "number_free (JArr vs) = list_all number_free vs"
| "number_free (JObj kvs) = list_all (\<lambda>kv. number_free (snd kv)) kvs"
| "number_free _ = True"

definition plain_json :: "string \<Rightarrow> bool" where
  "plain_json s \<longleftrightarrow> printable s \<and> (case json_parse s of None \<Rightarrow> False | Some v \<Rightarrow> number_free v)"

locale flawless_services = lawful_services svc for svc :: "'h services" +
  fixes quiet :: "'h \<Rightarrow> bool"
  assumes plain_jsonb_law: "plain_json s \<Longrightarrow> jsonb_valid svc s"
    and Create_execution_quiet:
      "run_state (gorm_Create_execution svc e) w = (r, w') \<Longrightarrow> quiet (hidden w) \<Longrightarrow> quiet (hidden w')"
    and Create_tasks_quiet:
      "run_state (gorm_Create_tasks svc ts) w = (r, w') \<Longrightarrow> quiet (hidden w) \<Longrightarrow> quiet (hidden w')"
    and Transaction_succeeds:
      "run_state (gorm_Transaction svc body) w = (r, w') \<Longrightarrow> run_state body w = (rb, wb) \<Longrightarrow>
         quiet (hidden w) \<Longrightarrow> quiet (hidden wb) \<Longrightarrow> quiet (hidden w') \<and> r = rb"
    and First_task_succeeds:
      "succeeds_law quiet (gorm_First_task svc P) (\<lambda>w. filter P (task_rows w) \<noteq> [])"
    and Count_tasks_succeeds: "succeeds_law quiet (gorm_Count_tasks svc P) (\<lambda>w. True)"
    and Updates_tasks_succeeds:
      "succeeds_law quiet (gorm_Updates_tasks svc js P f) (\<lambda>w. list_all (jsonb_valid svc) js)"
    and Update_executions_succeeds: "succeeds_law quiet (gorm_Update_executions svc Q g) (\<lambda>w. True)"
    and Raw_update_tasks_succeeds:
      "succeeds_law quiet (gorm_Raw_update_tasks svc js P f) (\<lambda>w. list_all (jsonb_valid svc) js)"
    and rows_Next_succeeds:
      "run_state (rows_Next svc remaining) w = (found, w') \<Longrightarrow> quiet (hidden w) \<Longrightarrow>
         quiet (hidden w') \<and> (found \<longleftrightarrow> remaining \<noteq> [])"
    and rows_Scan_succeeds: "succeeds_law quiet (rows_Scan svc t) (\<lambda>w. True)"
    and RPush_succeeds: "succeeds_law quiet (redis_RPush svc k x) (\<lambda>w. True)"
    and BLPop_succeeds: "succeeds_law quiet (redis_BLPop svc k) (\<lambda>w. redis_list w k \<noteq> [])"
    and Publish_succeeds:
      "run_state (redis_Publish svc c m) w = (u, w') \<Longrightarrow> quiet (hidden w) \<Longrightarrow>
         quiet (hidden w') \<and> same (w\<lparr>inbox := (inbox w)(c := inbox w c @ [m])\<rparr>) w'"
    and ReceiveMessage_succeeds: "succeeds_law quiet (redis_ReceiveMessage svc c) (\<lambda>w. inbox w c \<noteq> [])"
    and LLen_succeeds: "succeeds_law quiet (redis_LLen svc k) (\<lambda>w. True)"

lemma succeeds_lawD:
  assumes "succeeds_law q m P" and "run_state m w = (r, w')" and "q (hidden w)"
  shows "q (hidden w')" and "P w \<Longrightarrow> \<exists>a. r = Inr a" and "\<not> P w \<Longrightarrow> (\<exists>e. r = Inl e) \<and> same w w'"
  using assms by (auto simp: succeeds_law_def split: if_splits)

subsection \<open>The reference services\<close>

definition healthy :: "schedule \<Rightarrow> bool" where
  "healthy h \<longleftrightarrow> h = []"

lemma ref_call_succeeds:
  assumes "\<And>v. P v \<longleftrightarrow> (\<exists>b. eff v = Inr b)"
    and "\<And>v a v'. eff v = Inr (a, v') \<Longrightarrow> hidden v' = hidden v"
  shows "succeeds_law healthy (ref_call eff) P"
  unfolding succeeds_law_def healthy_def
proof (intro allI impI)
  fix w r w'
  assume run: "run_state (ref_call eff) w = (r, w')" and w: "hidden w = []"
  show "hidden w' = [] \<and> (if P w then \<exists>a. r = Inr a else (\<exists>e. r = Inl e) \<and> same w w')"
  proof (cases "eff w")
    case (Inl e)
    with run w assms(1) [of w] show ?thesis by (auto simp: ref_call_def)
  next
    case (Inr b)
    with run w assms(1) [of w] assms(2) [of w "fst b" "snd b"] show ?thesis
      by (cases b) (auto simp: ref_call_def)
  qed
qed

interpretation calm: flawless_services reference_services healthy
proof (unfold_locales, goal_cases)
  case (1 s)
  then show ?case
    by (auto simp: reference_calls ref_jsonb_valid_def plain_json_def split: option.splits)
next
  case (2 e w r w')
  then show ?case
    by (auto simp: reference_calls guarded_def ref_call_def healthy_def split: if_splits)
next
  case (3 ts w r w')
  then show ?case
    by (auto simp: reference_calls guarded_def ref_call_def healthy_def split: if_splits)
next
  case (4 body w r w' rb wb)
  then show ?case
    by (cases rb) (auto simp: reference_calls ref_Transaction_def healthy_def)
next
  case (5 P)
  show ?case
    unfolding reference_calls ref_First_def
    by (rule ref_call_succeeds) (auto split: list.splits)
next
  case (10 remaining w found w')
  then show ?case by (auto simp: reference_calls healthy_def)
next
  case (14 c m w u w')
  then show ?case by (auto simp: reference_calls ref_call_def healthy_def same_def)
qed (unfold reference_calls guarded_def; rule ref_call_succeeds; auto split: list.splits if_splits)+

section \<open>The operations\<close>

text \<open>The rows a statement of the coordinator releases.\<close>

definition released_ids :: "(Task \<Rightarrow> bool) \<Rightarrow> 'h world \<Rightarrow> uuid list" where
  "released_ids P w = map ID (filter (\<lambda>t. P t \<and> InDegree t = 1) (task_rows w))"

context flawless_services
begin

lemma Push_through:
  assumes "run_state (Push (NewRedisQueue svc k) x) w = (r, w')" and "quiet (hidden w)"
  shows "r = Inr () \<and> queue_written ((redis_list w)(k := redis_list w k @ [x])) w w' \<and> quiet (hidden w')"
proof -
  obtain r1 w1 where call: "run_state (redis_RPush svc k x) w = (r1, w1)" by fastforce
  from succeeds_lawD [OF RPush_succeeds call assms(2)] assms(1) call queue.Push_outcome [OF assms(1)]
  show ?thesis by (auto simp: provider_fields RedisQueue_Push_def)
qed

lemma Pop_through:
  assumes "run_state (Pop (NewRedisQueue svc k)) w = (r, w')" and "quiet (hidden w)"
  shows "quiet (hidden w') \<and> (case redis_list w k of
      [] \<Rightarrow> (\<exists>e. r = Inl e) \<and> unwritten w w'
    | x # xs \<Rightarrow> r = Inr x \<and> queue_written ((redis_list w)(k := xs)) w w')"
proof -
  obtain r1 w1 where call: "run_state (redis_BLPop svc k) w = (r1, w1)" by fastforce
  note law = succeeds_lawD [OF BLPop_succeeds call assms(2)]
  show ?thesis
  proof (cases "redis_list w k")
    case Nil
    with law assms(1) call queue.Pop_outcome [OF assms(1)] show ?thesis
      by (auto simp: provider_fields RedisQueue_Pop_def)
  next
    case (Cons x xs)
    with law(2) obtain y where "r1 = Inr y" by auto
    with Cons law(1) assms(1) call queue.Pop_outcome [OF assms(1)] show ?thesis
      by (auto simp: provider_fields RedisQueue_Pop_def split: prod.splits)
  qed
qed

lemma FindTaskByID_through:
  assumes "run_state (FindTaskByID (NewTaskRepository svc) tid) w = (r, w')" and "quiet (hidden w)"
    and "tid \<in> ID ` set (task_rows w)"
  shows "\<exists>t. r = Inr t \<and> t \<in> set (task_rows w) \<and> ID t = tid \<and> unwritten w w' \<and> quiet (hidden w')"
proof -
  obtain r1 w1 where call: "run_state (gorm_First_task svc (\<lambda>t. ID t = tid)) w = (r1, w1)" by fastforce
  have "filter (\<lambda>t. ID t = tid) (task_rows w) \<noteq> []" using assms(3) by (auto simp: filter_empty_conv)
  with succeeds_lawD [OF First_task_succeeds call assms(2)] assms(1) call repo.FindTaskByID_outcome [OF assms(1)]
  show ?thesis by (auto simp: provider_fields taskRepository_FindTaskByID_def)
qed

text \<open>The updates of the task table.\<close>

lemma versioned_through:
  assumes "run_state (gorm_Updates_tasks svc [] (\<lambda>t. ID t = tid \<and> Version t = v) f) w = (r, w')"
    and "quiet (hidden w)" and "\<exists>t \<in> set (task_rows w). ID t = tid \<and> Version t = v"
  shows "\<exists>n. r = Inr n \<and> n \<noteq> 0 \<and> quiet (hidden w')"
proof -
  obtain n where "r = Inr n" "quiet (hidden w')"
    using succeeds_lawD [OF Updates_tasks_succeeds assms(1,2)] by auto
  with Updates_outcome [OF assms(1)] assms(3) show ?thesis by (auto simp: filter_empty_conv)
qed

lemma ClaimTask_through:
  assumes "run_state (ClaimTask (NewTaskRepository svc) tid name v) w = (r, w')" and "quiet (hidden w)"
    and "\<exists>t \<in> set (task_rows w). ID t = tid \<and> Version t = v"
  shows "r = Inr () \<and> tasks_written (\<lambda>t. ID t = tid \<and> Version t = v) (claimed name v) w w' \<and> quiet (hidden w')"
proof -
  obtain r1 w1 where call: "run_state (gorm_Updates_tasks svc []
      (\<lambda>t. ID t = tid \<and> Version t = v) (claimed name v)) w = (r1, w1)" by fastforce
  from versioned_through [OF call assms(2,3)] assms(1) call repo.ClaimTask_outcome [OF assms(1)]
  show ?thesis by (auto simp: provider_fields taskRepository_ClaimTask_def claimed_def [abs_def])
qed

lemma IncrementRetryCount_through:
  assumes "run_state (IncrementRetryCount (NewTaskRepository svc) tid v) w = (r, w')" and "quiet (hidden w)"
    and "\<exists>t \<in> set (task_rows w). ID t = tid \<and> Version t = v"
  shows "r = Inr () \<and> tasks_written (\<lambda>t. ID t = tid \<and> Version t = v) (retried v) w w' \<and> quiet (hidden w')"
proof -
  obtain r1 w1 where call: "run_state (gorm_Updates_tasks svc []
      (\<lambda>t. ID t = tid \<and> Version t = v) (retried v)) w = (r1, w1)" by fastforce
  from versioned_through [OF call assms(2,3)] assms(1) call repo.IncrementRetryCount_outcome [OF assms(1)]
  show ?thesis by (auto simp: provider_fields taskRepository_IncrementRetryCount_def retried_def [abs_def])
qed

lemma Updates_through:
  assumes "run_state (gorm_Updates_tasks svc (jsonb_text s) P f) w = (r, w')" and "quiet (hidden w)" and "plain_json s"
  shows "\<exists>n. r = Inr n \<and> quiet (hidden w')"
proof -
  have "list_all (jsonb_valid svc) (jsonb_text s)" using plain_jsonb_law [OF assms(3)] by (simp add: jsonb_text_def)
  with succeeds_lawD [OF Updates_tasks_succeeds assms(1,2)] show ?thesis by auto
qed

lemma MarkCompleted_through:
  assumes "run_state (MarkCompleted (NewTaskRepository svc) tid out) w = (r, w')" and "quiet (hidden w)"
    and "plain_json out"
  shows "tasks_written (\<lambda>t. ID t = tid) (completed out) w w' \<and> quiet (hidden w')"
proof -
  obtain r1 w1 where call: "run_state (gorm_Updates_tasks svc (jsonb_text out) (\<lambda>t. ID t = tid)
      (completed out)) w = (r1, w1)" by fastforce
  from Updates_through [OF call assms(2,3)] assms(1) call repo.MarkCompleted_outcome [OF assms(1)]
  show ?thesis by (auto simp: provider_fields taskRepository_MarkCompleted_def completed_def [abs_def])
qed

lemma MarkFailed_through:
  assumes "run_state (MarkFailed (NewTaskRepository svc) tid msg) w = (r, w')" and "quiet (hidden w)"
    and "plain_json (error_output msg)"
  shows "(\<exists>out. tasks_written (\<lambda>t. ID t = tid) (failed_row msg out) w w') \<and> quiet (hidden w')"
proof -
  obtain r1 w1 where call: "run_state (gorm_Updates_tasks svc (jsonb_text (error_output msg)) (\<lambda>t. ID t = tid)
      (\<lambda>t. t\<lparr>Status := StatusFailed, LastError := msg, Output := error_output msg\<rparr>)) w = (r1, w1)" by fastforce
  obtain out where "outcome r (\<lambda>_. tasks_written (\<lambda>t. ID t = tid) (failed_row msg out) w w')
      (tasks_written (\<lambda>t. ID t = tid) (failed_row msg out) w w') (unwritten w w')"
    using repo.MarkFailed_outcome [OF assms(1)] by (auto simp: failed_row_def [abs_def])
  with Updates_through [OF call assms(2,3)] assms(1) call
  have "tasks_written (\<lambda>t. ID t = tid) (failed_row msg out) w w' \<and> quiet (hidden w')"
    by (auto simp: provider_fields taskRepository_MarkFailed_def)
  then show ?thesis by blast
qed

lemma skipped_output_plain: "plain_json skipped_output"
  by code_simp

lemma MarkSkipped_through:
  assumes "run_state (MarkSkipped (NewTaskRepository svc) tid) w = (r, w')" and "quiet (hidden w)"
  shows "r = Inr () \<and> (\<exists>out. tasks_written (\<lambda>t. ID t = tid) (skipped_row out) w w') \<and> quiet (hidden w')"
proof -
  obtain r1 w1 where call: "run_state (gorm_Updates_tasks svc (jsonb_text skipped_output) (\<lambda>t. ID t = tid)
      (\<lambda>t. t\<lparr>Status := StatusSkipped, Output := skipped_output\<rparr>)) w = (r1, w1)" by fastforce
  obtain out where "outcome r (\<lambda>_. tasks_written (\<lambda>t. ID t = tid) (skipped_row out) w w')
      (tasks_written (\<lambda>t. ID t = tid) (skipped_row out) w w') (unwritten w w')"
    using repo.MarkSkipped_outcome [OF assms(1)] by (auto simp: skipped_row_def [abs_def])
  with Updates_through [OF call assms(2) skipped_output_plain] assms(1) call
  have "r = Inr () \<and> tasks_written (\<lambda>t. ID t = tid) (skipped_row out) w w' \<and> quiet (hidden w')"
    by (auto simp: provider_fields taskRepository_MarkSkipped_def)
  then show ?thesis by blast
qed

lemma AreAllTasksCompleted_through:
  assumes "run_state (AreAllTasksCompleted (NewTaskRepository svc) ex) w = (r, w')" and "quiet (hidden w)"
  shows "r = Inr (\<forall>t \<in> set (task_rows w). ExecutionID t = ex \<longrightarrow> Status t = StatusCompleted) \<and>
    unwritten w w' \<and> quiet (hidden w')"
proof -
  obtain r1 w1 where call: "run_state (gorm_Count_tasks svc
      (\<lambda>t. ExecutionID t = ex \<and> Status t \<noteq> StatusCompleted)) w = (r1, w1)" by fastforce
  then obtain c where "r = Inr c" "quiet (hidden w')"
    using succeeds_lawD [OF Count_tasks_succeeds call assms(2)] assms(1)
    by (auto simp: provider_fields taskRepository_AreAllTasksCompleted_def)
  with repo.AreAllTasksCompleted_outcome [OF assms(1)] show ?thesis by simp
qed

lemma UpdateStatus_through:
  assumes "run_state (UpdateStatus (NewWorkflowRepository svc) ex s) w = (r, w')" and "quiet (hidden w)"
  shows "r = Inr () \<and> execs_written (status_writable ex s) (\<lambda>e. e\<lparr>we_Status := s\<rparr>) w w' \<and> quiet (hidden w')"
proof -
  obtain r1 w1 where call: "run_state (gorm_Update_executions svc
      (\<lambda>e. we_ID e = ex \<and> we_Status e \<noteq> s \<and> we_Status e \<noteq> WorkflowFailed) (\<lambda>e. e\<lparr>we_Status := s\<rparr>)) w = (r1, w1)"
    by fastforce
  from succeeds_lawD [OF Update_executions_succeeds call assms(2)] assms(1) call wrepo.UpdateStatus_outcome [OF assms(1)]
  show ?thesis by (auto simp: provider_fields workflowRepository_UpdateStatus_def)
qed

text \<open>The decrements return every identifier they brought to zero.\<close>

lemma scan_through:
  assumes "run_state (scan_ready svc rs ready) w = (r, w')" and "quiet (hidden w)"
  shows "r = Inr (ready @ map ID (filter (\<lambda>t. InDegree t = 0) rs)) \<and> unwritten w w' \<and> quiet (hidden w')"
  using assms
proof (induction rs arbitrary: ready w)
  case Nil
  obtain f w1 where nxt: "run_state (rows_Next svc []) w = (f, w1)" by fastforce
  with Nil rows_Next_law [OF nxt] rows_Next_succeeds [OF nxt] show ?case by (auto intro: same_unwritten)
next
  case (Cons row rs)
  obtain f w1 where nxt: "run_state (rows_Next svc (row # rs)) w = (f, w1)" by fastforce
  then have f: f "quiet (hidden w1)" and w1: "unwritten w w1"
    using rows_Next_succeeds [OF nxt Cons.prems(2)] rows_Next_law [OF nxt] by (auto intro: same_unwritten)
  obtain s w2 where scan: "run_state (rows_Scan svc row) w1 = (s, w2)" by fastforce
  then have s: "s = Inr (ID row, InDegree row)" "quiet (hidden w2)" and w2: "unwritten w w2"
    using succeeds_lawD [OF rows_Scan_succeeds scan f(2)] rows_Scan_outcome [OF scan] unwritten_trans [OF w1] by auto
  have "run_state (scan_ready svc rs (if InDegree row = 0 then ready @ [ID row] else ready)) w2 = (r, w')"
    using Cons.prems(1) nxt scan f(1) s(1) by simp
  from Cons.IH [OF this s(2)] w2 show ?case by (auto intro: unwritten_trans)
qed

lemma Raw_update_through:
  assumes "run_state (gorm_Raw_update_tasks svc js P f) w = (r, w')" and "quiet (hidden w)"
    and "list_all (jsonb_valid svc) js"
  shows "\<exists>rs. r = Inr rs \<and> mset rs = mset (map f (filter P (task_rows w))) \<and> tasks_rewritten P f w w' \<and> quiet (hidden w')"
  using succeeds_lawD [OF Raw_update_tasks_succeeds assms(1,2)] assms(3) Raw_update_outcome [OF assms(1)] by auto

lemma decrement_through:
  assumes call: "run_state (gorm_Raw_update_tasks svc js P f) w = (r, w1)" and "quiet (hidden w)"
    and js: "list_all (jsonb_valid svc) js"
    and ids: "\<And>rs. r = Inr rs \<Longrightarrow> \<exists>w2 l. run_state (scan_ready svc rs []) w1 = (ids, w2) \<and> w' = w2\<lparr>mlog := l\<rparr>"
    and f: "\<And>t. ID (f t) = ID t \<and> InDegree (f t) = InDegree t - 1"
  shows "\<exists>xs. ids = Inr xs \<and> mset xs = mset (released_ids P w) \<and> tasks_rewritten P f w w' \<and> quiet (hidden w')"
proof -
  from Raw_update_through [OF call assms(2) js] obtain rs where
    rs: "r = Inr rs" "mset rs = mset (map f (filter P (task_rows w)))" "tasks_rewritten P f w w1" "quiet (hidden w1)"
    by (elim exE conjE) (rule that)
  from ids [OF rs(1)] obtain w2 l where scan: "run_state (scan_ready svc rs []) w1 = (ids, w2)" "w' = w2\<lparr>mlog := l\<rparr>"
    by (elim exE conjE) (rule that)
  from scan_through [OF scan(1) rs(4)] scan(2) rs(3) ready_rows [OF rs(2) f]
  show ?thesis by (auto simp: released_ids_def tasks_rewritten_def unwritten_def)
qed

lemma depParam_plain: "printable p \<Longrightarrow> plain p \<Longrightarrow> plain_json (depParam p)"
proof -
  assume p: "printable p" "plain p"
  then have "parse_chars (p @ [quote, CHR '']'']) = Some (p, [CHR '']''])"
    using parse_chars_plain [of p "[CHR '']'']"] by simp
  with p(1) show ?thesis
    by (simp add: plain_json_def depParam_def json_parse_def printable_def is_ws_def parse_chars.simps code_def)
qed

lemma Decrement_through:
  assumes "quiet (hidden w)" and "printable p" and "plain p"
  shows "run_state (DecrementAndGetReadyTasks (NewTaskRepository svc) ex p) w = (r, w') \<Longrightarrow>
      \<exists>xs. r = Inr xs \<and> mset xs = mset (released_ids (children (depends_on svc) ex p) w) \<and>
        tasks_rewritten (children (depends_on svc) ex p) decremented w w' \<and> quiet (hidden w')"
    and "run_state (DecrementAndSetSkipHint (NewTaskRepository svc) ex p) w = (r, w') \<Longrightarrow>
      \<exists>xs. r = Inr xs \<and> mset xs = mset (released_ids (children (depends_on svc) ex p) w) \<and>
        tasks_rewritten (children (depends_on svc) ex p) tainted w w' \<and> quiet (hidden w')"
proof -
  have js: "list_all (jsonb_valid svc) [depParam p]"
    using plain_jsonb_law [OF depParam_plain [OF assms(2,3)]] by simp
  have P: "children (depends_on svc) ex p = (\<lambda>t. ExecutionID t = ex \<and> depends_on svc t p)"
    by (auto simp: children_def)
  have taint: "tainted = (\<lambda>t. t\<lparr>InDegree := InDegree t - 1, SkipHint := True,
      Status := (if InDegree t - 1 = 0 then StatusQueued else Status t)\<rparr>)"
    by (rule ext) (simp add: tainted_def decremented_def)
  {
    assume run: "run_state (DecrementAndGetReadyTasks (NewTaskRepository svc) ex p) w = (r, w')"
    obtain r1 w1 where call: "run_state (gorm_Raw_update_tasks svc [depParam p]
        (\<lambda>t. ExecutionID t = ex \<and> depends_on svc t p) decremented) w = (r1, w1)" by fastforce
    show "\<exists>xs. r = Inr xs \<and> mset xs = mset (released_ids (children (depends_on svc) ex p) w) \<and>
        tasks_rewritten (children (depends_on svc) ex p) decremented w w' \<and> quiet (hidden w')"
      unfolding P using run call
      by (intro decrement_through [OF call assms(1) js])
        (auto simp: provider_fields taskRepository_DecrementAndGetReadyTasks_def decremented_def [abs_def] split: prod.splits)
  next
    assume run: "run_state (DecrementAndSetSkipHint (NewTaskRepository svc) ex p) w = (r, w')"
    obtain r1 w1 where call: "run_state (gorm_Raw_update_tasks svc [depParam p]
        (\<lambda>t. ExecutionID t = ex \<and> depends_on svc t p) tainted) w = (r1, w1)" by fastforce
    show "\<exists>xs. r = Inr xs \<and> mset xs = mset (released_ids (children (depends_on svc) ex p) w) \<and>
        tasks_rewritten (children (depends_on svc) ex p) tainted w w' \<and> quiet (hidden w')"
      unfolding P using run call unfolding taint
      by (intro decrement_through [OF call [unfolded taint] assms(1) js])
        (auto simp: provider_fields taskRepository_DecrementAndSetSkipHint_def split: prod.splits)
  }
qed

text \<open>The bus: messages arrive.\<close>

lemma Publish_through:
  "run_state (PublishTaskCompleted (NewRedisEventBus svc) ev) w = (r, w') \<Longrightarrow> quiet (hidden w) \<Longrightarrow>
     inbox_appended completed_channel (\<lambda>m. unmarshal_completed svc m = Some ev) w w' \<and> quiet (hidden w')"
  "run_state (PublishTaskTerminated (NewRedisEventBus svc) ev') w = (r', w') \<Longrightarrow> quiet (hidden w) \<Longrightarrow>
     inbox_appended terminated_channel (\<lambda>m. unmarshal_terminated svc m = Some ev') w w' \<and> quiet (hidden w')"
proof -
  assume q: "quiet (hidden w)"
  have sent: "inbox_appended c P w w1 \<and> quiet (hidden w1)"
    if "run_state (redis_Publish svc c m) w = (u, w1)" "P m" for c m u w1 P
    using Publish_succeeds [OF that(1) q] that(2)
    by (auto simp: inbox_appended_def dest!: same_fields)
  {
    assume run: "run_state (PublishTaskCompleted (NewRedisEventBus svc) ev) w = (r, w')"
    obtain r1 w1 where call: "run_state (redis_Publish svc completed_channel
        (json_print (completed_event_json svc ev))) w = (r1, w1)" by fastforce
    from sent [OF call, of "\<lambda>m. unmarshal_completed svc m = Some ev"] run call
    show "inbox_appended completed_channel (\<lambda>m. unmarshal_completed svc m = Some ev) w w' \<and> quiet (hidden w')"
      by (auto simp: provider_fields RedisEventBus_PublishTaskCompleted_def completed_roundtrip split: sum.splits)
  next
    assume run: "run_state (PublishTaskTerminated (NewRedisEventBus svc) ev') w = (r', w')"
    obtain r1 w1 where call: "run_state (redis_Publish svc terminated_channel
        (json_print (terminated_event_json svc ev'))) w = (r1, w1)" by fastforce
    from sent [OF call, of "\<lambda>m. unmarshal_terminated svc m = Some ev'"] run call
    show "inbox_appended terminated_channel (\<lambda>m. unmarshal_terminated svc m = Some ev') w w' \<and> quiet (hidden w')"
      by (auto simp: provider_fields RedisEventBus_PublishTaskTerminated_def terminated_roundtrip split: sum.splits)
  }
qed

lemma Subscribe_through:
  "run_state (SubscribeToEvents (NewRedisEventBus svc)) w = (x, w') \<Longrightarrow> quiet (hidden w) \<Longrightarrow>
     quiet (hidden w') \<and> (case inbox w completed_channel of
       [] \<Rightarrow> x = None \<and> unwritten w w'
     | m # ms \<Rightarrow> x = unmarshal_completed svc m \<and> inbox_taken completed_channel (\<lambda>_. True) w w')"
  "run_state (SubscribeToTerminationEvents (NewRedisEventBus svc)) w = (y, w') \<Longrightarrow> quiet (hidden w) \<Longrightarrow>
     quiet (hidden w') \<and> (case inbox w terminated_channel of
       [] \<Rightarrow> y = None \<and> unwritten w w'
     | m # ms \<Rightarrow> y = unmarshal_terminated svc m \<and> inbox_taken terminated_channel (\<lambda>_. True) w w')"
proof -
  assume q: "quiet (hidden w)"
  have received: "quiet (hidden w1) \<and> (case inbox w c of [] \<Rightarrow> (\<exists>e. r = Inl e) \<and> unwritten w w1
      | m # ms \<Rightarrow> r = Inr m \<and> inbox_taken c (\<lambda>_. True) w w1)"
    if "run_state (redis_ReceiveMessage svc c) w = (r, w1)" for c r w1
    using succeeds_lawD [OF ReceiveMessage_succeeds that q] Receive_outcome [OF that]
    by (cases "inbox w c") (auto simp: inbox_taken_def same_unwritten)
  {
    assume run: "run_state (SubscribeToEvents (NewRedisEventBus svc)) w = (x, w')"
    obtain r w1 where call: "run_state (redis_ReceiveMessage svc completed_channel) w = (r, w1)" by fastforce
    from received [OF call] run call
    show "quiet (hidden w') \<and> (case inbox w completed_channel of
        [] \<Rightarrow> x = None \<and> unwritten w w'
      | m # ms \<Rightarrow> x = unmarshal_completed svc m \<and> inbox_taken completed_channel (\<lambda>_. True) w w')"
      by (auto simp: NewRedisEventBus_def RedisEventBus_SubscribeToEvents_def split: list.splits option.splits)
  next
    assume run: "run_state (SubscribeToTerminationEvents (NewRedisEventBus svc)) w = (y, w')"
    obtain r w1 where call: "run_state (redis_ReceiveMessage svc terminated_channel) w = (r, w1)" by fastforce
    from received [OF call] run call
    show "quiet (hidden w') \<and> (case inbox w terminated_channel of
        [] \<Rightarrow> y = None \<and> unwritten w w'
      | m # ms \<Rightarrow> y = unmarshal_terminated svc m \<and> inbox_taken terminated_channel (\<lambda>_. True) w w')"
      by (auto simp: NewRedisEventBus_def RedisEventBus_SubscribeToTerminationEvents_def split: list.splits option.splits)
  }
qed

text \<open>A submission is stored, or refused without a trace.\<close>

lemma insert_quiet:
  assumes "run_state (insert_execution svc e ts) w = (r, w')" and "quiet (hidden w)"
  shows "quiet (hidden w')"
proof -
  obtain r1 w1 where c1: "run_state (gorm_Create_execution svc e) w = (r1, w1)" by fastforce
  obtain r2 w2 where c2: "run_state (gorm_Create_tasks svc ts) w1 = (r2, w2)" by fastforce
  have "quiet (hidden w1)" using Create_execution_quiet [OF c1 assms(2)] .
  moreover from this have "quiet (hidden w2)" using Create_tasks_quiet [OF c2] by blast
  ultimately show ?thesis using assms(1) c1 c2
    by (auto simp: insert_execution_def split: sum.splits if_splits)
qed

lemma CreateExecution_through:
  assumes "run_state (CreateExecution (NewTaskRepository svc) e ts) w = (r, w')" and "quiet (hidden w)"
  shows "quiet (hidden w') \<and>
    (r = Inr () \<and> execution_fresh e ts w \<and> execution_created e ts w w' \<or> (\<exists>err. r = Inl err) \<and> unwritten w w')"
proof -
  obtain rb wb where body: "run_state (insert_execution svc e ts) w = (rb, wb)" by fastforce
  obtain r1 w1 where tr: "run_state (gorm_Transaction svc (insert_execution svc e ts)) w = (r1, w1)" by fastforce
  from Transaction_succeeds [OF tr body assms(2) insert_quiet [OF body assms(2)]]
  have r1: "quiet (hidden w1)" "r1 = rb" by simp_all
  have "r = (case r1 of Inl e \<Rightarrow> Inl e | Inr _ \<Rightarrow> Inr ())" "\<exists>l. w' = w1\<lparr>mlog := l\<rparr>"
    using assms(1) tr by (auto simp: provider_fields taskRepository_CreateExecution_def split: sum.splits)
  moreover have "rolled_back w wb w1 \<Longrightarrow> unwritten w w1"
    using insert_execution_frame [OF body] by (auto simp: rolled_back_def unwritten_def dest!: same_fields)
  moreover have "rb = Inr () \<Longrightarrow> same wb w1 \<Longrightarrow> execution_fresh e ts w \<and> execution_created e ts w w1"
    using insert_execution_created [of e ts w wb] body by (auto simp: execution_created_def dest!: same_fields)
  moreover note Transaction_law [unfolded transaction_law_def, rule_format, OF tr body]
  ultimately show ?thesis using r1 by (auto split: sum.splits simp: same_unwritten)
qed

end

end
