(* ===== verification/System_Lossless.thy ===== *)
theory System_Lossless
  imports System_Progress Flawless
begin

text \<open>
  The steps of the running program when no call fails. Where a step of \<open>System_Run\<close> may lose
  what a goroutine holds, the step here has exactly one effect; \<open>worker_ready\<close> says what the row
  of a task looks like at each program counter, so that no compare-and-swap can miss.
\<close>

section \<open>One step of each goroutine\<close>

fun worker_ready :: "'h world \<Rightarrow> worker_pc \<Rightarrow> bool" where
  "worker_ready w (W_find i) \<longleftrightarrow> i \<in> ID ` set (task_rows w)"
| "worker_ready w (W_skip t) \<longleftrightarrow> t \<in> set (task_rows w) \<and> SkipHint t"
| "worker_ready w (W_claim t) \<longleftrightarrow> t \<in> set (task_rows w)"
| "worker_ready w (W_complete t out) \<longleftrightarrow> plain_json out"
| "worker_ready w (W_retry t) \<longleftrightarrow>
     (\<exists>r \<in> set (task_rows w). ID r = ID t \<and> Version r = Version t \<and> RetryCount r < MaxRetries r)"
| "worker_ready w (W_fail t err) \<longleftrightarrow> plain_json (error_output (Error err))"
| "worker_ready w _ \<longleftrightarrow> True"

fun worker_firm :: "'h services \<Rightarrow> string \<Rightarrow> worker_pc \<Rightarrow> 'h world \<Rightarrow> worker_pc \<Rightarrow> 'h world \<Rightarrow> bool" where
  "worker_firm svc key W_idle w pc' w' \<longleftrightarrow>
     (case redis_list w key of
        [] \<Rightarrow> pc' = W_idle \<and> unwritten w w'
      | x # xs \<Rightarrow> pc' = (case uuid_Parse svc x of Inl e \<Rightarrow> W_idle | Inr i \<Rightarrow> W_find i) \<and>
          queue_written ((redis_list w)(key := xs)) w w')"
| "worker_firm svc key (W_find i) w pc' w' \<longleftrightarrow>
     (\<exists>t \<in> set (task_rows w). ID t = i \<and> pc' = (if SkipHint t then W_skip t else W_claim t)) \<and> unwritten w w'"
| "worker_firm svc key (W_skip t) w pc' w' \<longleftrightarrow>
     pc' = W_skip_publish t \<and> (\<exists>out. tasks_written (\<lambda>r. ID r = ID t) (skipped_row out) w w')"
| "worker_firm svc key (W_skip_publish t) w pc' w' \<longleftrightarrow>
     pc' = W_idle \<and> inbox_appended terminated_channel (\<lambda>m. unmarshal_terminated svc m =
       Some (terminated_event t TaskTerminationSkipped ''skipped due to parent task failure'')) w w'"
| "worker_firm svc key (W_claim t) w pc' w' \<longleftrightarrow>
     (\<exists>name. tasks_written (\<lambda>r. ID r = ID t \<and> Version r = Version t) (claimed name (Version t)) w w') \<and>
     ((\<exists>out. plain_json out \<and> pc' = W_complete (t\<lparr>Version := Version t + 1\<rparr>) out) \<or>
      (\<exists>err. plain_json (error_output (Error err)) \<and> pc' = failure_pc (t\<lparr>Version := Version t + 1\<rparr>) err))"
| "worker_firm svc key (W_complete t out) w pc' w' \<longleftrightarrow>
     pc' = W_complete_publish t \<and> tasks_written (\<lambda>r. ID r = ID t) (completed out) w w'"
| "worker_firm svc key (W_complete_publish t) w pc' w' \<longleftrightarrow>
     pc' = W_idle \<and> inbox_appended completed_channel (\<lambda>m. unmarshal_completed svc m = Some (completed_event t)) w w'"
| "worker_firm svc key (W_retry t) w pc' w' \<longleftrightarrow>
     pc' = W_retry_push t \<and> tasks_written (\<lambda>r. ID r = ID t \<and> Version r = Version t) (retried (Version t)) w w'"
| "worker_firm svc key (W_retry_push t) w pc' w' \<longleftrightarrow>
     pc' = W_idle \<and> queue_written ((redis_list w)(retry_key := redis_list w retry_key @ [uuid_String svc (ID t)])) w w'"
| "worker_firm svc key (W_fail t err) w pc' w' \<longleftrightarrow>
     pc' = W_fail_execution t err \<and> (\<exists>out. tasks_written (\<lambda>r. ID r = ID t) (failed_row (Error err) out) w w')"
| "worker_firm svc key (W_fail_execution t err) w pc' w' \<longleftrightarrow>
     pc' = W_fail_publish t err \<and>
     execs_written (status_writable (ExecutionID t) WorkflowFailed) (\<lambda>e. e\<lparr>we_Status := WorkflowFailed\<rparr>) w w'"
| "worker_firm svc key (W_fail_publish t err) w pc' w' \<longleftrightarrow>
     pc' = W_idle \<and> inbox_appended terminated_channel
       (\<lambda>m. unmarshal_terminated svc m = Some (terminated_event t TaskTerminationFailed (Error err))) w w'"
| "worker_firm svc key _ w pc' w' \<longleftrightarrow> False"

definition all_completed :: "'h world \<Rightarrow> uuid \<Rightarrow> bool" where
  "all_completed w ex \<longleftrightarrow> (\<forall>t \<in> set (task_rows w). ExecutionID t = ex \<longrightarrow> Status t = StatusCompleted)"

fun coord_firm :: "'h services \<Rightarrow> coord_pc \<Rightarrow> 'h world \<Rightarrow> coord_pc \<Rightarrow> 'h world \<Rightarrow> bool" where
  "coord_firm svc C_idle w c' w' \<longleftrightarrow> c' = C_idle \<and> unwritten w w'"
| "coord_firm svc (C_decrement ev) w c' w' \<longleftrightarrow>
     (let P = children (depends_on svc) (tc_ExecutionID ev) (tc_RefID ev) in
      tasks_rewritten P decremented w w' \<and> (\<exists>ids. mset ids = mset (released_ids P w) \<and>
        c' = (if ids = [] then C_check (tc_ExecutionID ev) else C_queue ids (length ids))))"
| "coord_firm svc (C_taint ev) w c' w' \<longleftrightarrow>
     (let P = children (depends_on svc) (tt_ExecutionID ev) (tt_RefID ev) in
      tasks_rewritten P tainted w w' \<and> (\<exists>ids. mset ids = mset (released_ids P w) \<and>
        c' = C_skip_queue ids (length ids) (tt_Type ev)))"
| "coord_firm svc (C_queue [] n) w c' w' \<longleftrightarrow> c' = C_idle \<and> unwritten w w'"
| "coord_firm svc (C_queue (i # is) n) w c' w' \<longleftrightarrow> c' = C_queue is n \<and>
     queue_written ((redis_list w)(main_key := redis_list w main_key @ [uuid_String svc i])) w w'"
| "coord_firm svc (C_skip_queue [] n ty) w c' w' \<longleftrightarrow> c' = C_idle \<and> unwritten w w'"
| "coord_firm svc (C_skip_queue (i # is) n ty) w c' w' \<longleftrightarrow> c' = C_skip_queue is n ty \<and>
     queue_written ((redis_list w)(main_key := redis_list w main_key @ [uuid_String svc i])) w w'"
| "coord_firm svc (C_check ex) w c' w' \<longleftrightarrow>
     c' = (if all_completed w ex then C_finish ex else C_idle) \<and> unwritten w w'"
| "coord_firm svc (C_finish ex) w c' w' \<longleftrightarrow> c' = C_idle \<and>
     execs_written (status_writable ex WorkflowCompleted) (\<lambda>e. e\<lparr>we_Status := WorkflowCompleted\<rparr>) w w'"

fun request_firm :: "'h services \<Rightarrow> request_pc \<Rightarrow> 'h world \<Rightarrow> request_pc \<Rightarrow> 'h world \<Rightarrow> bool" where
  "request_firm svc (R_create e ts) w q' w' \<longleftrightarrow>
     (\<exists>err. q' = R_done (Inl err)) \<and> unwritten w w' \<or>
     q' = R_push e (workflowService_getRootTasks ts) \<and> execution_fresh e ts w \<and> execution_created e ts w w'"
| "request_firm svc (R_push e []) w q' w' \<longleftrightarrow> q' = R_done (Inr (we_ID e)) \<and> unwritten w w'"
| "request_firm svc (R_push e (t # ts)) w q' w' \<longleftrightarrow> q' = R_push e ts \<and>
     queue_written ((redis_list w)(main_key := redis_list w main_key @ [uuid_String svc (ID t)])) w w'"
| "request_firm svc (R_done r) w q' w' \<longleftrightarrow> q' = R_done r \<and> unwritten w w'"

text \<open>What the registered actions return under \<open>context.Background()\<close>.\<close>

lemma action_results:
  assumes "InitRegistry a = Some handler"
  shows "(\<exists>out. handler Background input = Inr out \<and> plain_json out) \<or>
    (\<exists>err. handler Background input = Inl err \<and> plain_json (error_output (Error err)))"
proof -
  have json: \<open>plain_json ''{"status": "success", "employee_id": "EMP-12345", "profile_created": true}''\<close>
    \<open>plain_json ''{"status": "success", "email": "john.doe@company.com", "mailbox_created": true}''\<close>
    \<open>plain_json ''{"status": "success", "laptop_id": "LT-789", "monitor_id": "MN-456", "assigned": true}''\<close>
    \<open>plain_json ''{"status": "success", "health_plan": "Premium PPO", "401k_enrolled": true}''\<close>
    \<open>plain_json ''{"status": "success", "orientation_date": "2026-03-01", "calendar_invite_sent": true}''\<close>
    \<open>plain_json ''{"status": "success", "completed": true}''\<close>
    "plain_json (error_output ''simulated task failure'')"
    by (simp_all add: plain_json_def printable_def parse_eval error_output_def)
  have "timeout_task Background input = Inr ''{\"status\": \"success\", \"completed\": true}''"
    by (simp add: timeout_task_result Background_def)
  with assms json show ?thesis
    by (auto simp: InitRegistry_def handler_defs(1-6) split: if_splits)
qed

context flawless_services
begin

lemma worker_through:
  assumes run: "run_state (worker_step svc (NewWorker svc i (NewRedisQueue svc key) (NewRedisQueue svc retry_key)
      (NewTaskRepository svc) (NewWorkflowRepository svc) (NewRedisEventBus svc) InitRegistry) Background pc) w = (pc', w')"
    and q: "quiet (hidden w)" and ready: "worker_ready w pc" and known: "\<not> unregistered pc"
    and action: "\<And>t. worker_task pc = Some t \<Longrightarrow> InitRegistry (Action t) \<noteq> None"
  shows "worker_firm svc key pc w pc' w' \<and> quiet (hidden w')"
proof (cases pc)
  case W_idle
  obtain r w1 where pop: "run_state (Pop (NewRedisQueue svc key)) w = (r, w1)" by fastforce
  with run W_idle Pop_through [OF pop q] show ?thesis by (auto simp: worker_fields split: list.splits)
next
  case (W_find tid)
  obtain r w1 where find: "run_state (FindTaskByID (NewTaskRepository svc) tid) w = (r, w1)" by fastforce
  with run W_find FindTaskByID_through [OF find q] ready show ?thesis by (auto simp: worker_fields)
next
  case (W_skip t)
  obtain r w1 where mark: "run_state (MarkSkipped (NewTaskRepository svc) (ID t)) w = (r, w1)" by fastforce
  with run W_skip MarkSkipped_through [OF mark q] show ?thesis by (auto simp: worker_fields)
next
  case (W_skip_publish t)
  obtain r w1 where pub: "run_state (PublishTaskTerminated (NewRedisEventBus svc)
      (terminated_event t TaskTerminationSkipped ''skipped due to parent task failure'')) w = (r, w1)" by fastforce
  then have "pc' = W_idle" "\<exists>l. w' = w1\<lparr>mlog := l\<rparr>"
    using run W_skip_publish by (auto simp: worker_fields terminated_event_def NewTaskTerminatedEvent_def)
  with Publish_through(2) [OF pub q] W_skip_publish show ?thesis by auto
next
  case (W_claim t)
  obtain u w1 where claim: "run_state (ClaimTask (NewTaskRepository svc) (ID t) (uuid_String svc i) (Version t)) w = (u, w1)"
    by fastforce
  from W_claim ready have "\<exists>r \<in> set (task_rows w). ID r = ID t \<and> Version r = Version t" by auto
  from ClaimTask_through [OF claim q this] have u: "u = Inr ()" "quiet (hidden w1)"
    and written: "tasks_written (\<lambda>r. ID r = ID t \<and> Version r = Version t) (claimed (uuid_String svc i) (Version t)) w w1"
    by simp_all
  from action [of t] W_claim obtain handler where handler: "InitRegistry (Action t) = Some handler" by auto
  let ?t = "t\<lparr>Version := Version t + 1\<rparr>"
  have "pc' = (case handler Background (Input t) of Inl err \<Rightarrow> failure_pc ?t err | Inr out \<Rightarrow> W_complete ?t out)"
    and "\<exists>l. w' = w1\<lparr>mlog := l\<rparr>"
    using run W_claim claim u handler by (auto simp: worker_fields Worker_claimTask_def run_action_def Let_def)
  with written u W_claim action_results [OF handler, of "Input t"] show ?thesis by auto
next
  case (W_complete t out)
  obtain r w1 where mark: "run_state (MarkCompleted (NewTaskRepository svc) (ID t) out) w = (r, w1)" by fastforce
  with run W_complete MarkCompleted_through [OF mark q] ready show ?thesis by (auto simp: worker_fields)
next
  case (W_complete_publish t)
  obtain r w1 where pub: "run_state (PublishTaskCompleted (NewRedisEventBus svc) (completed_event t)) w = (r, w1)"
    by fastforce
  then have "pc' = W_idle" "\<exists>l. w' = w1\<lparr>mlog := l\<rparr>"
    using run W_complete_publish by (auto simp: worker_fields completed_event_def end_claimed_def)
  with Publish_through(1) [OF pub q] W_complete_publish show ?thesis by auto
next
  case (W_retry t)
  define w1 where "w1 = w\<lparr>mlog := mlog w @ [MInc WorkerRetriesTotal [Action t, Itoa (RetryCount t + 1)]]\<rparr>"
  obtain r w2 where cas: "run_state (IncrementRetryCount (NewTaskRepository svc) (ID t) (Version t)) w1 = (r, w2)"
    by fastforce
  have w1: "quiet (hidden w1)" "\<exists>r \<in> set (task_rows w1). ID r = ID t \<and> Version r = Version t"
    using q ready W_retry by (auto simp: w1_def)
  from IncrementRetryCount_through [OF cas w1] run W_retry cas show ?thesis
    by (auto simp: worker_fields end_claimed_def w1_def tasks_written_def)
next
  case (W_retry_push t)
  obtain r w1 where push: "run_state (Push (NewRedisQueue svc retry_key) (uuid_String svc (ID t))) w = (r, w1)"
    by fastforce
  then have "pc' = W_idle" "\<exists>l. w' = w1\<lparr>mlog := l\<rparr>"
    using run W_retry_push by (auto simp: worker_fields end_claimed_def)
  with Push_through [OF push q] W_retry_push show ?thesis by (auto simp: queue_written_def)
next
  case (W_fail t err)
  obtain r w1 where mark: "run_state (MarkFailed (NewTaskRepository svc) (ID t) (Error err)) w = (r, w1)" by fastforce
  with run W_fail MarkFailed_through [OF mark q] ready show ?thesis by (auto simp: worker_fields)
next
  case (W_fail_execution t err)
  obtain r w1 where upd: "run_state (UpdateStatus (NewWorkflowRepository svc) (ExecutionID t) WorkflowFailed) w = (r, w1)"
    by fastforce
  with run W_fail_execution UpdateStatus_through [OF upd q] show ?thesis by (auto simp: worker_fields)
next
  case (W_fail_publish t err)
  obtain r w1 where pub: "run_state (PublishTaskTerminated (NewRedisEventBus svc)
      (terminated_event t TaskTerminationFailed (Error err))) w = (r, w1)" by fastforce
  then have "pc' = W_idle" "\<exists>l. w' = w1\<lparr>mlog := l\<rparr>"
    using run W_fail_publish by (auto simp: worker_fields terminated_event_def NewTaskTerminatedEvent_def end_claimed_def)
  with Publish_through(2) [OF pub q] W_fail_publish show ?thesis by auto
qed (use known in simp_all)

lemma end_termination_log: "\<exists>l. run_state (end_termination n ty) w = (C_idle, w\<lparr>mlog := l\<rparr>)"
proof -
  obtain l where "run_state (for_each (replicate n ()) (\<lambda>_. do {
      inc CoordinatorSkipPropagationsTotal []; inc CoordinatorTasksUnblockedTotal [] })) w = ((), w\<lparr>mlog := l\<rparr>)"
    using run_for_each_log [of "\<lambda>_. do { inc CoordinatorSkipPropagationsTotal []; inc CoordinatorTasksUnblockedTotal [] }"
        "replicate n ()" w] by auto
  then show ?thesis by (auto simp: end_termination_def end_event_def)
qed

lemma coordinator_through:
  assumes run: "run_state (coord_step svc (NewCoordinator (NewTaskRepository svc) (NewWorkflowRepository svc)
      (NewRedisQueue svc main_key) (NewRedisEventBus svc)) c) w = (c', w')"
    and q: "quiet (hidden w)"
    and names: "\<And>ev. c = C_decrement ev \<Longrightarrow> printable (tc_RefID ev) \<and> plain (tc_RefID ev)"
      "\<And>ev. c = C_taint ev \<Longrightarrow> printable (tt_RefID ev) \<and> plain (tt_RefID ev)"
  shows "coord_firm svc c w c' w' \<and> quiet (hidden w')"
proof (cases c)
  case (C_decrement ev)
  let ?P = "children (depends_on svc) (tc_ExecutionID ev) (tc_RefID ev)"
  obtain r w1 where decr: "run_state (DecrementAndGetReadyTasks (NewTaskRepository svc) (tc_ExecutionID ev) (tc_RefID ev)) w = (r, w1)"
    by fastforce
  from C_decrement names(1) have "printable (tc_RefID ev)" "plain (tc_RefID ev)" by simp_all
  from Decrement_through(1) [OF q this decr] obtain ids where ids: "r = Inr ids"
    "mset ids = mset (released_ids ?P w)" "tasks_rewritten ?P decremented w w1" "quiet (hidden w1)"
    by (elim exE conjE) (rule that)
  have c': "c' = (if ids = [] then C_check (tc_ExecutionID ev) else C_queue ids (length ids))" and w': "w' = w1"
    using run decr ids(1) C_decrement by (simp_all add: coordinator_fields)
  show ?thesis unfolding C_decrement coord_firm.simps Let_def w' using ids(2-4) c' by blast
next
  case (C_taint ev)
  let ?P = "children (depends_on svc) (tt_ExecutionID ev) (tt_RefID ev)"
  obtain r w1 where decr: "run_state (DecrementAndSetSkipHint (NewTaskRepository svc) (tt_ExecutionID ev) (tt_RefID ev)) w = (r, w1)"
    by fastforce
  from C_taint names(2) have "printable (tt_RefID ev)" "plain (tt_RefID ev)" by simp_all
  from Decrement_through(2) [OF q this decr] obtain ids where ids: "r = Inr ids"
    "mset ids = mset (released_ids ?P w)" "tasks_rewritten ?P tainted w w1" "quiet (hidden w1)"
    by (elim exE conjE) (rule that)
  have c': "c' = C_skip_queue ids (length ids) (tt_Type ev)" and w': "w' = w1"
    using run decr ids(1) C_taint by (simp_all add: coordinator_fields)
  show ?thesis unfolding C_taint coord_firm.simps Let_def w' using ids(2-4) c' by blast
next
  case (C_queue ids n)
  show ?thesis
  proof (cases ids)
    case Nil
    with C_queue run q show ?thesis by (auto simp: end_event_def unwritten_def)
  next
    case (Cons i rest)
    obtain r w1 where push: "run_state (Push (NewRedisQueue svc main_key) (uuid_String svc i)) w = (r, w1)" by fastforce
    from Push_through [OF push q] Cons C_queue run push show ?thesis by (simp add: coordinator_fields)
  qed
next
  case (C_skip_queue ids n ty)
  show ?thesis
  proof (cases ids)
    case Nil
    obtain l where "run_state (end_termination n ty) w = (C_idle, w\<lparr>mlog := l\<rparr>)"
      using end_termination_log [of n ty w] by (elim exE) (rule that)
    with Nil C_skip_queue run q show ?thesis by (auto simp: unwritten_def)
  next
    case (Cons i rest)
    obtain r w1 where push: "run_state (Push (NewRedisQueue svc main_key) (uuid_String svc i)) w = (r, w1)" by fastforce
    from Push_through [OF push q] Cons C_skip_queue run push show ?thesis by (simp add: coordinator_fields)
  qed
next
  case (C_check ex)
  obtain r w1 where check: "run_state (AreAllTasksCompleted (NewTaskRepository svc) ex) w = (r, w1)" by fastforce
  from AreAllTasksCompleted_through [OF check q] have
    r: "r = Inr (all_completed w ex)" "unwritten w w1" "quiet (hidden w1)" by (simp_all add: all_completed_def)
  have "c' = (if all_completed w ex then C_finish ex else C_idle) \<and> (\<exists>l. w' = w1\<lparr>mlog := l\<rparr>)"
    using run check r(1) C_check
    by (cases "all_completed w ex") (auto simp: coordinator_fields end_event_def intro: exI [of _ "mlog w1"])
  with r C_check show ?thesis by auto
next
  case (C_finish ex)
  obtain r w1 where upd: "run_state (UpdateStatus (NewWorkflowRepository svc) ex WorkflowCompleted) w = (r, w1)" by fastforce
  from UpdateStatus_through [OF upd q] C_finish run upd show ?thesis
    by (auto simp: coordinator_fields end_event_def)
qed (use run q in \<open>simp add: unwritten_def\<close>)

lemma request_through:
  assumes run: "run_state (request_step svc (NewWorkflowService (NewTaskRepository svc) (NewRedisQueue svc main_key)) q) w = (q', w')"
    and quiet: "quiet (hidden w)"
  shows "request_firm svc q w q' w' \<and> quiet (hidden w')"
proof (cases q)
  case (R_create e ts)
  obtain r w1 where create: "run_state (CreateExecution (NewTaskRepository svc) e ts) w = (r, w1)" by fastforce
  from CreateExecution_through [OF create quiet] R_create run create show ?thesis
    by (auto simp: workflowService_persistWorkflow_def NewWorkflowService_def)
next
  case (R_push e ts)
  show ?thesis
  proof (cases ts)
    case Nil
    with R_push run quiet show ?thesis by (simp add: unwritten_def)
  next
    case (Cons t rest)
    obtain r w1 where push: "run_state (Push (NewRedisQueue svc main_key) (uuid_String svc (ID t))) w = (r, w1)" by fastforce
    from Push_through [OF push quiet] Cons R_push run push show ?thesis by (simp add: NewWorkflowService_def)
  qed
next
  case (R_done r)
  with run quiet have "q' = R_done r" "w' = w" by auto
  with R_done quiet show ?thesis by (simp add: unwritten_def)
qed

end

section \<open>Runs without failures\<close>

definition queue_of :: "nat \<Rightarrow> string" where
  "queue_of k = (if k < 9 then main_key else retry_key)"

fun handled_event :: "coord_pc \<Rightarrow> (uuid \<times> bool) list" where
  "handled_event (C_decrement ev) = [(tc_TaskID ev, True)]"
| "handled_event (C_taint ev) = [(tt_TaskID ev, False)]"
| "handled_event _ = []"

inductive firm_step :: "'h services \<Rightarrow> 'h sys \<Rightarrow> 'h sys \<Rightarrow> bool" for svc :: "'h services" where
  worker:
    "k < length (sys_workers s) \<Longrightarrow>
     worker_firm svc (queue_of k) (sys_workers s ! k) (sys_world s) pc w \<Longrightarrow>
     firm_step svc s (s\<lparr>sys_world := w, sys_workers := (sys_workers s)[k := pc],
       sys_succeeded := sys_succeeded s @ success_of (sys_workers s ! k) pc\<rparr>)"
| receive_completed:
    "sys_completed s = None \<Longrightarrow>
     (case inbox (sys_world s) completed_channel of
        [] \<Rightarrow> x = None \<and> unwritten (sys_world s) w
      | m # ms \<Rightarrow> x = unmarshal_completed svc m \<and> inbox_taken completed_channel (\<lambda>_. True) (sys_world s) w) \<Longrightarrow>
     firm_step svc s (s\<lparr>sys_world := w, sys_completed := x\<rparr>)"
| receive_terminated:
    "sys_terminated s = None \<Longrightarrow>
     (case inbox (sys_world s) terminated_channel of
        [] \<Rightarrow> y = None \<and> unwritten (sys_world s) w
      | m # ms \<Rightarrow> y = unmarshal_terminated svc m \<and> inbox_taken terminated_channel (\<lambda>_. True) (sys_world s) w) \<Longrightarrow>
     firm_step svc s (s\<lparr>sys_world := w, sys_terminated := y\<rparr>)"
| take_completed:
    "sys_coord s = C_idle \<Longrightarrow> sys_completed s = Some ev \<Longrightarrow> unwritten (sys_world s) w \<Longrightarrow>
     firm_step svc s (s\<lparr>sys_world := w, sys_coord := C_decrement ev, sys_completed := None\<rparr>)"
| take_terminated:
    "sys_coord s = C_idle \<Longrightarrow> sys_terminated s = Some ev' \<Longrightarrow> unwritten (sys_world s) w \<Longrightarrow>
     firm_step svc s (s\<lparr>sys_world := w, sys_coord := C_taint ev', sys_terminated := None\<rparr>)"
| coordinator:
    "coord_firm svc (sys_coord s) (sys_world s) c w \<Longrightarrow>
     firm_step svc s (s\<lparr>sys_world := w, sys_coord := c, sys_handled := sys_handled s @ handled_event (sys_coord s)\<rparr>)"
| arrive:
    "sane_submission InitRegistry e ts \<Longrightarrow>
     firm_step svc s (s\<lparr>sys_requests := sys_requests s @ [R_create e ts]\<rparr>)"
| request:
    "k < length (sys_requests s) \<Longrightarrow> request_firm svc (sys_requests s ! k) (sys_world s) q w \<Longrightarrow>
     firm_step svc s (s\<lparr>sys_world := w, sys_requests := (sys_requests s)[k := q]\<rparr>)"
| collector:
    "unwritten (sys_world s) w \<Longrightarrow> firm_step svc s (s\<lparr>sys_world := w\<rparr>)"

text \<open>What makes a step of the program one of these.\<close>

definition printable_requests :: "request_pc list \<Rightarrow> bool" where
  "printable_requests qs \<longleftrightarrow> (\<forall>e ts. R_create e ts \<in> set qs \<longrightarrow> (\<forall>t \<in> set ts. printable (RefID t)))"

definition ready :: "'h sys \<Rightarrow> bool" where
  "ready s \<longleftrightarrow> (\<forall>pc \<in> set (sys_workers s). worker_ready (sys_world s) pc) \<and>
     (\<forall>r \<in> set (task_rows (sys_world s)). printable (RefID r)) \<and> printable_requests (sys_requests s)"

lemma has_row_printable: "ready s \<Longrightarrow> has_row (b_tasks (board svc (sys_world s))) i ex p \<Longrightarrow> printable p"
  by (auto simp: ready_def has_row_def rows_def board_def)

lemma has_row_plain: "inv_rows reg a \<Longrightarrow> has_row (b_tasks (a_board a)) i ex p \<Longrightarrow> plain p"
  unfolding inv_rows_alt has_row_def by (auto simp: well_formed_def)

context flawless_services
begin

lemma collector_through:
  assumes "m = RedisQueueDepthCollector_tick svc key \<or> m = DBPoolCollector_tick idle in_use"
    and "run_state m w = (u, w')" and "quiet (hidden w)"
  shows "quiet (hidden w')"
proof -
  obtain r w1 where len: "run_state (redis_LLen svc key) w = (r, w1)" by fastforce
  from succeeds_lawD(1) [OF LLen_succeeds len assms(3)] assms len show ?thesis
    by (auto simp: RedisQueueDepthCollector_tick_def DBPoolCollector_tick_def split: sum.splits)
qed

lemma event_names:
  assumes "sys_inv reg (abs_sys svc s)" and "ready s"
  shows "sys_coord s = C_decrement ev \<Longrightarrow> printable (tc_RefID ev) \<and> plain (tc_RefID ev)"
    and "sys_coord s = C_taint ev' \<Longrightarrow> printable (tt_RefID ev') \<and> plain (tt_RefID ev')"
  using assms has_row_printable [OF assms(2), of svc] has_row_plain [of reg "abs_sys svc s"]
  by (force simp: sys_inv_def inv_events_def completed_events_def terminated_events_def)+

text \<open>The calls as the steps of the program make them.\<close>

lemma worker_call:
  assumes "run_state (worker_step svc (worker_of (main_server svc id1 id2) k) Background (sys_workers s ! k)) (sys_world s) = (pc, w)"
    and inv: "sys_inv InitRegistry (abs_sys svc s)" and ready: "ready s" and q: "quiet (hidden (sys_world s))"
    and k: "k < length (sys_workers s)"
  shows "worker_firm svc (queue_of k) (sys_workers s ! k) (sys_world s) pc w \<and> quiet (hidden w)"
proof -
  obtain i where wk: "worker_of (main_server svc id1 id2) k =
      NewWorker svc i (NewRedisQueue svc (queue_of k)) (NewRedisQueue svc retry_key)
       (NewTaskRepository svc) (NewWorkflowRepository svc) (NewRedisEventBus svc) InitRegistry"
    using main_worker unfolding queue_of_def by blast
  have pc: "sys_workers s ! k \<in> set (sys_workers s)" using k by simp
  from pc ready have "worker_ready (sys_world s) (sys_workers s ! k)" by (simp add: ready_def)
  from worker_through [OF assms(1) [unfolded wk] q this] worker_pc_registered [OF inv, of "sys_workers s ! k"] pc
  show ?thesis by simp
qed

lemma subscriber_calls:
  "run_state (SubscribeToEvents (co_eventBus (sv_coord (main_server svc id1 id2)))) v = (x, w) \<Longrightarrow> quiet (hidden v) \<Longrightarrow>
     quiet (hidden w) \<and> (case inbox v completed_channel of
        [] \<Rightarrow> x = None \<and> unwritten v w
      | m # ms \<Rightarrow> x = unmarshal_completed svc m \<and> inbox_taken completed_channel (\<lambda>_. True) v w)"
  "run_state (SubscribeToTerminationEvents (co_eventBus (sv_coord (main_server svc id1 id2)))) v = (y, w) \<Longrightarrow> quiet (hidden v) \<Longrightarrow>
     quiet (hidden w) \<and> (case inbox v terminated_channel of
        [] \<Rightarrow> y = None \<and> unwritten v w
      | m # ms \<Rightarrow> y = unmarshal_terminated svc m \<and> inbox_taken terminated_channel (\<lambda>_. True) v w)"
  using Subscribe_through by (simp_all add: coordinator_fields)

lemma coordinator_call:
  assumes "run_state (coord_step svc (sv_coord (main_server svc id1 id2)) (sys_coord s)) (sys_world s) = (c, w)"
    and inv: "sys_inv reg (abs_sys svc s)" and ready: "ready s" and q: "quiet (hidden (sys_world s))"
  shows "coord_firm svc (sys_coord s) (sys_world s) c w \<and> quiet (hidden w)"
  using coordinator_through [OF assms(1) [unfolded main_server_simps] q] event_names [OF inv ready] by blast

lemma request_call:
  "run_state (request_step svc (sv_workflowSvc (main_server svc id1 id2)) q) w = (q', w') \<Longrightarrow> quiet (hidden w) \<Longrightarrow>
     request_firm svc q w q' w' \<and> quiet (hidden w')"
  using request_through by simp

lemma step_through:
  assumes step: "sys_step svc (main_server svc id1 id2) s t"
    and inv: "sys_inv InitRegistry (abs_sys svc s)" and ready: "ready s" and q: "quiet (hidden (sys_world s))"
  shows "firm_step svc s t \<and> quiet (hidden (sys_world t))"
  using step
proof cases
  case (worker k pc w)
  with worker_call [OF worker(3) inv ready q worker(2)] show ?thesis by (simp add: firm_step.worker)
next
  case (receive_completed x w)
  with subscriber_calls(1) [OF receive_completed(3) q] show ?thesis by (simp add: firm_step.receive_completed)
next
  case (receive_terminated x w)
  with subscriber_calls(2) [OF receive_terminated(3) q] show ?thesis by (simp add: firm_step.receive_terminated)
next
  case (take_completed ev u w)
  then have "unwritten (sys_world s) w" "hidden w = hidden (sys_world s)" by (auto simp: unwritten_def)
  with take_completed q show ?thesis by (simp add: firm_step.take_completed)
next
  case (take_terminated ev u w)
  then have "unwritten (sys_world s) w" "hidden w = hidden (sys_world s)" by (auto simp: unwritten_def)
  with take_terminated q show ?thesis by (simp add: firm_step.take_terminated)
next
  case (coordinator c w)
  from coordinator_call [OF coordinator(2) inv ready q]
  have firm: "coord_firm svc (sys_coord s) (sys_world s) c w" "quiet (hidden w)" by simp_all
  have "handled_of (depends_on svc) (sys_coord s) (sys_world s) w = handled_event (sys_coord s)"
    using firm(1) by (cases "sys_coord s") (auto simp: Let_def)
  with firm coordinator(1) show ?thesis by (simp add: firm_step.coordinator)
next
  case (arrive req ids clock e ts)
  then show ?thesis using q submission_sane by (simp add: firm_step.arrive)
next
  case (request k r w)
  with request_call [OF request(3) q] show ?thesis by (simp add: firm_step.request)
next
  case (collector m key idle in_use u w)
  from collector_unwritten [OF collector(2,3)] collector_through [OF collector(2,3) q] collector(1)
  show ?thesis by (simp add: firm_step.collector)
qed

end

text \<open>
  The states reached from a healthy start by steps of the program, when the names in the
  requests are printable.
\<close>

inductive lossless :: "'h services \<Rightarrow> 'h server \<Rightarrow> ('h \<Rightarrow> bool) \<Rightarrow> 'h sys \<Rightarrow> bool"
  for svc :: "'h services" and sv :: "'h server" and quiet :: "'h \<Rightarrow> bool" where
  start: "empty_world w \<Longrightarrow> quiet (hidden w) \<Longrightarrow> lossless svc sv quiet (sys_init sv w)"
| step: "lossless svc sv quiet s \<Longrightarrow> sys_step svc sv s t \<Longrightarrow> printable_requests (sys_requests t) \<Longrightarrow>
    lossless svc sv quiet t"

lemma lossless_printable: "lossless svc sv quiet s \<Longrightarrow> printable_requests (sys_requests s)"
  by (induction rule: lossless.induct) (simp_all add: printable_requests_def sys_init_def)

text \<open>No step of a request makes it one that is still to be stored.\<close>

lemma request_step_create:
  assumes "run_state (request_step svc ws q) w = (R_create e ts, w')"
  shows "q = R_create e ts"
  using assms
  by (cases "(svc, ws, q)" rule: request_step.cases) (auto split: prod.splits sum.splits)

lemma printable_requests_step:
  assumes "printable_requests qs" and "run_state (request_step svc ws (qs ! k)) w = (q, w')"
  shows "printable_requests (qs[k := q])"
proof (cases "k < length qs")
  case True
  then have "qs ! k \<in> set qs" by simp
  with assms request_step_create [of svc ws "qs ! k" w] show ?thesis
    by (auto simp: printable_requests_def dest!: set_update_subset_insert [THEN subsetD])
next
  case False
  then have "qs[k := q] = qs" by (simp add: list_update_beyond)
  with assms(1) show ?thesis by simp
qed

lemma lossless_reachable: "lossless svc sv quiet s \<Longrightarrow> reachable svc sv s"
  by (induction rule: lossless.induct) (auto intro: reachable.intros)

end
