(* ===== verification/System_Account.thy ===== *)
theory System_Account
  imports System_Lossless
begin

text \<open>
  Accounting for every task when no call fails. Each stored task is in exactly one place, and
  its row says how far it has come: COMPLETED once its completion is on the way, FAILED or
  SKIPPED once its termination is, and then its execution is FAILED.
\<close>

section \<open>Marks: tasks that are through\<close>

fun worker_mark :: "worker_pc \<Rightarrow> (uuid \<times> bool) list" where
  "worker_mark (W_complete_publish t) = [(ID t, True)]"
| "worker_mark (W_skip_publish t) = [(ID t, False)]"
| "worker_mark (W_fail_execution t err) = [(ID t, False)]"
| "worker_mark (W_fail_publish t err) = [(ID t, False)]"
| "worker_mark _ = []"

text \<open>The mark a step of a worker adds.\<close>

fun new_mark :: "worker_pc \<Rightarrow> (uuid \<times> bool) list" where
  "new_mark (W_complete t out) = [(ID t, True)]"
| "new_mark (W_skip t) = [(ID t, False)]"
| "new_mark (W_fail t err) = [(ID t, False)]"
| "new_mark _ = []"

definition board_marks :: "board \<Rightarrow> (uuid \<times> bool) multiset" where
  "board_marks b = mset (map (\<lambda>ev. (tc_TaskID ev, True)) (b_completed b)) +
     mset (map (\<lambda>ev. (tt_TaskID ev, False)) (b_terminated b))"

definition coord_marks :: "asys \<Rightarrow> (uuid \<times> bool) multiset" where
  "coord_marks a = mset (handled_event (a_coord a)) + mset (a_handled a) +
     (case a_completed a of None \<Rightarrow> {#} | Some ev \<Rightarrow> {#(tc_TaskID ev, True)#}) +
     (case a_terminated a of None \<Rightarrow> {#} | Some ev \<Rightarrow> {#(tt_TaskID ev, False)#})"

definition marks :: "asys \<Rightarrow> (uuid \<times> bool) multiset" where
  "marks a = board_marks (a_board a) + coord_marks a + slots worker_mark (a_workers a)"

text \<open>Every mark is a place.\<close>

lemma slots_mono: "(\<And>x. image_mset g (mset (f x)) \<subseteq># mset (h x)) \<Longrightarrow> image_mset g (slots f xs) \<subseteq># slots h xs"
  by (induction xs) (auto simp: slots_def intro: subset_mset.add_mono)

lemma board_marks_places: "image_mset fst (board_marks b) = announced b"
  by (simp add: board_marks_def announced_def image_mset.compositionality comp_def)

lemma coord_marks_places: "image_mset fst (coord_marks a) \<subseteq># coord_places a"
proof -
  have "image_mset fst (mset (handled_event (a_coord a))) \<subseteq># mset (coord_tokens (a_coord a))"
    by (cases "a_coord a") simp_all
  then show ?thesis
    by (auto simp: coord_marks_def coord_places_def split: option.split)
qed

lemma worker_marks_places: "image_mset fst (mset (worker_mark pc)) \<subseteq># mset (worker_tokens pc)"
  by (cases pc) simp_all

definition worker_bare :: "worker_pc \<Rightarrow> uuid list" where
  "worker_bare pc = (if worker_mark pc = [] then worker_tokens pc else [])"

lemma worker_marks_bare: "image_mset fst (mset (worker_mark pc)) + mset (worker_bare pc) \<subseteq># mset (worker_tokens pc)"
  by (cases pc) (simp_all add: worker_bare_def)

text \<open>A task that waits, is queued, or is held by a worker that is not through has no mark.\<close>

lemma marks_once:
  assumes "inv_tokens a" and "image_mset fst (marks a) + M \<subseteq># places a" and "i \<in># M"
  shows "(i, b) \<notin># marks a"
proof
  assume "(i, b) \<in># marks a"
  then have "fst (i, b) \<in># image_mset fst (marks a)" by (metis imageI set_image_mset)
  then have i: "i \<in># image_mset fst (marks a)" by simp
  obtain N where "places a = image_mset fst (marks a) + (M + N)"
    using assms(2) by (metis subset_mset.le_iff_add union_assoc)
  from places_once [OF assms(1) this i] assms(3) show False by simp
qed

lemma marks_places:
  "image_mset fst (marks a) + (queued (a_board a) + slots request_tokens (a_requests a)) \<subseteq># places a"
proof -
  have "image_mset fst (slots worker_mark (a_workers a)) \<subseteq># slots worker_tokens (a_workers a)"
    by (rule slots_mono) (rule worker_marks_places)
  with coord_marks_places [of a] show ?thesis
    by (simp add: marks_def places_def board_marks_places ac_simps subset_mset.add_mono)
qed

lemma unmarked_worker:
  assumes "inv_tokens a" and k: "k < length (a_workers a)" and "worker_mark (a_workers a ! k) = []"
    and "i \<in> set (worker_tokens (a_workers a ! k))"
  shows "(i, b) \<notin># marks a"
proof (rule marks_once [OF assms(1)])
  have "image_mset fst (others worker_mark k (a_workers a)) \<subseteq># others worker_tokens k (a_workers a)"
    unfolding others_def by (rule slots_mono) (rule worker_marks_places)
  with coord_marks_places [of a]
  show "image_mset fst (marks a) + mset (worker_tokens (a_workers a ! k)) \<subseteq># places a"
    by (simp add: marks_def places_def board_marks_places slots_split [OF k] assms(3) ac_simps
        subset_mset.add_mono subset_mset.add_increasing)
qed (use assms(4) in simp)

lemma unmarked_waiting:
  "inv_tokens a \<Longrightarrow> i \<in># waiting (b_tasks (a_board a)) \<Longrightarrow> (i, b) \<notin># marks a"
  by (erule marks_once [OF _ marks_places]) (simp add: queued_def)

lemma marked_stored: "inv_tokens a \<Longrightarrow> (i, b) \<in># marks a \<Longrightarrow> i \<in># task_ids (a_board a)"
proof -
  assume inv: "inv_tokens a" and i: "(i, b) \<in># marks a"
  have "image_mset fst (marks a) \<subseteq># task_ids (a_board a)"
    using subset_mset.order_trans [OF _ marks_places [of a], of "image_mset fst (marks a)"] inv
    by (auto simp: inv_tokens_def intro: subset_mset.order_trans)
  with i show ?thesis by (metis (no_types, lifting) fst_conv imageI mset_subset_eqD set_image_mset)
qed

lemma marked_once: "inv_tokens a \<Longrightarrow> (i, True) \<in># marks a \<Longrightarrow> (i, False) \<notin># marks a"
proof
  assume inv: "inv_tokens a" and "(i, True) \<in># marks a" "(i, False) \<in># marks a"
  then have "{#(i, True), (i, False)#} \<subseteq># marks a"
    by (simp add: insert_subset_eq_iff in_diff_count)
  then obtain M where "marks a = {#(i, True), (i, False)#} + M" by (metis subset_mset.le_iff_add)
  then have "2 \<le> count (image_mset fst (marks a)) i" by simp
  moreover have "image_mset fst (marks a) \<subseteq># places a"
    using marks_places [of a] by (metis mset_subset_eq_add_left subset_mset.order_trans)
  then have "count (image_mset fst (marks a)) i \<le> count (places a) i" by (rule mset_subset_eq_count)
  moreover have "count (places a) i \<le> count (task_ids (a_board a)) i"
    using inv by (simp add: inv_tokens_def mset_subset_eq_count)
  moreover have "count (task_ids (a_board a)) i \<le> 1"
    using inv by (simp add: inv_tokens_def task_ids_def distinct_count_atmost_1 del: mset_map)
  ultimately show False by simp
qed

section \<open>What the steps move\<close>

lemma board_appended:
  "inbox_appended completed_channel (\<lambda>m. unmarshal_completed svc m = Some ev) w w' \<Longrightarrow>
     board svc w' = (board svc w)\<lparr>b_completed := b_completed (board svc w) @ [ev]\<rparr>"
  "inbox_appended terminated_channel (\<lambda>m. unmarshal_terminated svc m = Some ev') w w' \<Longrightarrow>
     board svc w' = (board svc w)\<lparr>b_terminated := b_terminated (board svc w) @ [ev']\<rparr>"
  by (auto simp: inbox_appended_def board_def List.map_filter_simps completed_channel_def terminated_channel_def)

lemma board_taken:
  "inbox_taken completed_channel (\<lambda>_. True) w w' \<Longrightarrow> inbox w completed_channel = m # ms \<Longrightarrow>
     board svc w' = (board svc w)\<lparr>b_completed := List.map_filter (unmarshal_completed svc) ms\<rparr>"
  "inbox_taken terminated_channel (\<lambda>_. True) w w' \<Longrightarrow> inbox w terminated_channel = m # ms \<Longrightarrow>
     board svc w' = (board svc w)\<lparr>b_terminated := List.map_filter (unmarshal_terminated svc) ms\<rparr>"
  by (auto simp: inbox_taken_def board_def completed_channel_def terminated_channel_def)

context lawful_services
begin

lemma board_pushed:
  assumes "queue_written ((redis_list w)(key := redis_list w key @ [uuid_String svc i])) w w'"
    and "key = main_key \<or> key = retry_key"
  shows "board svc w' = (if key = main_key then (board svc w)\<lparr>b_main := b_main (board svc w) @ [i]\<rparr>
    else (board svc w)\<lparr>b_retry := b_retry (board svc w) @ [i]\<rparr>)"
  using assms uuid_law [of i] by (auto simp: queue_written_def board_def main_key_def retry_key_def)

lemma board_popped:
  assumes "queue_written ((redis_list w)(key := xs)) w w'" and "key = main_key \<or> key = retry_key"
    and "redis_list w key = x # xs"
  shows "queued (board svc w) = queued (board svc w') + mset (parsed svc [x])"
    and "b_tasks (board svc w') = b_tasks (board svc w)" and "announced (board svc w') = announced (board svc w)"
    and "board_marks (board svc w') = board_marks (board svc w)"
proof -
  have "parsed svc (x # xs) = parsed svc [x] @ parsed svc xs" by (cases "uuid_Parse svc x") simp_all
  then show "queued (board svc w) = queued (board svc w') + mset (parsed svc [x])"
    using assms by (auto simp: queue_written_def board_def queued_def main_key_def retry_key_def ac_simps)
  show "b_tasks (board svc w') = b_tasks (board svc w)" "announced (board svc w') = announced (board svc w)"
    "board_marks (board svc w') = board_marks (board svc w)"
    using assms(1) by (simp_all add: queue_written_def board_def announced_def board_marks_def)
qed

lemma queue_of_keys: "queue_of k = main_key \<or> queue_of k = retry_key"
  by (simp add: queue_of_def)

text \<open>Tokens and marks: nothing is lost, and a mark is added where a task is through.\<close>

lemma worker_conserves:
  assumes firm: "worker_firm svc (queue_of k) pc w pc' w'"
  shows "b_tasks (board svc w') = b_tasks (board svc w) \<and>
    mset (worker_tokens pc') + (queued (board svc w') + announced (board svc w')) =
      mset (worker_tokens pc) + (queued (board svc w) + announced (board svc w)) \<and>
    mset (worker_mark pc') + board_marks (board svc w') =
      mset (worker_mark pc) + board_marks (board svc w) + mset (new_mark pc)"
proof (cases pc)
  case W_idle
  show ?thesis
  proof (cases "redis_list w (queue_of k)")
    case Nil
    with firm W_idle board_unwritten [of w w' svc] show ?thesis by simp
  next
    case (Cons x xs)
    with firm W_idle have pc': "pc' = (case uuid_Parse svc x of Inl e \<Rightarrow> W_idle | Inr i \<Rightarrow> W_find i)"
      and w': "queue_written ((redis_list w)(queue_of k := xs)) w w'" by simp_all
    have "mset (worker_tokens pc') = mset (parsed svc [x])" "worker_mark pc' = []"
      using pc' by (cases "uuid_Parse svc x"; simp)+
    with board_popped [OF w' queue_of_keys Cons] W_idle show ?thesis by simp
  qed
next
  case (W_find i)
  with firm board_unwritten [of w w' svc] show ?thesis by auto
next
  case (W_skip t)
  with firm board_tasks_written [of _ "skipped_row _" w w' svc] show ?thesis by auto
next
  case (W_skip_publish t)
  with firm show ?thesis
    by (auto simp: board_appended queued_def announced_def board_marks_def terminated_event_def)
next
  case (W_claim t)
  with firm board_tasks_written [of _ "claimed _ _" w w' svc] show ?thesis by (auto simp: failure_pc_def)
next
  case (W_complete t out)
  with firm board_tasks_written [of _ "completed _" w w' svc] show ?thesis by auto
next
  case (W_complete_publish t)
  with firm show ?thesis
    by (auto simp: board_appended queued_def announced_def board_marks_def completed_event_def)
next
  case (W_retry t)
  with firm board_tasks_written [of _ "retried _" w w' svc] show ?thesis by auto
next
  case (W_retry_push t)
  with firm board_pushed [of w retry_key "ID t" w'] show ?thesis
    by (auto simp: queued_def announced_def board_marks_def main_key_def retry_key_def)
next
  case (W_fail t err)
  with firm board_tasks_written [of _ "failed_row _ _" w w' svc] show ?thesis by auto
next
  case (W_fail_execution t err)
  with firm board_execs_written [of _ "\<lambda>e. e\<lparr>we_Status := WorkflowFailed\<rparr>" w w' svc] show ?thesis by auto
next
  case (W_fail_publish t err)
  with firm show ?thesis
    by (auto simp: board_appended queued_def announced_def board_marks_def terminated_event_def)
qed (use firm in simp_all)

lemma coordinator_conserves:
  assumes firm: "coord_firm svc c w c' w'"
    and dep: "\<And>ev. c = C_decrement ev \<Longrightarrow> finds_children svc w (tc_ExecutionID ev) (tc_RefID ev)"
      "\<And>ev. c = C_taint ev \<Longrightarrow> finds_children svc w (tt_ExecutionID ev) (tt_RefID ev)"
  shows "task_ids (board svc w') = task_ids (board svc w) \<and> handled_event c' = [] \<and>
    mset (coord_tokens c') + mset (map fst (handled_event c)) + (queued (board svc w') + announced (board svc w')) =
      mset (coord_tokens c) + (queued (board svc w) + announced (board svc w)) \<and>
    board_marks (board svc w') = board_marks (board svc w)"
proof -
  have resolve: "task_ids (board svc w') = task_ids (board svc w) \<and>
      mset ids + queued (board svc w') = queued (board svc w) \<and> announced (board svc w') = announced (board svc w) \<and>
      board_marks (board svc w') = board_marks (board svc w)"
    if "finds_children svc w ex p" "tasks_rewritten (children (depends_on svc) ex p) f w w'"
      "mset ids = mset (released_ids (children (depends_on svc) ex p) w)"
      and f: "\<And>t. info (f t) = g (info t)" "g = lowered \<or> g = marked" for ex p f g ids
  proof -
    have g: "\<And>x. i_ID (g x) = i_ID x" "\<And>x. i_InDegree (g x) = i_InDegree x - 1" using f(2) by auto
    have "mset ids = released ex p (b_tasks (board svc w))"
      unfolding released_unblocked [OF that(1)] using that(3)
      by (simp add: released_ids_def children_def conj_assoc)
    with board_decremented [OF that(1,2) f(1)] waiting_released [of g ex p "b_tasks (board svc w)", OF g]
      ids_update [of g "waits_for ex p" "b_tasks (board svc w)", OF g(1)]
    show ?thesis by (simp add: queued_def announced_def board_marks_def task_ids_def ac_simps del: mset_map)
  qed
  show ?thesis
  proof (cases c)
    case (C_decrement ev)
    from firm C_decrement obtain ids where ids: "mset ids = mset (released_ids (children (depends_on svc) (tc_ExecutionID ev) (tc_RefID ev)) w)"
      "tasks_rewritten (children (depends_on svc) (tc_ExecutionID ev) (tc_RefID ev)) decremented w w'"
      and c': "c' = (if ids = [] then C_check (tc_ExecutionID ev) else C_queue ids (length ids))"
      by (auto simp: Let_def)
    have "mset (coord_tokens c') = mset ids" "handled_event c' = []" using c' by auto
    with resolve [OF dep(1) [OF C_decrement] ids(2,1) info_decremented(1)] C_decrement show ?thesis by (simp add: ac_simps)
  next
    case (C_taint ev)
    from firm C_taint obtain ids where ids: "mset ids = mset (released_ids (children (depends_on svc) (tt_ExecutionID ev) (tt_RefID ev)) w)"
      "tasks_rewritten (children (depends_on svc) (tt_ExecutionID ev) (tt_RefID ev)) tainted w w'"
      and c': "c' = C_skip_queue ids (length ids) (tt_Type ev)"
      by (auto simp: Let_def)
    with resolve [OF dep(2) [OF C_taint] ids(2,1) info_decremented(2)] C_taint show ?thesis by (simp add: ac_simps)
  next
    case (C_queue ids n)
    with firm board_unwritten [of w w' svc] board_pushed [of w main_key _ w'] show ?thesis
      by (cases ids) (auto simp: queued_def announced_def board_marks_def task_ids_def)
  next
    case (C_skip_queue ids n ty)
    with firm board_unwritten [of w w' svc] board_pushed [of w main_key _ w'] show ?thesis
      by (cases ids) (auto simp: queued_def announced_def board_marks_def task_ids_def)
  next
    case (C_finish ex)
    with firm board_execs_written [of _ "\<lambda>e. e\<lparr>we_Status := WorkflowCompleted\<rparr>" w w' svc] show ?thesis by auto
  qed (use firm board_unwritten [of w w' svc] in auto)
qed

lemma stored_places:
  "\<forall>t \<in> set ts. 0 \<le> InDegree t \<Longrightarrow>
     waiting (map info ts) + mset (map ID (workflowService_getRootTasks ts)) = mset (map ID ts)"
  by (induction ts) (auto simp: waiting_def)

lemma board_created:
  "execution_created e ts w w' \<Longrightarrow> board svc w' =
     (board svc w)\<lparr>b_tasks := b_tasks (board svc w) @ map info ts, b_execs := insert (we_ID e) (b_execs (board svc w))\<rparr>"
  by (auto simp: execution_created_def board_def comp_def stamp_execution_def)

lemma request_conserves:
  assumes firm: "request_firm svc q w q' w'" and sane: "\<forall>e ts. q = R_create e ts \<longrightarrow> (\<forall>t \<in> set ts. 0 \<le> InDegree t)"
  shows "\<exists>new. task_ids (board svc w') = task_ids (board svc w) + new \<and>
    mset (request_tokens q') + (queued (board svc w') + announced (board svc w')) =
      mset (request_tokens q) + (queued (board svc w) + announced (board svc w)) + new \<and>
    board_marks (board svc w') = board_marks (board svc w)"
proof (cases q)
  case (R_create e ts)
  show ?thesis
  proof (cases "execution_created e ts w w' \<and> q' = R_push e (workflowService_getRootTasks ts)")
    case True
    with board_created [of e ts w w'] stored_places [of ts] sane R_create show ?thesis
      by (intro exI [of _ "mset (map ID ts)"])
        (auto simp: task_ids_def queued_def announced_def board_marks_def comp_def ac_simps)
  next
    case False
    with firm R_create board_unwritten [of w w' svc] show ?thesis by (intro exI [of _ "{#}"]) auto
  qed
next
  case (R_push e ts)
  with firm board_unwritten [of w w' svc] board_pushed [of w main_key _ w'] show ?thesis
    by (cases ts; intro exI [of _ "{#}"]) (auto simp: queued_def announced_def board_marks_def task_ids_def)
next
  case (R_done r)
  with firm board_unwritten [of w w' svc] show ?thesis by (intro exI [of _ "{#}"]) auto
qed

end

section \<open>No task is lost\<close>

definition kept :: "asys \<Rightarrow> bool" where
  "kept a \<longleftrightarrow> places a = task_ids (a_board a)"

lemma sane_degrees: "inv_requests reg a \<Longrightarrow> R_create e ts \<in> set (a_requests a) \<Longrightarrow> \<forall>t \<in> set ts. 0 \<le> InDegree t"
  by (fastforce simp: inv_requests_def sane_submission_def)

context lawful_services
begin

lemma event_children:
  assumes "sys_inv reg (abs_sys svc s)"
  shows "sys_coord s = C_decrement ev \<Longrightarrow> finds_children svc (sys_world s) (tc_ExecutionID ev) (tc_RefID ev)"
    and "sys_coord s = C_taint ev' \<Longrightarrow> finds_children svc (sys_world s) (tt_ExecutionID ev') (tt_RefID ev')"
  using assms
  by (auto simp: sys_inv_def inv_events_def completed_events_def terminated_events_def intro!: finds_childrenI [of reg "abs_sys svc s"])

text \<open>One statement per step: the places and the marks afterwards.\<close>

definition accounts :: "(uuid \<times> bool) list \<Rightarrow> 'h sys \<Rightarrow> 'h sys \<Rightarrow> bool" where
  "accounts ms s t \<longleftrightarrow> (\<exists>new. task_ids (board svc (sys_world t)) = task_ids (board svc (sys_world s)) + new \<and>
     places (abs_sys svc t) = places (abs_sys svc s) + new) \<and>
     marks (abs_sys svc t) = marks (abs_sys svc s) + mset ms"

lemma accountsI:
  assumes "task_ids (board svc (sys_world t)) = task_ids (board svc (sys_world s))"
    and "places (abs_sys svc t) = places (abs_sys svc s)"
    and "marks (abs_sys svc t) = marks (abs_sys svc s) + mset ms"
  shows "accounts ms s t"
  using assms by (auto simp: accounts_def intro: exI [of _ "{#}"])

lemma accounts_worker:
  assumes k: "k < length (sys_workers s)"
    and "worker_firm svc (queue_of k) (sys_workers s ! k) (sys_world s) pc w"
  shows "accounts (new_mark (sys_workers s ! k)) s (s\<lparr>sys_world := w, sys_workers := (sys_workers s)[k := pc],
       sys_succeeded := sys_succeeded s @ success_of (sys_workers s ! k) pc\<rparr>)"
  using worker_conserves [OF assms(2)]
  by (intro accountsI) (simp_all add: places_def marks_def coord_places_def coord_marks_def task_ids_def
      slots_split [OF k] slots_update [OF k] ac_simps)

lemma accounts_receive:
  assumes "sys_completed s = None" and "case inbox (sys_world s) completed_channel of
        [] \<Rightarrow> x = None \<and> unwritten (sys_world s) w
      | m # ms \<Rightarrow> x = unmarshal_completed svc m \<and> inbox_taken completed_channel (\<lambda>_. True) (sys_world s) w"
  shows "accounts [] s (s\<lparr>sys_world := w, sys_completed := x\<rparr>)"
proof (cases "inbox (sys_world s) completed_channel")
  case Nil
  with assms board_unwritten [of "sys_world s" w svc] show ?thesis
    by (intro accountsI) (simp_all add: places_def marks_def coord_places_def coord_marks_def)
next
  case (Cons m ms)
  with assms(2) have x: "x = unmarshal_completed svc m"
    and w: "board svc w = (board svc (sys_world s))\<lparr>b_completed := List.map_filter (unmarshal_completed svc) ms\<rparr>"
    using board_taken(1) [of "sys_world s" w m ms svc] by simp_all
  have "b_completed (board svc (sys_world s)) = (case x of None \<Rightarrow> [] | Some ev \<Rightarrow> [ev]) @ b_completed (board svc w)"
    by (simp add: w x, simp add: board_def Cons map_filter_Cons split: option.split)
  with w assms(1) show ?thesis
    by (intro accountsI) (auto simp: places_def marks_def coord_places_def coord_marks_def queued_def announced_def
        board_marks_def task_ids_def split: option.splits)
qed

lemma accounts_receive_terminated:
  assumes "sys_terminated s = None" and "case inbox (sys_world s) terminated_channel of
        [] \<Rightarrow> x = None \<and> unwritten (sys_world s) w
      | m # ms \<Rightarrow> x = unmarshal_terminated svc m \<and> inbox_taken terminated_channel (\<lambda>_. True) (sys_world s) w"
  shows "accounts [] s (s\<lparr>sys_world := w, sys_terminated := x\<rparr>)"
proof (cases "inbox (sys_world s) terminated_channel")
  case Nil
  with assms board_unwritten [of "sys_world s" w svc] show ?thesis
    by (intro accountsI) (simp_all add: places_def marks_def coord_places_def coord_marks_def)
next
  case (Cons m ms)
  with assms(2) have x: "x = unmarshal_terminated svc m"
    and w: "board svc w = (board svc (sys_world s))\<lparr>b_terminated := List.map_filter (unmarshal_terminated svc) ms\<rparr>"
    using board_taken(2) [of "sys_world s" w m ms svc] by simp_all
  have "b_terminated (board svc (sys_world s)) = (case x of None \<Rightarrow> [] | Some ev \<Rightarrow> [ev]) @ b_terminated (board svc w)"
    by (simp add: w x, simp add: board_def Cons map_filter_Cons split: option.split)
  with w assms(1) show ?thesis
    by (intro accountsI) (auto simp: places_def marks_def coord_places_def coord_marks_def queued_def announced_def
        board_marks_def task_ids_def split: option.splits)
qed

lemma accounts_coordinator:
  assumes "sys_inv reg (abs_sys svc s)" and "coord_firm svc (sys_coord s) (sys_world s) c w"
  shows "accounts [] s (s\<lparr>sys_world := w, sys_coord := c, sys_handled := sys_handled s @ handled_event (sys_coord s)\<rparr>)"
  using coordinator_conserves [OF assms(2) event_children [OF assms(1)]]
  by (intro accountsI) (simp_all add: places_def marks_def coord_places_def coord_marks_def ac_simps)

lemma accounts_request:
  assumes "sys_inv reg (abs_sys svc s)" and k: "k < length (sys_requests s)"
    and "request_firm svc (sys_requests s ! k) (sys_world s) q w"
  shows "accounts [] s (s\<lparr>sys_world := w, sys_requests := (sys_requests s)[k := q]\<rparr>)"
proof -
  have "\<forall>e ts. sys_requests s ! k = R_create e ts \<longrightarrow> (\<forall>t \<in> set ts. 0 \<le> InDegree t)"
    using sane_degrees [of reg "abs_sys svc s"] assms(1) nth_mem [OF k] by (auto simp: sys_inv_def)
  from request_conserves [OF assms(3) this] obtain new where
    new: "task_ids (board svc w) = task_ids (board svc (sys_world s)) + new"
    "mset (request_tokens q) + (queued (board svc w) + announced (board svc w)) =
      mset (request_tokens (sys_requests s ! k)) + (queued (board svc (sys_world s)) + announced (board svc (sys_world s))) + new"
    "board_marks (board svc w) = board_marks (board svc (sys_world s))"
    by (elim exE conjE) (rule that)
  have "places (abs_sys svc (s\<lparr>sys_world := w, sys_requests := (sys_requests s)[k := q]\<rparr>)) = places (abs_sys svc s) + new"
    using new(2) by (simp add: places_def coord_places_def slots_split [OF k] slots_update [OF k] ac_simps)
  with new(1,3) show ?thesis
    by (auto simp: accounts_def marks_def coord_marks_def)
qed

lemma accounts_other:
  "sys_coord s = C_idle \<Longrightarrow> sys_completed s = Some ev \<Longrightarrow> unwritten (sys_world s) w \<Longrightarrow>
     accounts [] s (s\<lparr>sys_world := w, sys_coord := C_decrement ev, sys_completed := None\<rparr>)"
  "sys_coord s = C_idle \<Longrightarrow> sys_terminated s = Some ev' \<Longrightarrow> unwritten (sys_world s) w \<Longrightarrow>
     accounts [] s (s\<lparr>sys_world := w, sys_coord := C_taint ev', sys_terminated := None\<rparr>)"
  "accounts [] s (s\<lparr>sys_requests := sys_requests s @ [R_create e ts]\<rparr>)"
  "unwritten (sys_world s) w \<Longrightarrow> accounts [] s (s\<lparr>sys_world := w\<rparr>)"
  using board_unwritten [of "sys_world s" w svc]
  by (auto intro!: accountsI simp: places_def marks_def coord_places_def coord_marks_def)

lemmas accounts_rules = accounts_worker accounts_receive accounts_receive_terminated accounts_coordinator
  accounts_request accounts_other

lemma firm_accounts:
  assumes "firm_step svc s t" and "sys_inv reg (abs_sys svc s)"
  shows "\<exists>ms. accounts ms s t"
  using assms by (induction rule: firm_step.induct) (blast intro: accounts_rules)+

lemma firm_kept:
  assumes "firm_step svc s t" and "sys_inv reg (abs_sys svc s)" and "kept (abs_sys svc s)"
  shows "kept (abs_sys svc t)"
proof -
  obtain ms where "accounts ms s t" using firm_accounts [OF assms(1,2)] by (elim exE) (rule that)
  with assms(3) show ?thesis by (auto simp: kept_def accounts_def)
qed

end

end
