(* ===== verification/System_Status.thy ===== *)
theory System_Status
  imports System_Account
begin

text \<open>
  What the rows say when no call fails: the status of a task that is through, the skip hints
  and the FAILED executions agree with the marks of \<open>System_Account\<close>, and the copies the
  workers hold are up to date, so that their compare-and-swaps hit.
\<close>

section \<open>Rows a step does not write\<close>

definition rows_frame :: "uuid set \<Rightarrow> 'h world \<Rightarrow> 'h world \<Rightarrow> bool" where
  "rows_frame U w w' \<longleftrightarrow> (\<forall>r. ID r \<notin> U \<longrightarrow> (r \<in> set (task_rows w') \<longleftrightarrow> r \<in> set (task_rows w)))"

lemma rows_frame_same: "task_rows w' = task_rows w \<Longrightarrow> rows_frame U w w'"
  by (simp add: rows_frame_def)

lemma written_row:
  "tasks_written P f w w' \<Longrightarrow> r' \<in> set (task_rows w') \<Longrightarrow>
     \<exists>r \<in> set (task_rows w). \<exists>ts. r' = (if P r then (f r)\<lparr>UpdatedAt := ts\<rparr> else r)"
  "tasks_rewritten Q g w w' \<Longrightarrow> r' \<in> set (task_rows w') \<Longrightarrow>
     \<exists>r \<in> set (task_rows w). r' = (if Q r then g r else r)"
proof -
  assume "tasks_written P f w w'" and r': "r' \<in> set (task_rows w')"
  then obtain ts where "task_rows w' = update_where P (\<lambda>t. (f t)\<lparr>UpdatedAt := ts\<rparr>) (task_rows w)"
    unfolding tasks_written_def by blast
  with r' have "r' \<in> set (update_where P (\<lambda>t. (f t)\<lparr>UpdatedAt := ts\<rparr>) (task_rows w))" by simp
  then show "\<exists>r \<in> set (task_rows w). \<exists>ts. r' = (if P r then (f r)\<lparr>UpdatedAt := ts\<rparr> else r)"
    unfolding set_update_where by blast
next
  assume "tasks_rewritten Q g w w'" and "r' \<in> set (task_rows w')"
  then show "\<exists>r \<in> set (task_rows w). r' = (if Q r then g r else r)"
    unfolding tasks_rewritten_def by (simp add: set_update_where)
qed

lemma rows_frame_update:
  assumes "task_rows w' = update_where P f (task_rows w)" and "\<And>r. ID (f r) = ID r"
    and "\<And>r. r \<in> set (task_rows w) \<Longrightarrow> P r \<Longrightarrow> ID r \<in> U"
  shows "rows_frame U w w'"
  unfolding rows_frame_def assms(1) set_update_where
  using assms(2,3) by (auto split: if_splits)

lemma rows_frame_written:
  "tasks_written P f w w' \<Longrightarrow> (\<And>r. ID (f r) = ID r) \<Longrightarrow> (\<And>r. P r \<Longrightarrow> ID r \<in> U) \<Longrightarrow> rows_frame U w w'"
  unfolding tasks_written_def by (elim conjE exE) (erule rows_frame_update; simp)

lemma ID_row_updates [simp]:
  "ID (claimed name v r) = ID r" "ID (retried v r) = ID r" "ID (completed out r) = ID r"
  "ID (failed_row msg out r) = ID r" "ID (skipped_row out r) = ID r" "ID (decremented r) = ID r" "ID (tainted r) = ID r"
  by (simp_all add: claimed_def retried_def completed_def failed_row_def skipped_row_def decremented_def tainted_def)

lemma worker_frame:
  assumes "worker_firm svc key pc w pc' w'"
  shows "rows_frame (set (worker_tokens pc)) w w'"
proof (cases pc)
  case (W_skip t)
  then show ?thesis using assms by (auto elim!: rows_frame_written)
next
  case (W_claim t)
  then show ?thesis using assms by (auto elim!: rows_frame_written)
next
  case (W_complete t out)
  then show ?thesis using assms by (auto elim!: rows_frame_written)
next
  case (W_retry t)
  then show ?thesis using assms by (auto elim!: rows_frame_written)
next
  case (W_fail t err)
  then show ?thesis using assms by (auto elim!: rows_frame_written)
qed (use assms in \<open>auto simp: queue_written_def unwritten_def inbox_appended_def execs_written_def
      intro!: rows_frame_same split: list.splits\<close>)

text \<open>The children of the event the coordinator holds.\<close>

fun coord_children :: "'h services \<Rightarrow> coord_pc \<Rightarrow> Task \<Rightarrow> bool" where
  "coord_children svc (C_decrement ev) = children (depends_on svc) (tc_ExecutionID ev) (tc_RefID ev)"
| "coord_children svc (C_taint ev) = children (depends_on svc) (tt_ExecutionID ev) (tt_RefID ev)"
| "coord_children svc _ = (\<lambda>t. False)"

definition written_children :: "'h services \<Rightarrow> coord_pc \<Rightarrow> 'h world \<Rightarrow> uuid set" where
  "written_children svc c w = ID ` {r \<in> set (task_rows w). coord_children svc c r}"

lemma coordinator_frame:
  assumes "coord_firm svc c w c' w'"
  shows "rows_frame (written_children svc c w) w w'"
proof (cases c)
  case (C_decrement ev)
  with assms show ?thesis
    by (auto simp: tasks_rewritten_def Let_def written_children_def intro!: rows_frame_update)
next
  case (C_taint ev)
  with assms show ?thesis
    by (auto simp: tasks_rewritten_def Let_def written_children_def intro!: rows_frame_update)
next
  case (C_queue ids n)
  with assms show ?thesis
    by (cases ids) (auto simp: queue_written_def unwritten_def intro: rows_frame_same)
next
  case (C_skip_queue ids n ty)
  with assms show ?thesis
    by (cases ids) (auto simp: queue_written_def unwritten_def intro: rows_frame_same)
qed (use assms in \<open>auto simp: unwritten_def execs_written_def intro: rows_frame_same\<close>)

text \<open>A child of the event, before and after the step.\<close>

lemma coordinator_row:
  assumes "coord_firm svc c w c' w'" and "r' \<in> set (task_rows w')" and "ID r' \<in> written_children svc c w"
  shows "\<exists>r \<in> set (task_rows w). ID r' = ID r \<and> (r' = r \<or> r' = decremented r \<or>
    (\<exists>ev. c = C_taint ev \<and> coord_children svc (C_taint ev) r \<and> r' = tainted r))"
proof (cases c)
  case (C_decrement ev)
  with assms(1) have "tasks_rewritten (coord_children svc c) decremented w w'" by (auto simp: Let_def)
  from written_row(2) [OF this assms(2)] show ?thesis by (auto split: if_splits)
next
  case (C_taint ev)
  with assms(1) have "tasks_rewritten (coord_children svc c) tainted w w'" by (auto simp: Let_def)
  from written_row(2) [OF this assms(2)] C_taint show ?thesis by (auto split: if_splits)
qed (use assms(3) in \<open>simp_all add: written_children_def\<close>)

fun request_ids :: "request_pc \<Rightarrow> uuid set" where
  "request_ids (R_create e ts) = ID ` set ts"
| "request_ids _ = {}"

lemma ID_stored [simp]: "ID (stamp_task now (task_column_defaults t)) = ID t"
  by (simp add: stamp_task_def task_column_defaults_def)

lemma request_frame:
  assumes "request_firm svc q w q' w'"
  shows "rows_frame (request_ids q) w w'"
proof (cases q)
  case (R_create e ts)
  with assms show ?thesis
    by (auto simp: rows_frame_def execution_created_def unwritten_def)
next
  case (R_push e ts)
  with assms show ?thesis
    by (cases ts) (auto simp: queue_written_def unwritten_def intro: rows_frame_same)
qed (use assms in \<open>auto simp: unwritten_def intro: rows_frame_same\<close>)

section \<open>The children of an event are waiting\<close>

context lawful_services
begin

lemma children_wait:
  assumes inv: "sys_inv reg (abs_sys svc s)" and "i \<in> written_children svc (sys_coord s) (sys_world s)"
  shows "i \<in># waiting (b_tasks (board svc (sys_world s)))"
proof -
  let ?xs = "b_tasks (board svc (sys_world s))"
  from assms(2) obtain r where r: "r \<in> set (task_rows (sys_world s))" "ID r = i"
    "coord_children svc (sys_coord s) r" by (auto simp: written_children_def)
  have parts: "inv_tokens (abs_sys svc s)" "inv_events (abs_sys svc s)" "one_ref ?xs" "degrees_ok ?xs (sys_handled s)"
    using inv by (simp_all add: sys_inv_def inv_rows_def inv_degrees_def)
  obtain j ex p where ev: "j \<in> set (coord_tokens (sys_coord s))" "has_row ?xs j ex p" "waits_for ex p (info r)"
  proof (cases "sys_coord s")
    case (C_decrement ev)
    with event_children(1) [OF inv] r have "waits_for (tc_ExecutionID ev) (tc_RefID ev) (info r)"
      by (auto simp: finds_children_def)
    with C_decrement parts(2) that [of "tc_TaskID ev" "tc_ExecutionID ev" "tc_RefID ev"] show thesis
      by (auto simp: inv_events_def completed_events_def)
  next
    case (C_taint ev)
    with event_children(2) [OF inv] r have "waits_for (tt_ExecutionID ev) (tt_RefID ev) (info r)"
      by (auto simp: finds_children_def)
    with C_taint parts(2) that [of "tt_TaskID ev" "tt_ExecutionID ev" "tt_RefID ev"] show thesis
      by (auto simp: inv_events_def terminated_events_def)
  qed (use r in simp_all)
  have "j \<notin> fst ` set (sys_handled s)" using event_not_handled [OF parts(1), of j] ev(1) by simp
  with resolved_fresh [OF parts(3) ev(2)] ev(3) have "p \<in> unresolved ?xs (sys_handled s) (info r)"
    by (auto simp: unresolved_def waits_for_def)
  moreover have "finite (unresolved ?xs (sys_handled s) (info r))" by (simp add: unresolved_def)
  ultimately have "0 < card (unresolved ?xs (sys_handled s) (info r))" by (auto simp: card_gt_0_iff)
  moreover have "info r \<in> set ?xs" using r(1) by (simp add: board_def)
  ultimately have "0 < InDegree r" using parts(4) by (force simp: degrees_ok_def)
  with r show ?thesis by (auto simp: waiting_def board_def intro!: image_eqI [of _ _ "info r"])
qed

end

section \<open>The copies the workers hold\<close>

lemma ready_frame:
  assumes "worker_ready w pc" and "rows_frame U w w'" and "set (worker_tokens pc) \<inter> U = {}"
  shows "worker_ready w' pc"
  using assms by (cases pc) (fastforce simp: rows_frame_def)+

lemma ready_workers:
  assumes "ready s" and "rows_frame U (sys_world s) w" and "\<And>pc. pc \<in> set (sys_workers s) \<Longrightarrow> set (worker_tokens pc) \<inter> U = {}"
    and "pc \<in> set (sys_workers s)"
  shows "worker_ready w pc"
  using assms by (auto simp: ready_def intro: ready_frame)

lemma worker_ready_next:
  assumes "worker_firm svc key pc w pc' w'" and "worker_ready w pc" and "set (worker_tokens pc') \<subseteq> ID ` set (task_rows w')"
  shows "worker_ready w' pc'"
proof (cases pc)
  case W_idle
  with assms show ?thesis by (auto split: list.splits sum.splits)
next
  case (W_claim t)
  let ?t = "t\<lparr>Version := Version t + 1\<rparr>"
  from assms W_claim obtain name where
    "tasks_written (\<lambda>r. ID r = ID t \<and> Version r = Version t) (claimed name (Version t)) w w'" by auto
  then obtain ts where rows: "task_rows w' = update_where (\<lambda>r. ID r = ID t \<and> Version r = Version t)
      (\<lambda>r. (claimed name (Version t) r)\<lparr>UpdatedAt := ts\<rparr>) (task_rows w)"
    by (auto simp: tasks_written_def)
  have "t \<in> set (task_rows w)" using assms(2) W_claim by simp
  then have "(claimed name (Version t) t)\<lparr>UpdatedAt := ts\<rparr> \<in> set (task_rows w')"
    unfolding rows set_update_where by (intro CollectI bexI [of _ t]) auto
  then have "RetryCount ?t < MaxRetries ?t \<Longrightarrow> worker_ready w' (W_retry ?t)"
    by (intro worker_ready.simps(5) [THEN iffD2] bexI) (auto simp: claimed_def)
  with assms(1) W_claim show ?thesis by (auto simp: failure_pc_def CanRetry_def)
qed (use assms in \<open>auto simp: unwritten_def split: if_splits\<close>)

section \<open>Statuses\<close>

fun worker_pending :: "worker_pc \<Rightarrow> uuid list" where
  "worker_pending (W_fail_execution t err) = [ID t]"
| "worker_pending _ = []"

definition pending :: "worker_pc list \<Rightarrow> uuid multiset" where
  "pending pcs = slots worker_pending pcs"

definition failed_execs :: "'h world \<Rightarrow> uuid set" where
  "failed_execs w = we_ID ` {e \<in> set (exec_rows w). we_Status e = WorkflowFailed}"

text \<open>
  A row against the marks \<open>M\<close>, the tasks \<open>P\<close> whose execution is about to be failed, and the
  FAILED executions \<open>F\<close>.
\<close>

definition row_ok :: "(uuid \<times> bool) multiset \<Rightarrow> uuid multiset \<Rightarrow> uuid set \<Rightarrow> Task \<Rightarrow> bool" where
  "row_ok M P F r \<longleftrightarrow>
     ((ID r, True) \<in># M \<longrightarrow> Status r = StatusCompleted) \<and>
     ((ID r, False) \<in># M \<longrightarrow> Status r = StatusFailed \<or> Status r = StatusSkipped) \<and>
     (Status r = StatusFailed \<longrightarrow> (ID r, False) \<in># M) \<and>
     (ID r \<in># P \<longrightarrow> Status r = StatusFailed) \<and>
     (SkipHint r \<longrightarrow> ExecutionID r \<in> F) \<and>
     ((ID r, False) \<in># M \<and> ID r \<notin># P \<longrightarrow> ExecutionID r \<in> F)"

lemma row_ok_stamp [simp]: "row_ok M P F (r\<lparr>UpdatedAt := ts\<rparr>) = row_ok M P F r"
  by (simp add: row_ok_def)

lemma row_ok_frame:
  assumes "row_ok M P F r" and "\<And>b. (ID r, b) \<in># M' \<longleftrightarrow> (ID r, b) \<in># M"
    and "ID r \<in># P' \<longleftrightarrow> ID r \<in># P" and "F \<subseteq> F'"
  shows "row_ok M' P' F' r"
  using assms unfolding row_ok_def by blast

definition failed_has_task :: "'h world \<Rightarrow> bool" where
  "failed_has_task w \<longleftrightarrow>
     (\<forall>ex \<in> failed_execs w. \<exists>r \<in> set (task_rows w). ExecutionID r = ex \<and> Status r = StatusFailed)"

definition status_ok :: "'h services \<Rightarrow> 'h sys \<Rightarrow> bool" where
  "status_ok svc s \<longleftrightarrow>
     (\<forall>r \<in> set (task_rows (sys_world s)).
        row_ok (marks (abs_sys svc s)) (pending (sys_workers s)) (failed_execs (sys_world s)) r) \<and>
     failed_has_task (sys_world s)"

lemma failed_execs_written:
  assumes "execs_written (status_writable ex s) (\<lambda>e. e\<lparr>we_Status := s\<rparr>) w w'"
  shows "failed_execs w' = failed_execs w \<union> (if s = WorkflowFailed then {ex} \<inter> we_ID ` set (exec_rows w) else {})"
proof -
  obtain ts where rows: "exec_rows w' = update_where (status_writable ex s)
      (\<lambda>e. (e\<lparr>we_Status := s\<rparr>)\<lparr>we_UpdatedAt := ts\<rparr>) (exec_rows w)"
    using assms by (auto simp: execs_written_def)
  let ?g = "\<lambda>e. if status_writable ex s e then (e\<lparr>we_Status := s\<rparr>)\<lparr>we_UpdatedAt := ts\<rparr> else e"
  have "set (exec_rows w') = ?g ` set (exec_rows w)" by (simp add: rows update_where_def)
  then have "failed_execs w' = we_ID ` {e \<in> ?g ` set (exec_rows w). we_Status e = WorkflowFailed}"
    by (simp only: failed_execs_def)
  also have "{e \<in> ?g ` set (exec_rows w). we_Status e = WorkflowFailed} =
      ?g ` {e \<in> set (exec_rows w). we_Status (?g e) = WorkflowFailed}" by blast
  also have "we_ID ` ?g ` {e \<in> set (exec_rows w). we_Status (?g e) = WorkflowFailed} =
      we_ID ` {e \<in> set (exec_rows w). we_Status (?g e) = WorkflowFailed}"
    unfolding image_image by (rule image_cong) auto
  also have "{e \<in> set (exec_rows w). we_Status (?g e) = WorkflowFailed} =
      {e \<in> set (exec_rows w). we_Status e = WorkflowFailed \<or> s = WorkflowFailed \<and> we_ID e = ex}"
    by (auto simp: status_writable_def)
  finally show ?thesis by (auto simp: failed_execs_def)
qed

section \<open>Workers keep the statuses\<close>

lemma pending_mset: "image_mset (\<lambda>i. i) (mset (worker_pending pc)) \<subseteq># mset (worker_tokens pc)"
  by (cases pc) simp_all

lemma others_pending:
  assumes "inv_tokens a" and k: "k < length (a_workers a)" and "i \<in> set (worker_tokens (a_workers a ! k))"
  shows "i \<notin># others worker_pending k (a_workers a)"
proof -
  have "places a = mset (worker_tokens (a_workers a ! k)) + (others worker_tokens k (a_workers a) +
      queued (a_board a) + announced (a_board a) + coord_places a + slots request_tokens (a_requests a))"
    by (simp add: places_def slots_split [OF k])
  from places_once [OF assms(1) this, of i] assms(3) have "i \<notin># others worker_tokens k (a_workers a)" by simp
  moreover have "others worker_pending k (a_workers a) \<subseteq># others worker_tokens k (a_workers a)"
    unfolding others_def using slots_mono [of "\<lambda>i. i" worker_pending worker_tokens, OF pending_mset] by simp
  ultimately show ?thesis by (auto dest: mset_subset_eqD)
qed

lemma one_row:
  assumes "inv_tokens (abs_sys svc s)" and "r \<in> set (task_rows (sys_world s))" "r' \<in> set (task_rows (sys_world s))"
    and "ID r = ID r'"
  shows "r = r'"
proof -
  have "distinct (map ID (task_rows (sys_world s)))"
    using assms(1) by (simp add: inv_tokens_def board_def comp_def)
  with assms(2-4) show ?thesis by (auto dest: distinct_key_unique)
qed

lemma marked_writes_no_row:
  "worker_firm svc key pc w pc' w' \<Longrightarrow> worker_mark pc \<noteq> [] \<Longrightarrow> task_rows w' = task_rows w"
  by (cases pc) (auto simp: inbox_appended_def execs_written_def)

lemma worker_failed_execs:
  assumes "worker_firm svc key pc w pc' w'"
  shows "failed_execs w' = failed_execs w \<union>
    (case pc of W_fail_execution t err \<Rightarrow> {ExecutionID t} \<inter> we_ID ` set (exec_rows w) | _ \<Rightarrow> {})"
proof (cases pc)
  case (W_fail_execution t err)
  with assms failed_execs_written [of "ExecutionID t" WorkflowFailed w w'] show ?thesis by simp
qed (use assms in \<open>auto simp: unwritten_def queue_written_def inbox_appended_def tasks_written_def failed_execs_def
      split: list.splits\<close>)

lemma worker_pending_next:
  assumes "worker_firm svc key pc w pc' w'"
  shows "worker_pending pc' = (case pc of W_fail t err \<Rightarrow> [ID t] | _ \<Rightarrow> [])"
  by (cases pc) (use assms in \<open>auto simp: failure_pc_def split: list.splits sum.splits\<close>)

context lawful_services
begin

text \<open>The row of the task the worker holds.\<close>

lemma status_own_row:
  assumes inv: "sys_inv reg (abs_sys svc s)" and ok: "status_ok svc s" and rdy: "ready s"
    and k: "k < length (sys_workers s)" and pc: "sys_workers s ! k = pc"
    and firm: "worker_firm svc (queue_of k) pc (sys_world s) pc' w"
    and r': "r' \<in> set (task_rows w)" "ID r' \<in> set (worker_tokens pc)"
  shows "row_ok (marks (abs_sys svc s) + mset (new_mark pc))
    (mset (worker_pending pc') + others worker_pending k (sys_workers s)) (failed_execs w) r'"
proof -
  let ?M = "marks (abs_sys svc s)" and ?O = "others worker_pending k (sys_workers s)"
    and ?F = "failed_execs (sys_world s)" and ?w = "sys_world s"
  have tok: "inv_tokens (abs_sys svc s)" using inv by (simp add: sys_inv_def)
  have P: "pending (sys_workers s) = mset (worker_pending pc) + ?O"
    by (simp add: pending_def slots_split [OF k] pc)
  have old: "row_ok ?M (mset (worker_pending pc) + ?O) ?F r" if "r \<in> set (task_rows ?w)" for r
    using ok that by (simp add: status_ok_def P)
  have O: "i \<notin># ?O" if "i \<in> set (worker_tokens pc)" for i
    using others_pending [OF tok, of k i] k pc that by simp
  have bare: "(i, b) \<notin># ?M" if "worker_mark pc = []" "i \<in> set (worker_tokens pc)" for i b
    using unmarked_worker [OF tok, of k i b] k pc that by simp
  have rdy_pc: "worker_ready ?w pc" using rdy k pc by (auto simp: ready_def)
  have F: "?F \<subseteq> failed_execs w" using worker_failed_execs [OF firm] by auto
  have same: ?thesis if "worker_pending pc' = worker_pending pc" "new_mark pc = []" "task_rows w = task_rows ?w"
    using row_ok_frame [OF old _ _ F, of r' _ "mset (worker_pending pc') + ?O"] that r'(1) by simp
  have task: "ExecutionID r = ExecutionID t" "ExecutionID t \<in> we_ID ` set (exec_rows ?w)"
    if t: "worker_task pc = Some t" "ID r = ID t" and "r \<in> set (task_rows ?w)" for r t
  proof -
    have "worker_ok (abs_sys svc s) pc" using inv k pc by (auto simp: sys_inv_def inv_workers_def)
    then have "ident (info t) \<in> ident ` info ` set (task_rows ?w)"
      using t(1) unfolding worker_ok_def rows_def by (simp add: board_def)
    then obtain x where x: "x \<in> set (task_rows ?w)" "ident (info x) = ident (info t)" by auto
    have xt: "ID x = ID t" "ExecutionID x = ExecutionID t"
      using arg_cong [OF x(2), of i_ID] arg_cong [OF x(2), of i_Exec] by simp_all
    with one_row [OF tok x(1) that(3)] t(2) have "x = r" by simp
    with xt show "ExecutionID r = ExecutionID t" by simp
    have "info x \<in> set (b_tasks (a_board (abs_sys svc s)))" using x(1) by (simp add: board_def)
    then have "i_Exec (info x) \<in> b_execs (a_board (abs_sys svc s))"
      using inv unfolding sys_inv_def inv_rows_def by blast
    with xt show "ExecutionID t \<in> we_ID ` set (exec_rows ?w)" by (simp add: board_def)
  qed
  show ?thesis
  proof (cases pc)
    case (W_skip t)
    from firm W_skip obtain out where out: "tasks_written (\<lambda>r. ID r = ID t) (skipped_row out) ?w w" by auto
    from written_row(1) [OF out r'(1)] r'(2) W_skip obtain r ts where
      r: "r \<in> set (task_rows ?w)" "ID r = ID t" "r' = (skipped_row out r)\<lparr>UpdatedAt := ts\<rparr>" by (auto split: if_splits)
    have "r = t" using one_row [OF tok r(1)] r(2) rdy_pc W_skip by simp
    with rdy_pc W_skip old [OF r(1)] have "SkipHint t" "ExecutionID t \<in> ?F" by (simp_all add: row_ok_def)
    with \<open>r = t\<close> r(3) bare [of "ID t"] O [of "ID t"] F worker_pending_next [OF firm] W_skip show ?thesis
      by (auto simp: row_ok_def skipped_row_def)
  next
    case (W_claim t)
    from firm W_claim obtain name where out: "tasks_written (\<lambda>r. ID r = ID t \<and> Version r = Version t) (claimed name (Version t)) ?w w"
      by auto
    from written_row(1) [OF out r'(1)] obtain r ts where r: "r \<in> set (task_rows ?w)"
      "r' = (if ID r = ID t \<and> Version r = Version t then (claimed name (Version t) r)\<lparr>UpdatedAt := ts\<rparr> else r)"
      by blast
    then have "ID r = ID t" using r'(2) W_claim by (auto split: if_splits)
    with old [OF r(1)] r(2) bare [of "ID t"] O [of "ID t"] F worker_pending_next [OF firm] W_claim show ?thesis
      by (auto simp: row_ok_def claimed_def)
  next
    case (W_retry t)
    from firm W_retry have out: "tasks_written (\<lambda>r. ID r = ID t \<and> Version r = Version t) (retried (Version t)) ?w w"
      by auto
    from written_row(1) [OF out r'(1)] obtain r ts where r: "r \<in> set (task_rows ?w)"
      "r' = (if ID r = ID t \<and> Version r = Version t then (retried (Version t) r)\<lparr>UpdatedAt := ts\<rparr> else r)"
      by blast
    then have "ID r = ID t" using r'(2) W_retry by (auto split: if_splits)
    with old [OF r(1)] r(2) bare [of "ID t"] O [of "ID t"] F worker_pending_next [OF firm] W_retry show ?thesis
      by (auto simp: row_ok_def retried_def)
  next
    case (W_complete t out)
    from firm W_complete have "tasks_written (\<lambda>r. ID r = ID t) (completed out) ?w w" by auto
    from written_row(1) [OF this r'(1)] r'(2) W_complete obtain r ts where
      r: "r \<in> set (task_rows ?w)" "ID r = ID t" "r' = (completed out r)\<lparr>UpdatedAt := ts\<rparr>" by (auto split: if_splits)
    with old [OF r(1)] bare [of "ID t"] O [of "ID t"] F worker_pending_next [OF firm] W_complete show ?thesis
      by (auto simp: row_ok_def completed_def)
  next
    case (W_fail t err)
    from firm W_fail obtain out where out: "tasks_written (\<lambda>r. ID r = ID t) (failed_row (Error err) out) ?w w" by auto
    from written_row(1) [OF out r'(1)] r'(2) W_fail obtain r ts where
      r: "r \<in> set (task_rows ?w)" "ID r = ID t" "r' = (failed_row (Error err) out r)\<lparr>UpdatedAt := ts\<rparr>"
      by (auto split: if_splits)
    with old [OF r(1)] bare [of "ID t"] F worker_pending_next [OF firm] W_fail show ?thesis
      by (auto simp: row_ok_def failed_row_def)
  next
    case (W_fail_execution t err)
    then have r: "r' \<in> set (task_rows ?w)" "ID r' = ID t"
      using marked_writes_no_row [OF firm] r' by simp_all
    from task [OF _ r(2,1)] W_fail_execution have "ExecutionID r' \<in> failed_execs w"
      using worker_failed_execs [OF firm] by simp
    with old [OF r(1)] r(2) O [of "ID t"] F worker_pending_next [OF firm] W_fail_execution show ?thesis
      by (auto simp: row_ok_def)
  next
    case (W_find i)
    then show ?thesis using firm worker_pending_next [OF firm] by (intro same) (auto simp: unwritten_def)
  next
    case (W_retry_push t)
    then show ?thesis using firm worker_pending_next [OF firm] by (intro same) (auto simp: queue_written_def)
  next
    case (W_skip_publish t)
    then show ?thesis using marked_writes_no_row [OF firm] worker_pending_next [OF firm] by (intro same) simp_all
  next
    case (W_complete_publish t)
    then show ?thesis using marked_writes_no_row [OF firm] worker_pending_next [OF firm] by (intro same) simp_all
  next
    case (W_fail_publish t err)
    then show ?thesis using marked_writes_no_row [OF firm] worker_pending_next [OF firm] by (intro same) simp_all
  qed (use firm r'(2) in auto)
qed

lemma worker_pending_own: "worker_firm svc key pc w pc' w' \<Longrightarrow> set (worker_pending pc') \<subseteq> set (worker_tokens pc)"
  by (drule worker_pending_next) (cases pc; simp)

lemma new_mark_own: "fst ` set (new_mark pc) \<subseteq> set (worker_tokens pc)"
  by (cases pc) simp_all

lemma status_worker:
  assumes inv: "sys_inv reg (abs_sys svc s)" and ok: "status_ok svc s" and rdy: "ready s"
    and k: "k < length (sys_workers s)"
    and firm: "worker_firm svc (queue_of k) (sys_workers s ! k) (sys_world s) pc w"
  shows "status_ok svc (s\<lparr>sys_world := w, sys_workers := (sys_workers s)[k := pc],
       sys_succeeded := sys_succeeded s @ success_of (sys_workers s ! k) pc\<rparr>)" (is "status_ok svc ?t")
proof -
  let ?pc = "sys_workers s ! k" and ?O = "others worker_pending k (sys_workers s)"
  have tok: "inv_tokens (abs_sys svc s)" using inv by (simp add: sys_inv_def)
  have M: "marks (abs_sys svc ?t) = marks (abs_sys svc s) + mset (new_mark ?pc)"
    using accounts_worker [OF k firm] by (simp add: accounts_def)
  have P: "pending ((sys_workers s)[k := pc]) = mset (worker_pending pc) + ?O" "pending (sys_workers s) = mset (worker_pending ?pc) + ?O"
    by (simp_all add: pending_def slots_split [OF k] slots_update [OF k])
  have F: "failed_execs (sys_world s) \<subseteq> failed_execs w" using worker_failed_execs [OF firm] by auto
  have old: "row_ok (marks (abs_sys svc s)) (pending (sys_workers s)) (failed_execs (sys_world s)) r"
    if "r \<in> set (task_rows (sys_world s))" for r using ok that by (simp add: status_ok_def)
  have "row_ok (marks (abs_sys svc ?t)) (pending (sys_workers ?t)) (failed_execs w) r" if r: "r \<in> set (task_rows w)" for r
  proof (cases "ID r \<in> set (worker_tokens ?pc)")
    case True
    from status_own_row [OF inv ok rdy k refl firm r True] show ?thesis by (simp add: M P)
  next
    case False
    with worker_frame [OF firm] r have "r \<in> set (task_rows (sys_world s))" by (simp add: rows_frame_def)
    from old [OF this] show ?thesis
      using False F new_mark_own [of ?pc] worker_pending_own [OF firm] pending_mset [of ?pc]
      by (elim row_ok_frame) (auto simp: M P dest!: mset_subset_eqD)
  qed
  moreover have "failed_has_task w"
    unfolding failed_has_task_def
  proof
    fix ex assume ex: "ex \<in> failed_execs w"
    show "\<exists>r \<in> set (task_rows w). ExecutionID r = ex \<and> Status r = StatusFailed"
    proof (cases "ex \<in> failed_execs (sys_world s)")
      case True
      with ok obtain r where r: "r \<in> set (task_rows (sys_world s))" "ExecutionID r = ex" "Status r = StatusFailed"
        by (auto simp: status_ok_def failed_has_task_def)
      then have "(ID r, False) \<in># marks (abs_sys svc s)" using old [OF r(1)] by (simp add: row_ok_def)
      then have "ID r \<in> set (worker_tokens ?pc) \<longrightarrow> worker_mark ?pc \<noteq> []"
        using unmarked_worker [OF tok, of k "ID r" False] k by auto
      then have "r \<in> set (task_rows w)"
        using marked_writes_no_row [OF firm] worker_frame [OF firm] r(1) by (auto simp: rows_frame_def)
      with r show ?thesis by blast
    next
      case False
      with ex worker_failed_execs [OF firm] obtain t err where t: "?pc = W_fail_execution t err" "ex = ExecutionID t"
        by (auto split: worker_pc.splits)
      have "worker_ok (abs_sys svc s) ?pc" using inv k by (auto simp: sys_inv_def inv_workers_def)
      then have "ident (info t) \<in> ident ` info ` set (task_rows (sys_world s))"
        using t(1) unfolding worker_ok_def rows_def by (simp add: board_def)
      then obtain r where r: "r \<in> set (task_rows (sys_world s))" "ident (info r) = ident (info t)" by auto
      have id: "ID r = ID t" "ExecutionID r = ExecutionID t"
        using arg_cong [OF r(2), of i_ID] arg_cong [OF r(2), of i_Exec] by simp_all
      have "ID r \<in># pending (sys_workers s)" by (simp add: P t(1) id)
      with old [OF r(1)] have "Status r = StatusFailed" by (simp add: row_ok_def)
      moreover have "task_rows w = task_rows (sys_world s)" using marked_writes_no_row [OF firm] t(1) by simp
      ultimately show ?thesis using r(1) id(2) t(2) by auto
    qed
  qed
  ultimately show ?thesis by (simp add: status_ok_def)
qed

section \<open>The other goroutines keep the statuses\<close>

lemma status_frame:
  assumes ok: "status_ok svc s" and marks: "marks (abs_sys svc t) = marks (abs_sys svc s)"
    and workers: "sys_workers t = sys_workers s"
    and F: "failed_execs (sys_world t) = failed_execs (sys_world s)"
    and frame: "rows_frame U (sys_world s) (sys_world t)"
    and free: "\<And>i b. i \<in> U \<Longrightarrow> (i, b) \<notin># marks (abs_sys svc s)"
    and written: "\<And>r. r \<in> set (task_rows (sys_world t)) \<Longrightarrow> ID r \<in> U \<Longrightarrow>
      row_ok (marks (abs_sys svc s)) (pending (sys_workers s)) (failed_execs (sys_world s)) r"
  shows "status_ok svc t"
proof -
  have old: "row_ok (marks (abs_sys svc s)) (pending (sys_workers s)) (failed_execs (sys_world s)) r"
    if "r \<in> set (task_rows (sys_world s))" for r using ok that by (simp add: status_ok_def)
  have "row_ok (marks (abs_sys svc t)) (pending (sys_workers t)) (failed_execs (sys_world t)) r"
    if "r \<in> set (task_rows (sys_world t))" for r
    using written [OF that] old [of r] frame that by (cases "ID r \<in> U") (auto simp: marks workers F rows_frame_def)
  moreover have "failed_has_task (sys_world t)"
    unfolding failed_has_task_def F
  proof
    fix ex assume "ex \<in> failed_execs (sys_world s)"
    with ok obtain r where r: "r \<in> set (task_rows (sys_world s))" "ExecutionID r = ex" "Status r = StatusFailed"
      by (auto simp: status_ok_def failed_has_task_def)
    then have "(ID r, False) \<in># marks (abs_sys svc s)" using old [OF r(1)] by (simp add: row_ok_def)
    with free have "ID r \<notin> U" by blast
    with frame r show "\<exists>r \<in> set (task_rows (sys_world t)). ExecutionID r = ex \<and> Status r = StatusFailed"
      by (auto simp: rows_frame_def)
  qed
  ultimately show ?thesis by (simp add: status_ok_def)
qed

lemma status_same:
  assumes "status_ok svc s" and "accounts [] s t" and "sys_workers t = sys_workers s"
    and "task_rows (sys_world t) = task_rows (sys_world s)"
    and "failed_execs (sys_world t) = failed_execs (sys_world s)"
  shows "status_ok svc t"
proof (rule status_frame [OF assms(1) _ assms(3,5)])
  show "marks (abs_sys svc t) = marks (abs_sys svc s)" using assms(2) by (simp add: accounts_def)
  show "rows_frame {} (sys_world s) (sys_world t)" using assms(4) by (rule rows_frame_same)
qed simp_all

lemma coord_failed_execs:
  assumes "coord_firm svc c w c' w'"
  shows "failed_execs w' = failed_execs w"
proof (cases c)
  case (C_finish ex)
  with assms failed_execs_written [of ex WorkflowCompleted w w'] show ?thesis by simp
next
  case (C_queue ids n)
  with assms show ?thesis by (cases ids) (auto simp: unwritten_def queue_written_def failed_execs_def)
next
  case (C_skip_queue ids n ty)
  with assms show ?thesis by (cases ids) (auto simp: unwritten_def queue_written_def failed_execs_def)
qed (use assms in \<open>auto simp: unwritten_def tasks_rewritten_def failed_execs_def Let_def\<close>)

text \<open>The execution of a terminated task is FAILED by the time its event is handled.\<close>

lemma terminated_failed:
  assumes inv: "sys_inv reg (abs_sys svc s)" and ok: "status_ok svc s" and c: "sys_coord s = C_taint ev"
  shows "tt_ExecutionID ev \<in> failed_execs (sys_world s)"
proof -
  have tok: "inv_tokens (abs_sys svc s)" and events: "inv_events (abs_sys svc s)" using inv by (simp_all add: sys_inv_def)
  from c have "ev \<in> terminated_events (abs_sys svc s)" by (simp add: terminated_events_def)
  with events have "has_row (b_tasks (board svc (sys_world s))) (tt_TaskID ev) (tt_ExecutionID ev) (tt_RefID ev)"
    by (simp add: inv_events_def)
  then obtain r where r: "r \<in> set (task_rows (sys_world s))" "ID r = tt_TaskID ev" "ExecutionID r = tt_ExecutionID ev"
    by (auto simp: has_row_def rows_def board_def)
  have "(tt_TaskID ev, False) \<in># marks (abs_sys svc s)" by (simp add: marks_def coord_marks_def c)
  moreover have "tt_TaskID ev \<notin># pending (sys_workers s)"
  proof
    assume "tt_TaskID ev \<in># pending (sys_workers s)"
    moreover have "pending (sys_workers s) \<subseteq># slots worker_tokens (sys_workers s)"
      unfolding pending_def using slots_mono [of "\<lambda>i. i" worker_pending worker_tokens, OF pending_mset] by simp
    ultimately have held: "tt_TaskID ev \<in># slots worker_tokens (sys_workers s)" by (auto dest: mset_subset_eqD)
    have "places (abs_sys svc s) = slots worker_tokens (sys_workers s) + (queued (board svc (sys_world s)) +
        announced (board svc (sys_world s)) + coord_places (abs_sys svc s) + slots request_tokens (sys_requests s))"
      by (simp add: places_def)
    from places_once [OF tok this held] c show False by (simp add: coord_places_def)
  qed
  ultimately show ?thesis using ok r by (auto simp: status_ok_def row_ok_def)
qed

lemma status_coordinator:
  assumes inv: "sys_inv reg (abs_sys svc s)" and ok: "status_ok svc s"
    and firm: "coord_firm svc (sys_coord s) (sys_world s) c w"
  shows "status_ok svc (s\<lparr>sys_world := w, sys_coord := c, sys_handled := sys_handled s @ handled_event (sys_coord s)\<rparr>)"
    (is "status_ok svc ?t")
proof -
  let ?U = "written_children svc (sys_coord s) (sys_world s)"
  have tok: "inv_tokens (abs_sys svc s)" using inv by (simp add: sys_inv_def)
  have free: "(i, b) \<notin># marks (abs_sys svc s)" if "i \<in> ?U" for i b
    using unmarked_waiting [OF tok, of i] children_wait [OF inv that] by simp
  show ?thesis
  proof (rule status_frame [OF ok _ _ _ _ free])
    show "marks (abs_sys svc ?t) = marks (abs_sys svc s)"
      using accounts_coordinator [OF inv firm] by (simp add: accounts_def)
    show "failed_execs (sys_world ?t) = failed_execs (sys_world s)" using coord_failed_execs [OF firm] by simp
    show "rows_frame ?U (sys_world s) (sys_world ?t)" using coordinator_frame [OF firm] by simp
    fix r' assume r': "r' \<in> set (task_rows (sys_world ?t))" "ID r' \<in> ?U"
    from coordinator_row [OF firm, of r'] r' obtain r where r: "r \<in> set (task_rows (sys_world s))" "ID r' = ID r" and
      r'_def: "r' = r \<or> r' = decremented r \<or> (\<exists>ev. sys_coord s = C_taint ev \<and> coord_children svc (C_taint ev) r \<and> r' = tainted r)"
      by auto
    have old: "row_ok (marks (abs_sys svc s)) (pending (sys_workers s)) (failed_execs (sys_world s)) r"
      using ok r(1) by (simp add: status_ok_def)
    from r'_def show "row_ok (marks (abs_sys svc s)) (pending (sys_workers s)) (failed_execs (sys_world s)) r'"
    proof (elim disjE conjE exE)
      assume "r' = decremented r"
      with old free [of "ID r"] r'(2) r(2) show ?thesis by (auto simp: row_ok_def decremented_def split: if_splits)
    next
      fix ev assume "r' = tainted r" "sys_coord s = C_taint ev" "coord_children svc (C_taint ev) r"
      with old free [of "ID r"] r'(2) r(2) terminated_failed [OF inv ok] show ?thesis
        by (auto simp: row_ok_def tainted_def decremented_def children_def split: if_splits)
    qed (use old in simp)
  qed simp
qed

lemma status_request:
  assumes inv: "sys_inv reg (abs_sys svc s)" and ok: "status_ok svc s" and k: "k < length (sys_requests s)"
    and firm: "request_firm svc (sys_requests s ! k) (sys_world s) q w"
  shows "status_ok svc (s\<lparr>sys_world := w, sys_requests := (sys_requests s)[k := q]\<rparr>)" (is "status_ok svc ?t")
proof -
  have acc: "accounts [] s ?t" using accounts_request [OF inv k firm] .
  have tok: "inv_tokens (abs_sys svc s)" using inv by (simp add: sys_inv_def)
  show ?thesis
  proof (cases "\<exists>e ts. sys_requests s ! k = R_create e ts \<and> execution_fresh e ts (sys_world s) \<and>
      execution_created e ts (sys_world s) w")
    case True
    then obtain e ts where e: "sys_requests s ! k = R_create e ts"
      and new: "execution_fresh e ts (sys_world s)" "execution_created e ts (sys_world s) w" by blast
    have sane: "sane_submission reg e ts"
      using inv nth_mem [OF k] e by (auto simp: sys_inv_def inv_requests_def)
    have free: "(i, b) \<notin># marks (abs_sys svc s)" if "i \<in> request_ids (sys_requests s ! k)" for i b
      using marked_stored [OF tok, of i b] that new(1) e
      by (auto simp: execution_fresh_def task_ids_def board_def comp_def)
    have unpending: "i \<notin># pending (sys_workers s)" if "i \<in> request_ids (sys_requests s ! k)" for i
    proof
      assume "i \<in># pending (sys_workers s)"
      moreover have "pending (sys_workers s) \<subseteq># slots worker_tokens (sys_workers s)"
        unfolding pending_def using slots_mono [of "\<lambda>i. i" worker_pending worker_tokens, OF pending_mset] by simp
      ultimately have "i \<in># places (abs_sys svc s)" by (auto simp: places_def dest: mset_subset_eqD)
      with tok have "i \<in># task_ids (board svc (sys_world s))" by (auto simp: inv_tokens_def dest: mset_subset_eqD)
      with that new(1) e show False by (auto simp: execution_fresh_def task_ids_def board_def comp_def)
    qed
    show ?thesis
    proof (rule status_frame [OF ok _ _ _ _ free])
      show "marks (abs_sys svc ?t) = marks (abs_sys svc s)" using acc by (simp add: accounts_def)
      show "failed_execs (sys_world ?t) = failed_execs (sys_world s)"
        using new(2) sane by (auto simp: failed_execs_def execution_created_def sane_submission_def stamp_execution_def)
      show "rows_frame (request_ids (sys_requests s ! k)) (sys_world s) (sys_world ?t)"
        using request_frame [OF firm] by simp
      fix r assume r: "r \<in> set (task_rows (sys_world ?t))" "ID r \<in> request_ids (sys_requests s ! k)"
      then have "r \<notin> set (task_rows (sys_world s))" using new(1) e by (auto simp: execution_fresh_def)
      with r(1) new(2) obtain t now where t: "t \<in> set ts" "r = stamp_task now (task_column_defaults t)"
        by (auto simp: execution_created_def)
      then have "Status r \<noteq> StatusFailed" "\<not> SkipHint r"
        using sane by (auto simp: sane_submission_def stamp_task_def task_column_defaults_def)
      with free [OF r(2)] unpending [OF r(2)]
      show "row_ok (marks (abs_sys svc s)) (pending (sys_workers s)) (failed_execs (sys_world s)) r"
        by (simp add: row_ok_def)
    qed simp
  next
    case False
    then have "task_rows w = task_rows (sys_world s) \<and> exec_rows w = exec_rows (sys_world s)"
      using firm
      by (cases "(svc, sys_requests s ! k, sys_world s, q, w)" rule: request_firm.cases)
        (auto simp: unwritten_def queue_written_def)
    then show ?thesis by (intro status_same [OF ok acc]) (simp_all add: failed_execs_def)
  qed
qed

end

end
