(* ===== verification/System_Healthy.thy ===== *)
theory System_Healthy
  imports System_Status
begin

text \<open>
  What holds in every state of a run in which no call fails: the copies of the workers are up to
  date, no task is lost, the statuses agree with the marks, and an execution all of whose tasks
  have completed is COMPLETED or about to be.
\<close>

section \<open>The copies stay up to date\<close>

lemma worker_tokens_stored:
  assumes "inv_tokens (abs_sys svc s)" and "pc \<in> set (sys_workers s)" and "i \<in> set (worker_tokens pc)"
  shows "i \<in> ID ` set (task_rows (sys_world s))"
proof -
  obtain k where k: "k < length (sys_workers s)" "sys_workers s ! k = pc" using assms(2) by (auto simp: in_set_conv_nth)
  have "i \<in># places (abs_sys svc s)" using k assms(3) by (simp add: places_def slots_split [OF k(1)])
  with assms(1) have "i \<in># task_ids (board svc (sys_world s))" by (auto simp: inv_tokens_def dest: mset_subset_eqD)
  then show ?thesis by (auto simp: task_ids_def board_def)
qed

lemma ready_frameI:
  assumes "ready s" and "rows_frame U (sys_world s) (sys_world t)" and "sys_workers t = sys_workers s"
    and "\<And>pc. pc \<in> set (sys_workers s) \<Longrightarrow> set (worker_tokens pc) \<inter> U = {}"
    and "\<And>r. r \<in> set (task_rows (sys_world t)) \<Longrightarrow> printable (RefID r)"
    and "printable_requests (sys_requests t)"
  shows "ready t"
  using ready_workers [OF assms(1,2,4)] assms(3,5,6) by (simp add: ready_def)

text \<open>The fields of the rows that no step writes.\<close>

definition row_key :: "Task \<Rightarrow> uuid \<times> uuid \<times> string" where
  "row_key r = (ID r, ExecutionID r, RefID r)"

definition row_keys :: "'h world \<Rightarrow> (uuid \<times> uuid \<times> string) list" where
  "row_keys w = map row_key (task_rows w)"

lemma row_key_updates [simp]:
  "row_key (claimed name v r) = row_key r" "row_key (retried v r) = row_key r" "row_key (completed out r) = row_key r"
  "row_key (failed_row msg out r) = row_key r" "row_key (skipped_row out r) = row_key r"
  "row_key (decremented r) = row_key r" "row_key (tainted r) = row_key r"
  "row_key (r\<lparr>UpdatedAt := ts\<rparr>) = row_key r" "row_key (stamp_task now (task_column_defaults r)) = row_key r"
  by (simp_all add: row_key_def claimed_def retried_def completed_def failed_row_def skipped_row_def decremented_def
      tainted_def stamp_task_def task_column_defaults_def)

lemma row_keys_written:
  assumes "\<And>r. row_key (f r) = row_key r"
  shows "tasks_written P f w w' \<Longrightarrow> row_keys w' = row_keys w"
    and "tasks_rewritten P f w w' \<Longrightarrow> row_keys w' = row_keys w"
  by (auto simp: row_keys_def tasks_written_def tasks_rewritten_def assms intro!: map_update_where)

lemmas row_keys_writes [simp] = row_keys_written [of "claimed _ _", OF row_key_updates(1)]
  row_keys_written [of "retried _", OF row_key_updates(2)] row_keys_written [of "completed _", OF row_key_updates(3)]
  row_keys_written [of "failed_row _ _", OF row_key_updates(4)] row_keys_written [of "skipped_row _", OF row_key_updates(5)]
  row_keys_written [of decremented, OF row_key_updates(6)] row_keys_written [of tainted, OF row_key_updates(7)]

lemma row_keys_same: "task_rows w' = task_rows w \<Longrightarrow> row_keys w' = row_keys w"
  by (simp add: row_keys_def)

lemma worker_keys:
  "worker_firm svc key pc w pc' w' \<Longrightarrow> row_keys w' = row_keys w"
  by (cases pc) (auto intro: row_keys_same simp: unwritten_def
      queue_written_def inbox_appended_def execs_written_def split: list.splits)

lemma coordinator_keys:
  assumes "coord_firm svc c w c' w'"
  shows "row_keys w' = row_keys w"
proof (cases c)
  case (C_queue ids n)
  with assms show ?thesis by (cases ids) (auto simp: row_keys_def unwritten_def queue_written_def)
next
  case (C_skip_queue ids n ty)
  with assms show ?thesis by (cases ids) (auto simp: row_keys_def unwritten_def queue_written_def)
next
  case (C_decrement ev)
  with assms show ?thesis by (auto simp: Let_def)
next
  case (C_taint ev)
  with assms show ?thesis by (auto simp: Let_def)
qed (use assms in \<open>auto simp: row_keys_def unwritten_def execs_written_def\<close>)

lemma request_keys:
  assumes "request_firm svc q w q' w'"
  shows "row_keys w' = row_keys w \<and> exec_rows w' = exec_rows w \<or>
    (\<exists>e ts. q = R_create e ts \<and> execution_fresh e ts w \<and> execution_created e ts w w' \<and>
       row_keys w' = row_keys w @ map row_key ts)"
proof (cases q)
  case (R_create e ts)
  with assms show ?thesis
    by (auto simp: unwritten_def row_keys_def execution_created_def)
next
  case (R_push e ts)
  with assms show ?thesis by (cases ts) (auto simp: row_keys_def unwritten_def queue_written_def)
qed (use assms in \<open>auto simp: row_keys_def unwritten_def\<close>)

lemma key_name: "r \<in> set (task_rows w) \<Longrightarrow> (ID r, ExecutionID r, RefID r) \<in> set (row_keys w)"
  by (simp add: row_keys_def row_key_def [symmetric])

lemma ready_names: "ready s \<Longrightarrow> (i, ex, p) \<in> set (row_keys (sys_world s)) \<Longrightarrow> printable p"
  by (auto simp: ready_def row_keys_def row_key_def)

context lawful_services
begin

lemma ready_worker:
  assumes tok: "inv_tokens (abs_sys svc s)" and rdy: "ready s" and k: "k < length (sys_workers s)"
    and firm: "worker_firm svc (queue_of k) (sys_workers s ! k) (sys_world s) pc w"
    and t: "t = s\<lparr>sys_world := w, sys_workers := (sys_workers s)[k := pc], sys_succeeded := us\<rparr>"
    and tok': "inv_tokens (abs_sys svc t)"
  shows "ready t"
proof -
  let ?pc = "sys_workers s ! k"
  have "worker_ready w pc'" if "pc' \<in> set ((sys_workers s)[k := pc])" for pc'
  proof -
    from that obtain j where j: "j < length (sys_workers s)" "pc' = (sys_workers s)[k := pc] ! j"
      by (auto simp: in_set_conv_nth)
    show ?thesis
    proof (cases "j = k")
      case True
      have "worker_ready (sys_world s) ?pc" using rdy k by (simp add: ready_def)
      moreover have "set (worker_tokens pc) \<subseteq> ID ` set (task_rows w)"
        using worker_tokens_stored [OF tok', of pc] k by (auto simp: t set_update_memI)
      ultimately show ?thesis using worker_ready_next [OF firm] j True k by simp
    next
      case False
      with j have pc': "pc' = sys_workers s ! j" by simp
      have "set (worker_tokens pc') \<inter> set (worker_tokens ?pc) = {}"
        using held_once [OF tok, of j k] j(1) k False pc' by auto
      with rdy j(1) pc' ready_frame [OF _ worker_frame [OF firm]] show ?thesis by (simp add: ready_def)
    qed
  qed
  moreover have "printable (RefID r)" if "r \<in> set (task_rows w)" for r
    using key_name [OF that] worker_keys [OF firm] ready_names [OF rdy] by auto
  ultimately show ?thesis using rdy by (simp add: ready_def t)
qed

lemma ready_coordinator:
  assumes inv: "sys_inv reg (abs_sys svc s)" and rdy: "ready s"
    and firm: "coord_firm svc (sys_coord s) (sys_world s) c w"
  shows "ready (s\<lparr>sys_world := w, sys_coord := c, sys_handled := hs\<rparr>)"
proof (rule ready_frameI [OF rdy])
  have tok: "inv_tokens (abs_sys svc s)" using inv by (simp add: sys_inv_def)
  show "rows_frame (written_children svc (sys_coord s) (sys_world s)) (sys_world s)
      (sys_world (s\<lparr>sys_world := w, sys_coord := c, sys_handled := hs\<rparr>))" using coordinator_frame [OF firm] by simp
  fix pc assume "pc \<in> set (sys_workers s)"
  then obtain k where k: "k < length (sys_workers s)" "sys_workers s ! k = pc" by (auto simp: in_set_conv_nth)
  show "set (worker_tokens pc) \<inter> written_children svc (sys_coord s) (sys_world s) = {}"
    using held_not_waiting [OF tok, of k] k children_wait [OF inv] by auto
next
  fix r assume "r \<in> set (task_rows (sys_world (s\<lparr>sys_world := w, sys_coord := c, sys_handled := hs\<rparr>)))"
  then show "printable (RefID r)"
    using key_name [of r w] coordinator_keys [OF firm] ready_names [OF rdy] by auto
qed (use rdy in \<open>simp_all add: ready_def\<close>)

lemma ready_request:
  assumes tok: "inv_tokens (abs_sys svc s)" and rdy: "ready s" and k: "k < length (sys_requests s)"
    and firm: "request_firm svc (sys_requests s ! k) (sys_world s) q w"
    and "printable_requests ((sys_requests s)[k := q])"
  shows "ready (s\<lparr>sys_world := w, sys_requests := (sys_requests s)[k := q]\<rparr>)"
proof -
  define U where "U = (if task_rows w = task_rows (sys_world s) then {} else request_ids (sys_requests s ! k))"
  show ?thesis
  proof (rule ready_frameI [OF rdy, where U = U])
    show "rows_frame U (sys_world s) (sys_world (s\<lparr>sys_world := w, sys_requests := (sys_requests s)[k := q]\<rparr>))"
      using request_frame [OF firm] by (simp add: U_def rows_frame_same)
    fix pc assume pc: "pc \<in> set (sys_workers s)"
    show "set (worker_tokens pc) \<inter> U = {}"
    proof (cases "sys_requests s ! k")
      case (R_create e ts)
      with firm have "task_rows w = task_rows (sys_world s) \<or> ID ` set ts \<inter> ID ` set (task_rows (sys_world s)) = {}"
        by (auto simp: unwritten_def execution_fresh_def)
      with worker_tokens_stored [OF tok pc] R_create show ?thesis by (auto simp: U_def)
    qed (simp_all add: U_def)
  next
    fix r assume "r \<in> set (task_rows (sys_world (s\<lparr>sys_world := w, sys_requests := (sys_requests s)[k := q]\<rparr>)))"
    moreover have "printable_requests (sys_requests s)" using rdy by (simp add: ready_def)
    then have "printable (RefID t)" if "sys_requests s ! k = R_create e ts" "t \<in> set ts" for e ts t
      using nth_mem [OF k] that by (auto simp: printable_requests_def)
    ultimately show "printable (RefID r)"
      using request_keys [OF firm] key_name [of r w] ready_names [OF rdy] by (auto simp: row_key_def)
  qed (use assms(5) in simp_all)
qed

lemma ready_step:
  assumes "firm_step svc s t" and inv: "sys_inv reg (abs_sys svc s)" and tok': "inv_tokens (abs_sys svc t)"
    and rdy: "ready s" and "printable_requests (sys_requests t)"
  shows "ready t"
proof -
  have tok: "inv_tokens (abs_sys svc s)" using inv by (simp add: sys_inv_def)
  have same: "ready t" if "task_rows (sys_world t) = task_rows (sys_world s)" "sys_workers t = sys_workers s"
    using ready_frameI [OF rdy rows_frame_same [OF that(1)] that(2), of "{}"] that(1) rdy assms(5)
    by (simp add: ready_def)
  from assms(1) show ?thesis
  proof cases
    case (worker k pc w)
    with ready_worker [OF tok rdy worker(2,3) worker(1) tok'] show ?thesis by simp
  next
    case (coordinator c w)
    with ready_coordinator [OF inv rdy] show ?thesis by simp
  next
    case (request k q w)
    with ready_request [OF tok rdy] assms(5) show ?thesis by simp
  next
    case (receive_completed x w)
    then show ?thesis by (intro same) (auto simp: unwritten_def inbox_taken_def split: list.splits)
  next
    case (receive_terminated x w)
    then show ?thesis by (intro same) (auto simp: unwritten_def inbox_taken_def split: list.splits)
  qed (intro same; simp add: unwritten_def)+
qed

section \<open>The statuses stay in step\<close>

lemma status_step:
  assumes "firm_step svc s t" and inv: "sys_inv reg (abs_sys svc s)" and ok: "status_ok svc s" and rdy: "ready s"
  shows "status_ok svc t"
  using assms(1)
proof cases
  case (worker k pc w)
  with status_worker [OF inv ok rdy] show ?thesis by simp
next
  case (coordinator c w)
  with status_coordinator [OF inv ok] show ?thesis by simp
next
  case (request k q w)
  with status_request [OF inv ok] show ?thesis by simp
next
  case (receive_completed x w)
  with accounts_receive [OF receive_completed(2,3)] show ?thesis
    by (intro status_same [OF ok]) (auto simp: unwritten_def inbox_taken_def failed_execs_def split: list.splits)
next
  case (receive_terminated x w)
  with accounts_receive_terminated [OF receive_terminated(2,3)] show ?thesis
    by (intro status_same [OF ok]) (auto simp: unwritten_def inbox_taken_def failed_execs_def split: list.splits)
next
  case (take_completed ev w)
  with accounts_other(1) [OF take_completed(2-4)] show ?thesis
    by (intro status_same [OF ok]) (simp_all add: unwritten_def failed_execs_def)
next
  case (take_terminated ev w)
  with accounts_other(2) [OF take_terminated(2-4)] show ?thesis
    by (intro status_same [OF ok]) (simp_all add: unwritten_def failed_execs_def)
next
  case (arrive e ts)
  with accounts_other(3) show ?thesis by (intro status_same [OF ok]) simp_all
next
  case (collector w)
  with accounts_other(4) show ?thesis by (intro status_same [OF ok]) (simp_all add: unwritten_def failed_execs_def)
qed

end

section \<open>Executions that are through\<close>

definition all_handled :: "'h sys \<Rightarrow> uuid \<Rightarrow> bool" where
  "all_handled s ex \<longleftrightarrow> (\<forall>i p. (i, ex, p) \<in> set (row_keys (sys_world s)) \<longrightarrow> (i, True) \<in> set (sys_handled s))"

definition has_tasks :: "'h sys \<Rightarrow> uuid \<Rightarrow> bool" where
  "has_tasks s ex \<longleftrightarrow> (\<exists>i p. (i, ex, p) \<in> set (row_keys (sys_world s)))"

definition exec_completed :: "'h world \<Rightarrow> uuid \<Rightarrow> bool" where
  "exec_completed w ex \<longleftrightarrow> (\<forall>e \<in> set (exec_rows w). we_ID e = ex \<longrightarrow> we_Status e = WorkflowCompleted)"

definition finishing :: "coord_pc \<Rightarrow> uuid \<Rightarrow> bool" where
  "finishing c ex \<longleftrightarrow> c = C_check ex \<or> c = C_finish ex"

definition finishes_ok :: "'h sys \<Rightarrow> bool" where
  "finishes_ok s \<longleftrightarrow> (\<forall>ex. has_tasks s ex \<and> all_handled s ex \<longrightarrow>
     exec_completed (sys_world s) ex \<or> finishing (sys_coord s) ex)"

lemma finishes_frame:
  assumes "finishes_ok s" and "row_keys (sys_world t) = row_keys (sys_world s)"
    and "\<And>i. (i, True) \<in> set (sys_handled t) \<Longrightarrow> (i, True) \<in> set (sys_handled s)"
    and "\<And>ex. finishing (sys_coord s) ex \<Longrightarrow> finishing (sys_coord t) ex"
    and "\<And>ex. has_tasks s ex \<Longrightarrow> all_handled s ex \<Longrightarrow> exec_completed (sys_world s) ex \<Longrightarrow> exec_completed (sys_world t) ex"
  shows "finishes_ok t"
  unfolding finishes_ok_def
proof (intro allI impI, elim conjE)
  fix ex assume "has_tasks t ex" "all_handled t ex"
  then have "has_tasks s ex" "all_handled s ex" using assms(2,3) by (auto simp: has_tasks_def all_handled_def)
  with assms(1,4,5) show "exec_completed (sys_world t) ex \<or> finishing (sys_coord t) ex"
    unfolding finishes_ok_def by blast
qed

lemma exec_completed_same: "exec_rows w' = exec_rows w \<Longrightarrow> exec_completed w' ex = exec_completed w ex"
  by (simp add: exec_completed_def)

context lawful_services
begin

lemma handled_marked: "(i, b) \<in> set (sys_handled s) \<Longrightarrow> (i, b) \<in># marks (abs_sys svc s)"
  by (simp add: marks_def coord_marks_def)

lemma finishes_worker:
  assumes inv: "sys_inv reg (abs_sys svc s)" and ok: "finishes_ok s" and k: "k < length (sys_workers s)"
    and firm: "worker_firm svc (queue_of k) (sys_workers s ! k) (sys_world s) pc w"
  shows "finishes_ok (s\<lparr>sys_world := w, sys_workers := (sys_workers s)[k := pc], sys_succeeded := us\<rparr>)"
proof (rule finishes_frame [OF ok])
  let ?pc = "sys_workers s ! k"
  fix ex assume all: "has_tasks s ex" "all_handled s ex" and old: "exec_completed (sys_world s) ex"
  have tok: "inv_tokens (abs_sys svc s)" using inv by (simp add: sys_inv_def)
  have "exec_completed w ex"
  proof (cases ?pc)
    case (W_fail_execution t err)
    have "ExecutionID t \<noteq> ex"
    proof
      assume ex: "ExecutionID t = ex"
      have "worker_ok (abs_sys svc s) ?pc" using inv k by (auto simp: sys_inv_def inv_workers_def)
      then have "ident (info t) \<in> ident ` info ` set (task_rows (sys_world s))"
        using W_fail_execution unfolding worker_ok_def rows_def by (simp add: board_def)
      then obtain r where r: "r \<in> set (task_rows (sys_world s))" "ident (info r) = ident (info t)" by auto
      have "ID r = ID t" "ExecutionID r = ex"
        using arg_cong [OF r(2), of i_ID] arg_cong [OF r(2), of i_Exec] ex by simp_all
      with key_name [OF r(1)] all(2) have "(ID t, True) \<in># marks (abs_sys svc s)"
        by (auto simp: all_handled_def intro: handled_marked)
      moreover have "(ID t, False) \<in># marks (abs_sys svc s)"
        using W_fail_execution by (simp add: marks_def slots_split [OF k])
      ultimately show False using marked_once [OF tok] by blast
    qed
    with W_fail_execution firm old show ?thesis
      by (auto simp: exec_completed_def execs_written_def set_update_where status_writable_def split: if_splits)
  qed (use firm old in \<open>auto simp: exec_completed_def unwritten_def queue_written_def inbox_appended_def
      tasks_written_def split: list.splits\<close>)
  then show "exec_completed (sys_world (s\<lparr>sys_world := w, sys_workers := (sys_workers s)[k := pc], sys_succeeded := us\<rparr>)) ex"
    by simp
qed (use worker_keys [OF firm] in simp_all)

lemma finishes_coordinator:
  assumes inv: "sys_inv reg (abs_sys svc s)" and ok: "finishes_ok s" and status: "status_ok svc s"
    and firm: "coord_firm svc (sys_coord s) (sys_world s) c w"
  shows "finishes_ok (s\<lparr>sys_world := w, sys_coord := c, sys_handled := sys_handled s @ handled_event (sys_coord s)\<rparr>)"
    (is "finishes_ok ?t")
  unfolding finishes_ok_def
proof (intro allI impI, elim conjE)
  fix ex assume "has_tasks ?t ex" "all_handled ?t ex"
  then have has: "has_tasks s ex"
    and all: "\<And>i p. (i, ex, p) \<in> set (row_keys (sys_world s)) \<Longrightarrow>
      (i, True) \<in> set (sys_handled s) \<union> set (handled_event (sys_coord s))"
    using coordinator_keys [OF firm] by (auto simp: has_tasks_def all_handled_def)
  have tok: "inv_tokens (abs_sys svc s)" using inv by (simp add: sys_inv_def)
  have marked: "(ID r, True) \<in># marks (abs_sys svc s)" if "r \<in> set (task_rows (sys_world s))" "ExecutionID r = ex" for r
    using all [of "ID r" "RefID r"] key_name [OF that(1)] that(2) by (auto simp: marks_def coord_marks_def)
  have completed: "Status r = StatusCompleted" if "r \<in> set (task_rows (sys_world s))" "ExecutionID r = ex" for r
    using marked [OF that] status that(1) by (simp add: status_ok_def row_ok_def)
  have not_failed: "ex \<notin> failed_execs (sys_world s)"
    using completed status by (fastforce simp: status_ok_def failed_has_task_def)
  have same: "exec_completed w ex \<or> finishing c ex" if "all_handled s ex" "exec_rows w = exec_rows (sys_world s)"
    "\<not> finishing (sys_coord s) ex"
    using ok has that exec_completed_same [OF that(2)] by (auto simp: finishes_ok_def)
  have "exec_completed w ex \<or> finishing c ex"
  proof (cases "sys_coord s")
    case (C_decrement ev)
    let ?P = "children (depends_on svc) (tc_ExecutionID ev) (tc_RefID ev)"
    show ?thesis
    proof (cases "tc_ExecutionID ev = ex")
      case True
      have "\<not> (r \<in> set (task_rows (sys_world s)) \<and> ?P r \<and> InDegree r = 1)" for r
      proof
        assume r: "r \<in> set (task_rows (sys_world s)) \<and> ?P r \<and> InDegree r = 1"
        then have "ID r \<in># waiting (b_tasks (a_board (abs_sys svc s)))"
          by (auto simp: waiting_def board_def intro!: image_eqI [of _ _ "info r"])
        with unmarked_waiting [OF tok] marked [of r] r True show False by (auto simp: children_def)
      qed
      then have "released_ids ?P (sys_world s) = []" by (auto simp: released_ids_def filter_empty_conv)
      with firm C_decrement True show ?thesis by (auto simp: finishing_def Let_def)
    next
      case False
      have "all_handled s ex"
        unfolding all_handled_def
      proof (intro allI impI)
        fix i p assume i: "(i, ex, p) \<in> set (row_keys (sys_world s))"
        have "i \<noteq> tc_TaskID ev"
        proof
          assume eq: "i = tc_TaskID ev"
          have "has_row (b_tasks (board svc (sys_world s))) (tc_TaskID ev) (tc_ExecutionID ev) (tc_RefID ev)"
            using inv C_decrement by (simp add: sys_inv_def inv_events_def completed_events_def)
          moreover have "has_row (b_tasks (board svc (sys_world s))) i ex p"
            using i by (auto simp: has_row_def rows_def board_def row_keys_def row_key_def)
          moreover have "distinct (map i_ID (b_tasks (board svc (sys_world s))))" using tok by (simp add: inv_tokens_def)
          ultimately show False using has_row_name eq False by blast
        qed
        with all [OF i] C_decrement show "(i, True) \<in> set (sys_handled s)" by auto
      qed
      with firm C_decrement show ?thesis by (intro same) (auto simp: finishing_def Let_def tasks_rewritten_def)
    qed
  next
    case (C_taint ev)
    with all have "all_handled s ex" by (auto simp: all_handled_def)
    with firm C_taint show ?thesis by (intro same) (auto simp: finishing_def Let_def tasks_rewritten_def)
  next
    case (C_check ex')
    from firm C_check have c: "c = (if all_completed (sys_world s) ex' then C_finish ex' else C_idle)"
      "exec_rows w = exec_rows (sys_world s)" by (simp_all add: unwritten_def)
    from all C_check have "all_handled s ex" by (simp add: all_handled_def)
    show ?thesis
    proof (cases "ex' = ex")
      case True
      then have "all_completed (sys_world s) ex'" using completed by (simp add: all_completed_def)
      with c True show ?thesis by (simp add: finishing_def)
    next
      case False
      with c \<open>all_handled s ex\<close> C_check show ?thesis by (intro same) (simp_all add: finishing_def)
    qed
  next
    case (C_finish ex')
    from firm C_finish obtain ts where rows: "exec_rows w = update_where (status_writable ex' WorkflowCompleted)
        (\<lambda>e. (e\<lparr>we_Status := WorkflowCompleted\<rparr>)\<lparr>we_UpdatedAt := ts\<rparr>) (exec_rows (sys_world s))"
      by (auto simp: execs_written_def)
    from all C_finish have "all_handled s ex" by (simp add: all_handled_def)
    show ?thesis
    proof (cases "ex' = ex")
      case True
      have "exec_completed w ex"
        unfolding exec_completed_def
      proof (intro ballI impI)
        fix e' assume e': "e' \<in> set (exec_rows w)" "we_ID e' = ex"
        from e'(1) obtain e where e: "e \<in> set (exec_rows (sys_world s))" "e' = (if status_writable ex' WorkflowCompleted e
            then (e\<lparr>we_Status := WorkflowCompleted\<rparr>)\<lparr>we_UpdatedAt := ts\<rparr> else e)"
          unfolding rows set_update_where by blast
        then have "we_ID e = ex" using e'(2) by (simp split: if_splits)
        with e(1) not_failed have "we_Status e \<noteq> WorkflowFailed" by (auto simp: failed_execs_def)
        with e(2) \<open>we_ID e = ex\<close> True show "we_Status e' = WorkflowCompleted"
          by (simp add: status_writable_def split: if_splits)
      qed
      then show ?thesis ..
    next
      case False
      with ok has \<open>all_handled s ex\<close> C_finish have "exec_completed (sys_world s) ex"
        by (auto simp: finishes_ok_def finishing_def)
      then have "exec_completed w ex"
        unfolding exec_completed_def
      proof (intro ballI impI)
        fix e' assume old: "\<forall>e \<in> set (exec_rows (sys_world s)). we_ID e = ex \<longrightarrow> we_Status e = WorkflowCompleted"
          and e': "e' \<in> set (exec_rows w)" "we_ID e' = ex"
        from e'(1) obtain e where e: "e \<in> set (exec_rows (sys_world s))" "e' = (if status_writable ex' WorkflowCompleted e
            then (e\<lparr>we_Status := WorkflowCompleted\<rparr>)\<lparr>we_UpdatedAt := ts\<rparr> else e)"
          unfolding rows set_update_where by blast
        then have "we_ID e = ex" using e'(2) by (simp split: if_splits)
        with old e(1) have "we_Status e = WorkflowCompleted" by blast
        with e(2) show "we_Status e' = WorkflowCompleted" by simp
      qed
      then show ?thesis ..
    qed
  next
    case (C_queue ids n)
    with all have "all_handled s ex" by (simp add: all_handled_def)
    moreover have "exec_rows w = exec_rows (sys_world s)"
      using firm C_queue by (cases ids) (simp_all add: unwritten_def queue_written_def)
    ultimately show ?thesis using C_queue by (intro same) (simp_all add: finishing_def)
  next
    case (C_skip_queue ids n ty)
    with all have "all_handled s ex" by (simp add: all_handled_def)
    moreover have "exec_rows w = exec_rows (sys_world s)"
      using firm C_skip_queue by (cases ids) (simp_all add: unwritten_def queue_written_def)
    ultimately show ?thesis using C_skip_queue by (intro same) (simp_all add: finishing_def)
  next
    case C_idle
    with all have "all_handled s ex" by (simp add: all_handled_def)
    with firm C_idle show ?thesis by (intro same) (simp_all add: finishing_def unwritten_def)
  qed
  then show "exec_completed (sys_world ?t) ex \<or> finishing (sys_coord ?t) ex" by simp
qed

lemma finishes_request:
  assumes inv: "sys_inv reg (abs_sys svc s)" and ok: "finishes_ok s" and k: "k < length (sys_requests s)"
    and firm: "request_firm svc (sys_requests s ! k) (sys_world s) q w"
  shows "finishes_ok (s\<lparr>sys_world := w, sys_requests := (sys_requests s)[k := q]\<rparr>)" (is "finishes_ok ?t")
  using request_keys [OF firm]
proof (elim disjE exE conjE)
  assume "row_keys w = row_keys (sys_world s)" "exec_rows w = exec_rows (sys_world s)"
  with ok show ?thesis by (elim finishes_frame) (simp_all add: exec_completed_def)
next
  fix e ts assume q: "sys_requests s ! k = R_create e ts" "execution_fresh e ts (sys_world s)"
    "execution_created e ts (sys_world s) w" and keys: "row_keys w = row_keys (sys_world s) @ map row_key ts"
  have tok: "inv_tokens (abs_sys svc s)" using inv by (simp add: sys_inv_def)
  have sane: "sane_submission reg e ts" using inv nth_mem [OF k] q(1) by (auto simp: sys_inv_def inv_requests_def)
  have new: "ex \<noteq> we_ID e \<and> has_tasks s ex \<and> all_handled s ex" if "has_tasks ?t ex" "all_handled ?t ex" for ex
  proof -
    have "row_key t \<noteq> (i, ex, p)" if t: "t \<in> set ts" for t i p
    proof
      assume "row_key t = (i, ex, p)"
      with keys t that \<open>all_handled ?t ex\<close> have "(ID t, True) \<in> set (sys_handled s)"
        by (auto simp: all_handled_def row_key_def)
      then have "(ID t, True) \<in># marks (abs_sys svc s)" by (rule handled_marked)
      from marked_stored [OF tok this] q(2) t show False
        by (auto simp: execution_fresh_def task_ids_def board_def)
    qed
    then have "(i, ex, p) \<notin> row_key ` set ts" for i p by (metis imageE)
    then have has: "has_tasks s ex" "all_handled s ex"
      using that by (simp_all add: has_tasks_def all_handled_def keys)
    from has(1) obtain r where r: "r \<in> set (task_rows (sys_world s))" "ExecutionID r = ex"
      by (auto simp: has_tasks_def row_keys_def row_key_def)
    then have "info r \<in> set (b_tasks (a_board (abs_sys svc s)))" by (simp add: board_def)
    then have "i_Exec (info r) \<in> b_execs (a_board (abs_sys svc s))" using inv unfolding sys_inv_def inv_rows_def by blast
    with r(2) q(2) have "ex \<noteq> we_ID e" by (auto simp: board_def execution_fresh_def)
    with has show ?thesis by blast
  qed
  show ?thesis
    unfolding finishes_ok_def
  proof (intro allI impI, elim conjE)
    fix ex assume t: "has_tasks ?t ex" "all_handled ?t ex"
    from new [OF t] ok have "ex \<noteq> we_ID e" "exec_completed (sys_world s) ex \<or> finishing (sys_coord s) ex"
      by (auto simp: finishes_ok_def)
    then show "exec_completed (sys_world ?t) ex \<or> finishing (sys_coord ?t) ex"
      using q(3) by (auto simp: exec_completed_def execution_created_def stamp_execution_def)
  qed
qed

lemma finishes_step:
  assumes "firm_step svc s t" and inv: "sys_inv reg (abs_sys svc s)" and ok: "finishes_ok s" and status: "status_ok svc s"
  shows "finishes_ok t"
proof -
  have same: "finishes_ok t" if "task_rows (sys_world t) = task_rows (sys_world s)" "exec_rows (sys_world t) = exec_rows (sys_world s)"
      "sys_handled t = sys_handled s" "sys_coord t = sys_coord s \<or> sys_coord s = C_idle"
    using that row_keys_same [OF that(1)] exec_completed_same [OF that(2)]
    by (intro finishes_frame [OF ok]) (auto simp: finishing_def)
  from assms(1) show ?thesis
  proof cases
    case (worker k pc w)
    with finishes_worker [OF inv ok] show ?thesis by simp
  next
    case (coordinator c w)
    with finishes_coordinator [OF inv ok status] show ?thesis by simp
  next
    case (request k q w)
    with finishes_request [OF inv ok] show ?thesis by simp
  next
    case (receive_completed x w)
    then show ?thesis by (intro same) (auto simp: unwritten_def inbox_taken_def split: list.splits)
  next
    case (receive_terminated x w)
    then show ?thesis by (intro same) (auto simp: unwritten_def inbox_taken_def split: list.splits)
  qed (intro same; simp add: unwritten_def)+
qed

end

section \<open>Runs without failures\<close>

definition healthy_state :: "'h services \<Rightarrow> ('h \<Rightarrow> bool) \<Rightarrow> 'h sys \<Rightarrow> bool" where
  "healthy_state svc quiet s \<longleftrightarrow> quiet (hidden (sys_world s)) \<and> ready s \<and> kept (abs_sys svc s) \<and>
     status_ok svc s \<and> finishes_ok s"

context flawless_services
begin

lemma lossless_healthy:
  "lossless svc (main_server svc id1 id2) quiet s \<Longrightarrow> healthy_state svc quiet s"
proof (induction rule: lossless.induct)
  case (start w)
  then show ?case
    by (simp add: healthy_state_def ready_def printable_requests_def kept_def places_def task_ids_def queued_def
        announced_def coord_places_def board_def waiting_def status_ok_def failed_has_task_def failed_execs_def
        finishes_ok_def has_tasks_def row_keys_def empty_world_def sys_init_def List.map_filter_simps)
next
  case (step s t)
  have inv: "sys_inv InitRegistry (abs_sys svc s)" "sys_inv InitRegistry (abs_sys svc t)"
    using reachable_invariant lossless_reachable step(1,2) by (blast intro: reachable.step)+
  then have tok: "inv_tokens (abs_sys svc t)" by (simp add: sys_inv_def)
  from step(4) have old: "ready s" "quiet (hidden (sys_world s))" "kept (abs_sys svc s)" "status_ok svc s" "finishes_ok s"
    by (simp_all add: healthy_state_def)
  from step_through [OF step(2) inv(1) old(1,2)]
  have firm: "firm_step svc s t" and "quiet (hidden (sys_world t))" by simp_all
  with ready_step [OF firm inv(1) tok old(1) step(3)] firm_kept [OF firm inv(1) old(3)]
    status_step [OF firm inv(1) old(4,1)] finishes_step [OF firm inv(1) old(5,4)]
  show ?case by (simp add: healthy_state_def)
qed

end

end
