(* ===== verification/System_Work.thy ===== *)
theory System_Work
  imports System_Healthy
begin

text \<open>
  A measure of the work left: what a queued task still costs, with its retries, on the way to its
  event and through the coordinator. When no call fails, each call of a goroutine that has
  something to do lowers it, and a call of a goroutine that has nothing to do changes nothing.
\<close>

section \<open>The measure\<close>

definition budget :: "Task \<Rightarrow> nat" where
  "budget t = nat (MaxRetries t - RetryCount t)"

text \<open>A waiting row will be queued; each retry brings a task back to the queue.\<close>

definition row_work :: "Task \<Rightarrow> nat" where
  "row_work t = 10 * budget t + (if 0 < InDegree t then 14 else 0)"

definition store_work :: "'h world \<Rightarrow> nat" where
  "store_work w = sum_list (map row_work (task_rows w))"

definition channel_work :: "'h world \<Rightarrow> nat" where
  "channel_work w = 12 * (length (redis_list w main_key) + length (redis_list w retry_key)) +
     6 * (length (inbox w completed_channel) + length (inbox w terminated_channel))"

definition world_work :: "'h world \<Rightarrow> nat" where
  "world_work w = store_work w + channel_work w"

fun worker_work :: "worker_pc \<Rightarrow> nat" where
  "worker_work W_idle = 0"
| "worker_work (W_find i) = 11"
| "worker_work (W_skip t) = 8"
| "worker_work (W_skip_publish t) = 7"
| "worker_work (W_claim t) = 10"
| "worker_work (W_complete t out) = 8"
| "worker_work (W_complete_publish t) = 7"
| "worker_work (W_retry t) = 9"
| "worker_work (W_retry_push t) = 13"
| "worker_work (W_fail t err) = 9"
| "worker_work (W_fail_execution t err) = 8"
| "worker_work (W_fail_publish t err) = 7"
| "worker_work _ = 0"

fun coord_work :: "coord_pc \<Rightarrow> nat" where
  "coord_work C_idle = 0"
| "coord_work (C_decrement ev) = 4"
| "coord_work (C_taint ev) = 4"
| "coord_work (C_queue ids n) = 1 + 13 * length ids"
| "coord_work (C_skip_queue ids n ty) = 1 + 13 * length ids"
| "coord_work (C_check ex) = 2"
| "coord_work (C_finish ex) = 1"

fun request_work :: "request_pc \<Rightarrow> nat" where
  "request_work (R_create e ts) = 2 + sum_list (map (\<lambda>t. 14 + 10 * budget (task_column_defaults t)) ts)"
| "request_work (R_push e ts) = 1 + 13 * length ts"
| "request_work (R_done r) = 0"

definition work :: "'h sys \<Rightarrow> nat" where
  "work s = world_work (sys_world s) + sum_list (map worker_work (sys_workers s)) +
     coord_work (sys_coord s) + (if sys_completed s = None then 0 else 5) + (if sys_terminated s = None then 0 else 5) +
     sum_list (map request_work (sys_requests s))"

section \<open>Rows\<close>

lemma sum_update_where:
  fixes g :: "'a \<Rightarrow> nat"
  assumes "\<And>x. g (f x) \<le> g x"
  shows "sum_list (map g (update_where P f xs)) \<le> sum_list (map g xs)"
    and "x \<in> set xs \<Longrightarrow> P x \<Longrightarrow> g (f x) + c \<le> g x \<Longrightarrow> sum_list (map g (update_where P f xs)) + c \<le> sum_list (map g xs)"
proof -
  show le: "sum_list (map g (update_where P f ys)) \<le> sum_list (map g ys)" for ys
    by (induction ys) (auto intro: add_mono assms)
  show "x \<in> set xs \<Longrightarrow> P x \<Longrightarrow> g (f x) + c \<le> g x \<Longrightarrow> sum_list (map g (update_where P f xs)) + c \<le> sum_list (map g xs)"
  proof (induction xs)
    case (Cons y ys)
    have "g (if P y then f y else y) \<le> g y" using assms by simp
    with Cons le [of ys] show ?case by (cases "x = y") auto
  qed simp
qed

lemma row_work_updates [simp]:
  "row_work (claimed name v r) = row_work r" "row_work (completed out r) = row_work r"
  "row_work (failed_row msg out r) = row_work r" "row_work (skipped_row out r) = row_work r"
  "row_work (r\<lparr>UpdatedAt := ts\<rparr>) = row_work r" "row_work (stamp_task now r) = row_work r"
  by (simp_all add: row_work_def budget_def claimed_def completed_def failed_row_def skipped_row_def stamp_task_def)

lemma row_work_retried:
  "row_work (retried v r) \<le> row_work r" "RetryCount r < MaxRetries r \<Longrightarrow> row_work (retried v r) + 10 \<le> row_work r"
  by (auto simp: row_work_def budget_def retried_def)

lemma store_work_same: "task_rows w' = task_rows w \<Longrightarrow> store_work w' = store_work w"
  by (simp add: store_work_def)

lemma store_work_written:
  "tasks_written P f w w' \<Longrightarrow> (\<And>r. row_work (f r) = row_work r) \<Longrightarrow> store_work w' = store_work w"
  unfolding store_work_def tasks_written_def by (elim conjE exE) (simp add: map_update_where)

lemma store_work_retried:
  assumes "tasks_written P (retried v) w w'" and "r \<in> set (task_rows w)" "P r" "RetryCount r < MaxRetries r"
  shows "store_work w' + 10 \<le> store_work w"
proof -
  obtain ts where rows: "task_rows w' = update_where P (\<lambda>t. (retried v t)\<lparr>UpdatedAt := ts\<rparr>) (task_rows w)"
    using assms(1) by (auto simp: tasks_written_def)
  show ?thesis
    unfolding store_work_def rows
    by (rule sum_update_where(2) [where x = r]) (use assms(2-4) row_work_retried in auto)
qed

text \<open>A decrement takes the released rows out of the waiting ones.\<close>

lemma row_work_lowered:
  "row_work (decremented r) + (if InDegree r = 1 then 14 else 0) = row_work r"
  "row_work (tainted r) + (if InDegree r = 1 then 14 else 0) = row_work r"
  by (auto simp: row_work_def budget_def decremented_def tainted_def)

lemma store_work_released:
  assumes "tasks_rewritten P f w w'" and "f = decremented \<or> f = tainted"
  shows "store_work w' + 14 * length (released_ids P w) = store_work w"
proof -
  have "row_work (f r) + (if InDegree r = 1 then 14 else 0) = row_work r" for r
    using assms(2) row_work_lowered [of r] by (elim disjE) (simp_all only:)
  then have "sum_list (map row_work (update_where P f xs)) + 14 * length (map ID (filter (\<lambda>t. P t \<and> InDegree t = 1) xs)) =
      sum_list (map row_work xs)" for xs
  proof (induction xs)
    case (Cons x xs)
    from Cons.IH [OF Cons.prems] Cons.prems [of x] show ?case by (auto split: if_splits)
  qed simp
  with assms(1) show ?thesis by (simp add: store_work_def released_ids_def tasks_rewritten_def)
qed

text \<open>The two measures together, under each kind of effect.\<close>

lemma world_work_same:
  "unwritten w w' \<Longrightarrow> world_work w' = world_work w"
  "execs_written Q g w w' \<Longrightarrow> world_work w' = world_work w"
  by (simp_all add: world_work_def store_work_def channel_work_def unwritten_def execs_written_def)

lemma world_work_written:
  assumes "tasks_written P f w w'" and "\<And>r. row_work (f r) = row_work r"
  shows "world_work w' = world_work w"
  using store_work_written [OF assms] assms(1) by (simp add: world_work_def channel_work_def tasks_written_def)

lemma world_work_retried:
  assumes "tasks_written P (retried v) w w'" and "r \<in> set (task_rows w)" "P r" "RetryCount r < MaxRetries r"
  shows "world_work w' + 10 \<le> world_work w"
  using store_work_retried [OF assms] assms(1) by (simp add: world_work_def channel_work_def tasks_written_def)

lemma world_work_released:
  assumes "tasks_rewritten P f w w'" and "f = decremented \<or> f = tainted"
  shows "world_work w' + 14 * length (released_ids P w) = world_work w"
  using store_work_released [OF assms] assms(1) by (simp add: world_work_def channel_work_def tasks_rewritten_def)

lemma world_work_pushed:
  "queue_written ((redis_list w)(key := redis_list w key @ [x])) w w' \<Longrightarrow> key = main_key \<or> key = retry_key \<Longrightarrow>
     world_work w' = world_work w + 12"
  by (auto simp: queue_written_def world_work_def store_work_def channel_work_def main_key_def retry_key_def)

lemma world_work_popped:
  "queue_written ((redis_list w)(key := xs)) w w' \<Longrightarrow> key = main_key \<or> key = retry_key \<Longrightarrow> redis_list w key = x # xs \<Longrightarrow>
     world_work w = world_work w' + 12"
  by (auto simp: queue_written_def world_work_def store_work_def channel_work_def main_key_def retry_key_def)

lemma world_work_appended:
  "inbox_appended c P w w' \<Longrightarrow> c = completed_channel \<or> c = terminated_channel \<Longrightarrow> world_work w' = world_work w + 6"
  by (auto simp: inbox_appended_def world_work_def store_work_def channel_work_def completed_channel_def terminated_channel_def)

lemma world_work_taken:
  "inbox_taken c P w w' \<Longrightarrow> c = completed_channel \<or> c = terminated_channel \<Longrightarrow> world_work w = world_work w' + 6"
  by (auto simp: inbox_taken_def world_work_def store_work_def channel_work_def completed_channel_def terminated_channel_def)

lemma created_work:
  "sum_list (map (\<lambda>t. row_work (task_column_defaults t)) ts) + 13 * length (workflowService_getRootTasks ts) \<le>
     sum_list (map (\<lambda>t. 14 + 10 * budget (task_column_defaults t)) ts)"
  by (induction ts) (auto simp: row_work_def task_column_defaults_def)

lemma world_work_created:
  assumes "execution_created e ts w w'"
  shows "world_work w' = world_work w + sum_list (map (\<lambda>t. row_work (task_column_defaults t)) ts)"
  using assms by (auto simp: execution_created_def world_work_def store_work_def channel_work_def comp_def)

section \<open>One call of each goroutine\<close>

lemma worker_works:
  assumes "worker_firm svc (queue_of k) pc w pc' w'" and "worker_ready w pc" and "\<not> (pc = W_idle \<and> redis_list w (queue_of k) = [])"
  shows "world_work w' + worker_work pc' < world_work w + worker_work pc"
proof (cases pc)
  case W_idle
  with assms(3) obtain x xs where list: "redis_list w (queue_of k) = x # xs" by (auto simp: neq_Nil_conv)
  with assms(1) W_idle have pc': "pc' = (case uuid_Parse svc x of Inl e \<Rightarrow> W_idle | Inr i \<Rightarrow> W_find i)"
    and w': "queue_written ((redis_list w)(queue_of k := xs)) w w'" by simp_all
  have "queue_of k = main_key \<or> queue_of k = retry_key" by (simp add: queue_of_def)
  from world_work_popped [OF w' this list] pc' W_idle show ?thesis by (simp split: sum.split)
next
  case (W_find i)
  with assms(1) world_work_same(1) [of w w'] show ?thesis by auto
next
  case (W_skip t)
  with assms(1) world_work_written [of _ "skipped_row _" w w'] show ?thesis by auto
next
  case (W_skip_publish t)
  with assms(1) world_work_appended [of terminated_channel _ w w'] show ?thesis by auto
next
  case (W_claim t)
  with assms(1) world_work_written [of _ "claimed _ _" w w'] show ?thesis by (auto simp: failure_pc_def)
next
  case (W_complete t out)
  with assms(1) world_work_written [of _ "completed _" w w'] show ?thesis by auto
next
  case (W_complete_publish t)
  with assms(1) world_work_appended [of completed_channel _ w w'] show ?thesis by auto
next
  case (W_retry t)
  with assms(1) have out: "tasks_written (\<lambda>r. ID r = ID t \<and> Version r = Version t) (retried (Version t)) w w'"
    and pc': "pc' = W_retry_push t" by auto
  from W_retry assms(2) obtain r where r: "r \<in> set (task_rows w)" "ID r = ID t \<and> Version r = Version t"
    "RetryCount r < MaxRetries r" by auto
  from world_work_retried [OF out r] W_retry pc' show ?thesis by simp
next
  case (W_retry_push t)
  with assms(1) world_work_pushed [of w retry_key _ w'] show ?thesis by auto
next
  case (W_fail t err)
  with assms(1) world_work_written [of _ "failed_row _ _" w w'] show ?thesis by auto
next
  case (W_fail_execution t err)
  with assms(1) world_work_same(2) [of _ _ w w'] show ?thesis by auto
next
  case (W_fail_publish t err)
  with assms(1) world_work_appended [of terminated_channel _ w w'] show ?thesis by auto
qed (use assms(1) in simp_all)

lemma length_released: "mset ids = mset (released_ids P w) \<Longrightarrow> length ids = length (released_ids P w)"
  by (metis size_mset)

lemma coordinator_works:
  assumes "coord_firm svc c w c' w'" and "c \<noteq> C_idle"
  shows "world_work w' + coord_work c' < world_work w + coord_work c"
proof (cases c)
  case (C_decrement ev)
  let ?P = "children (depends_on svc) (tc_ExecutionID ev) (tc_RefID ev)"
  from assms(1) C_decrement obtain ids where out: "tasks_rewritten ?P decremented w w'"
    and ids: "mset ids = mset (released_ids ?P w)" and c': "c' = (if ids = [] then C_check (tc_ExecutionID ev) else C_queue ids (length ids))"
    by (auto simp: Let_def)
  have "coord_work c' \<le> 2 + 13 * length (released_ids ?P w)" using c' length_released [OF ids] by simp
  with world_work_released [OF out] C_decrement show ?thesis by simp
next
  case (C_taint ev)
  let ?P = "children (depends_on svc) (tt_ExecutionID ev) (tt_RefID ev)"
  from assms(1) C_taint obtain ids where out: "tasks_rewritten ?P tainted w w'"
    and ids: "mset ids = mset (released_ids ?P w)" and c': "c' = C_skip_queue ids (length ids) (tt_Type ev)"
    by (auto simp: Let_def)
  have "coord_work c' = 1 + 13 * length (released_ids ?P w)" using c' length_released [OF ids] by simp
  with world_work_released [OF out] C_taint show ?thesis by simp
next
  case (C_queue ids n)
  with assms(1) world_work_same(1) [of w w'] world_work_pushed [of w main_key _ w'] show ?thesis by (cases ids) auto
next
  case (C_skip_queue ids n ty)
  with assms(1) world_work_same(1) [of w w'] world_work_pushed [of w main_key _ w'] show ?thesis by (cases ids) auto
next
  case (C_check ex)
  with assms(1) world_work_same(1) [of w w'] show ?thesis by auto
next
  case (C_finish ex)
  with assms(1) world_work_same(2) [of _ _ w w'] show ?thesis by auto
qed (use assms(2) in simp)

lemma request_works:
  assumes "request_firm svc q w q' w'" and "\<nexists>r. q = R_done r"
  shows "world_work w' + request_work q' < world_work w + request_work q"
proof (cases q)
  case (R_create e ts)
  with assms(1) world_work_same(1) [of w w'] world_work_created [of e ts w w'] created_work [of ts] show ?thesis by auto
next
  case (R_push e ts)
  with assms(1) world_work_same(1) [of w w'] world_work_pushed [of w main_key _ w'] show ?thesis by (cases ts) auto
qed (use assms(2) in simp)

end
