(* ===== verification/System_Liveness.thy ===== *)
theory System_Liveness
  imports System_Work
begin

text \<open>
  Every run without failures comes to rest, and at rest every task of an acyclic workflow is
  decided. The goroutines take turns as a scheduler says; it may be any scheduler that does not
  forget a goroutine for ever.
\<close>

section \<open>Turns\<close>

text \<open>
  The two cases of the coordinator's \<open>select\<close> are scheduled apart, so that a fair scheduler does
  not starve one of the channels.
\<close>

datatype goroutine =
    G_worker nat
  | G_subscriber
  | G_termination_subscriber
  | G_select
  | G_termination_select
  | G_coordinator
  | G_request nat
  | G_queue_depth string
  | G_pool int int

fun turn :: "'h services \<Rightarrow> 'h server \<Rightarrow> goroutine \<Rightarrow> 'h sys \<Rightarrow> 'h sys" where
  "turn svc sv (G_worker k) s =
     (if k < length (sys_workers s)
      then (case run_state (worker_step svc (worker_of sv k) Background (sys_workers s ! k)) (sys_world s) of
          (pc, w) \<Rightarrow> s\<lparr>sys_world := w, sys_workers := (sys_workers s)[k := pc],
            sys_succeeded := sys_succeeded s @ success_of (sys_workers s ! k) pc\<rparr>)
      else s)"
| "turn svc sv G_subscriber s =
     (case sys_completed s of
        Some ev \<Rightarrow> s
      | None \<Rightarrow> (case run_state (SubscribeToEvents (co_eventBus (sv_coord sv))) (sys_world s) of
          (x, w) \<Rightarrow> s\<lparr>sys_world := w, sys_completed := x\<rparr>))"
| "turn svc sv G_termination_subscriber s =
     (case sys_terminated s of
        Some ev \<Rightarrow> s
      | None \<Rightarrow> (case run_state (SubscribeToTerminationEvents (co_eventBus (sv_coord sv))) (sys_world s) of
          (y, w) \<Rightarrow> s\<lparr>sys_world := w, sys_terminated := y\<rparr>))"
| "turn svc sv G_select s =
     (case sys_completed s of
        None \<Rightarrow> s
      | Some ev \<Rightarrow> if sys_coord s = C_idle
          then s\<lparr>sys_world := snd (run_state (inc CoordinatorEventsProcessedTotal [''completed'']) (sys_world s)),
            sys_coord := C_decrement ev, sys_completed := None\<rparr>
          else s)"
| "turn svc sv G_termination_select s =
     (case sys_terminated s of
        None \<Rightarrow> s
      | Some ev \<Rightarrow> if sys_coord s = C_idle
          then s\<lparr>sys_world := snd (run_state (inc CoordinatorEventsProcessedTotal [''terminated'']) (sys_world s)),
            sys_coord := C_taint ev, sys_terminated := None\<rparr>
          else s)"
| "turn svc sv G_coordinator s =
     (case run_state (coord_step svc (sv_coord sv) (sys_coord s)) (sys_world s) of
        (c, w) \<Rightarrow> s\<lparr>sys_world := w, sys_coord := c,
          sys_handled := sys_handled s @ handled_of (depends_on svc) (sys_coord s) (sys_world s) w\<rparr>)"
| "turn svc sv (G_request k) s =
     (if k < length (sys_requests s)
      then (case run_state (request_step svc (sv_workflowSvc sv) (sys_requests s ! k)) (sys_world s) of
          (q, w) \<Rightarrow> s\<lparr>sys_world := w, sys_requests := (sys_requests s)[k := q]\<rparr>)
      else s)"
| "turn svc sv (G_queue_depth key) s =
     s\<lparr>sys_world := snd (run_state (RedisQueueDepthCollector_tick svc key) (sys_world s))\<rparr>"
| "turn svc sv (G_pool idle in_use) s =
     s\<lparr>sys_world := snd (run_state (DBPoolCollector_tick idle in_use) (sys_world s))\<rparr>"

lemma collector_turn:
  assumes "m = RedisQueueDepthCollector_tick svc key \<or> m = DBPoolCollector_tick idle in_use"
  shows "sys_step svc sv s (s\<lparr>sys_world := snd (run_state m (sys_world s))\<rparr>)"
  by (rule sys_step.collector [OF assms]) (rule prod_eqI; simp)

lemma turn_step: "turn svc sv g s = s \<or> sys_step svc sv s (turn svc sv g s)"
proof (cases g)
  case (G_select)
  then show ?thesis by (auto intro: sys_step.take_completed split: option.split)
next
  case (G_termination_select)
  then show ?thesis by (auto intro: sys_step.take_terminated split: option.split)
next
  case (G_queue_depth key)
  then show ?thesis using collector_turn [of "RedisQueueDepthCollector_tick svc key" svc key] by simp
next
  case (G_pool idle in_use)
  then show ?thesis using collector_turn [of "DBPoolCollector_tick idle in_use" svc _ idle in_use] by simp
qed (auto intro: sys_step.intros split: prod.split option.split)

text \<open>The run from a state under a schedule.\<close>

primrec scheduled :: "'h services \<Rightarrow> 'h server \<Rightarrow> (nat \<Rightarrow> goroutine) \<Rightarrow> 'h sys \<Rightarrow> nat \<Rightarrow> 'h sys" where
  "scheduled svc sv \<sigma> s 0 = s"
| "scheduled svc sv \<sigma> s (Suc n) = turn svc sv (\<sigma> n) (scheduled svc sv \<sigma> s n)"

text \<open>The goroutines of a state, and the schedules that come back to each of them.\<close>

definition goroutines :: "'h sys \<Rightarrow> goroutine list" where
  "goroutines s = map G_worker [0..<length (sys_workers s)] @
     [G_subscriber, G_termination_subscriber, G_select, G_termination_select, G_coordinator] @
     map G_request [0..<length (sys_requests s)]"

definition fair :: "(nat \<Rightarrow> goroutine) \<Rightarrow> goroutine list \<Rightarrow> bool" where
  "fair \<sigma> gs \<longleftrightarrow> (\<forall>g \<in> set gs. \<forall>m. \<exists>n \<ge> m. \<sigma> n = g)"

definition round_robin :: "goroutine list \<Rightarrow> nat \<Rightarrow> goroutine" where
  "round_robin gs n = gs ! (n mod length gs)"

lemma round_robin_fair: "fair (round_robin gs) gs"
  unfolding fair_def
proof (intro ballI allI)
  fix g m assume "g \<in> set gs"
  then obtain j where j: "j < length gs" "gs ! j = g" by (auto simp: in_set_conv_nth)
  have "(m * length gs + j) mod length gs = j" using j(1) by simp
  moreover have "m \<le> m * length gs + j" using j(1) by (simp add: trans_le_add1)
  ultimately show "\<exists>n \<ge> m. round_robin gs n = g"
    using j(2) by (intro exI [of _ "m * length gs + j"]) (simp add: round_robin_def)
qed

text \<open>Who has something to do, and when nobody has.\<close>

fun enabled :: "'h sys \<Rightarrow> goroutine \<Rightarrow> bool" where
  "enabled s (G_worker k) \<longleftrightarrow> k < length (sys_workers s) \<and>
     \<not> (sys_workers s ! k = W_idle \<and> redis_list (sys_world s) (queue_of k) = [])"
| "enabled s G_subscriber \<longleftrightarrow> sys_completed s = None \<and> inbox (sys_world s) completed_channel \<noteq> []"
| "enabled s G_termination_subscriber \<longleftrightarrow> sys_terminated s = None \<and> inbox (sys_world s) terminated_channel \<noteq> []"
| "enabled s G_select \<longleftrightarrow> sys_coord s = C_idle \<and> sys_completed s \<noteq> None"
| "enabled s G_termination_select \<longleftrightarrow> sys_coord s = C_idle \<and> sys_terminated s \<noteq> None"
| "enabled s G_coordinator \<longleftrightarrow> sys_coord s \<noteq> C_idle"
| "enabled s (G_request k) \<longleftrightarrow> k < length (sys_requests s) \<and> (\<nexists>r. sys_requests s ! k = R_done r)"
| "enabled s _ \<longleftrightarrow> False"

definition settled :: "'h sys \<Rightarrow> bool" where
  "settled s \<longleftrightarrow> (\<forall>pc \<in> set (sys_workers s). pc = W_idle) \<and>
     redis_list (sys_world s) main_key = [] \<and> redis_list (sys_world s) retry_key = [] \<and>
     inbox (sys_world s) completed_channel = [] \<and> inbox (sys_world s) terminated_channel = [] \<and>
     sys_coord s = C_idle \<and> sys_completed s = None \<and> sys_terminated s = None \<and>
     (\<forall>q \<in> set (sys_requests s). \<exists>r. q = R_done r)"

lemma some_enabled:
  assumes "length (sys_workers s) = 10" and "\<not> settled s"
  shows "\<exists>g \<in> set (goroutines s). enabled s g"
proof (rule ccontr)
  assume "\<not> (\<exists>g \<in> set (goroutines s). enabled s g)"
  then have none: "\<And>g. g \<in> set (goroutines s) \<Longrightarrow> \<not> enabled s g" by blast
  have workers: "sys_workers s ! k = W_idle \<and> redis_list (sys_world s) (queue_of k) = []" if "k < 10" for k
    using none [of "G_worker k"] that assms(1) by (simp add: goroutines_def)
  have "\<forall>pc \<in> set (sys_workers s). pc = W_idle" using workers assms(1) by (auto simp: in_set_conv_nth)
  moreover have "redis_list (sys_world s) main_key = []" "redis_list (sys_world s) retry_key = []"
    using workers [of 0] workers [of 9] by (simp_all add: queue_of_def)
  moreover have coord: "sys_coord s = C_idle" using none [of G_coordinator] by (simp add: goroutines_def)
  moreover from this have "sys_completed s = None" "sys_terminated s = None"
    using none [of G_select] none [of G_termination_select] by (simp_all add: goroutines_def)
  moreover from this have "inbox (sys_world s) completed_channel = []" "inbox (sys_world s) terminated_channel = []"
    using none [of G_subscriber] none [of G_termination_subscriber] by (simp_all add: goroutines_def)
  moreover have "\<exists>r. q = R_done r" if "q \<in> set (sys_requests s)" for q
  proof -
    from that obtain k where "k < length (sys_requests s)" "sys_requests s ! k = q" by (auto simp: in_set_conv_nth)
    with none [of "G_request k"] show ?thesis by (simp add: goroutines_def)
  qed
  ultimately have "settled s" by (simp add: settled_def)
  with assms(2) show False ..
qed

lemma settled_disabled: "settled s \<Longrightarrow> \<not> enabled s g"
  by (cases g) (auto simp: settled_def queue_of_def)

section \<open>Each turn does work or changes nothing\<close>

definition unmoved :: "'h sys \<Rightarrow> 'h sys \<Rightarrow> bool" where
  "unmoved s t \<longleftrightarrow> unwritten (sys_world s) (sys_world t) \<and> sys_workers t = sys_workers s \<and> sys_coord t = sys_coord s \<and>
     sys_completed t = sys_completed s \<and> sys_terminated t = sys_terminated s \<and> sys_requests t = sys_requests s"

lemma unmoved_refl [simp]: "unmoved s s"
  by (simp add: unmoved_def)

lemma unmoved_trans: "unmoved s t \<Longrightarrow> unmoved t u \<Longrightarrow> unmoved s u"
  by (simp add: unmoved_def unwritten_def)

lemma unmoved_enabled: "unmoved s t \<Longrightarrow> enabled t g = enabled s g"
  by (cases g) (simp_all add: unmoved_def unwritten_def)

lemma unmoved_settled: "unmoved s t \<Longrightarrow> settled t = settled s"
  by (simp add: unmoved_def unwritten_def settled_def)

lemma unmoved_goroutines: "unmoved s t \<Longrightarrow> goroutines t = goroutines s"
  by (simp add: unmoved_def goroutines_def)

lemma sum_list_slot:
  fixes f :: "'a \<Rightarrow> nat"
  assumes "k < length xs"
  shows "sum_list (map f (xs[k := y])) + f (xs ! k) = sum_list (map f xs) + f y"
  using assms by (induction xs arbitrary: k) (auto split: nat.split simp: nth_Cons ac_simps list_update.simps)

lemma slot_decreases:
  fixes f :: "'a \<Rightarrow> nat"
  assumes "k < length xs" and "a' + f y < a + f (xs ! k)"
  shows "a' + sum_list (map f (xs[k := y])) < a + sum_list (map f xs)"
  using sum_list_slot [OF assms(1), of f y] assms(2) by linarith

context flawless_services
begin

lemma turn_works:
  assumes inv: "sys_inv InitRegistry (abs_sys svc s)" and rdy: "ready s" and q: "quiet (hidden (sys_world s))"
  shows "if enabled s g then work (turn svc (main_server svc id1 id2) g s) < work s
    else unmoved s (turn svc (main_server svc id1 id2) g s)"
proof (cases g)
  case (G_worker k)
  let ?sv = "main_server svc id1 id2"
  obtain pc w where run: "run_state (worker_step svc (worker_of ?sv k) Background (sys_workers s ! k)) (sys_world s) = (pc, w)"
    by fastforce
  show ?thesis
  proof (cases "k < length (sys_workers s)")
    case True
    from worker_call [OF run inv rdy q True] have firm: "worker_firm svc (queue_of k) (sys_workers s ! k) (sys_world s) pc w" ..
    have "worker_ready (sys_world s) (sys_workers s ! k)" using rdy True by (simp add: ready_def)
    note works = slot_decreases [OF True worker_works [OF firm this]]
    show ?thesis
    proof (cases "sys_workers s ! k = W_idle \<and> redis_list (sys_world s) (queue_of k) = []")
      case idle: True
      with firm have "pc = W_idle" "unwritten (sys_world s) w" by simp_all
      with idle G_worker True run list_update_id [of "sys_workers s" k] show ?thesis
        by (simp add: unmoved_def del: worker_step.simps)
    next
      case False
      from works [OF this] False G_worker True run show ?thesis
        by (simp add: work_def del: worker_step.simps de_Morgan_conj)
    qed
  qed (simp add: G_worker)
next
  case G_subscriber
  obtain x w where run: "run_state (SubscribeToEvents (co_eventBus (sv_coord (main_server svc id1 id2)))) (sys_world s) = (x, w)"
    by fastforce
  from subscriber_calls(1) [OF run q] G_subscriber run world_work_taken [of completed_channel _ "sys_world s" w] show ?thesis
    by (auto simp: work_def unmoved_def split: option.split list.splits)
next
  case G_termination_subscriber
  obtain y w where run: "run_state (SubscribeToTerminationEvents (co_eventBus (sv_coord (main_server svc id1 id2)))) (sys_world s) = (y, w)"
    by fastforce
  from subscriber_calls(2) [OF run q] G_termination_subscriber run world_work_taken [of terminated_channel _ "sys_world s" w]
  show ?thesis by (auto simp: work_def unmoved_def split: option.split list.splits)
next
  case G_select
  then show ?thesis
    using world_work_same(1) [of "sys_world s" "(sys_world s)\<lparr>mlog := _\<rparr>"]
    by (auto simp: work_def unwritten_def split: option.split)
next
  case G_termination_select
  then show ?thesis
    using world_work_same(1) [of "sys_world s" "(sys_world s)\<lparr>mlog := _\<rparr>"]
    by (auto simp: work_def unwritten_def split: option.split)
next
  case G_coordinator
  obtain c w where run: "run_state (coord_step svc (sv_coord (main_server svc id1 id2)) (sys_coord s)) (sys_world s) = (c, w)"
    by fastforce
  from coordinator_call [OF run inv rdy q] have firm: "coord_firm svc (sys_coord s) (sys_world s) c w" ..
  from coordinator_works [OF firm] firm G_coordinator run show ?thesis
    by (cases "sys_coord s = C_idle") (simp_all add: work_def unmoved_def)
next
  case (G_request k)
  obtain r w where run: "run_state (request_step svc (sv_workflowSvc (main_server svc id1 id2)) (sys_requests s ! k)) (sys_world s) = (r, w)"
    by fastforce
  show ?thesis
  proof (cases "k < length (sys_requests s)")
    case True
    from request_call [OF run q] have firm: "request_firm svc (sys_requests s ! k) (sys_world s) r w" ..
    note works = slot_decreases [OF True request_works [OF firm]]
    show ?thesis
    proof (cases "\<exists>r. sys_requests s ! k = R_done r")
      case finished: True
      with firm have "r = sys_requests s ! k" "unwritten (sys_world s) w" by auto
      with finished G_request True run show ?thesis by (simp add: unmoved_def del: request_step.simps)
    next
      case False
      from works [OF False] False G_request True run show ?thesis by (simp add: work_def del: request_step.simps)
    qed
  qed (simp add: G_request)
next
  case (G_queue_depth key)
  then show ?thesis
    using collector_unwritten [of "RedisQueueDepthCollector_tick svc key" key _ _ "sys_world s", OF _ surjective_pairing]
    by (simp add: unmoved_def)
next
  case (G_pool idle in_use)
  then show ?thesis
    using collector_unwritten [of "DBPoolCollector_tick idle in_use" _ idle in_use "sys_world s", OF _ surjective_pairing]
    by (simp add: unmoved_def)
qed

end

section \<open>Every fair run comes to rest\<close>

lemma turn_requests:
  "R_create e ts \<in> set (sys_requests (turn svc sv g s)) \<Longrightarrow> R_create e ts \<in> set (sys_requests s)"
proof (cases g)
  case (G_request k)
  assume req: "R_create e ts \<in> set (sys_requests (turn svc sv g s))"
  obtain q w where run: "run_state (request_step svc (sv_workflowSvc sv) (sys_requests s ! k)) (sys_world s) = (q, w)" by fastforce
  have "q \<noteq> R_create e ts \<or> q = sys_requests s ! k"
    using run by (cases "(svc, sv_workflowSvc sv, sys_requests s ! k)" rule: request_step.cases)
      (auto split: prod.splits sum.splits)
  moreover have "k < length (sys_requests s) \<Longrightarrow> sys_requests s ! k \<in> set (sys_requests s)" by simp
  ultimately show ?thesis
    using req G_request run by (auto split: if_splits dest!: set_update_subset_insert [THEN subsetD])
qed (auto split: prod.splits option.splits if_splits)

lemma turn_lengths:
  "length (sys_workers (turn svc sv g s)) = length (sys_workers s)"
  "length (sys_requests (turn svc sv g s)) = length (sys_requests s)"
  by (cases g; auto split: prod.split option.split)+

lemma turn_goroutines: "goroutines (turn svc sv g s) = goroutines s"
  by (simp add: goroutines_def turn_lengths)

lemma scheduled_goroutines: "goroutines (scheduled svc sv \<sigma> s n) = goroutines s"
  by (induction n) (simp_all add: turn_goroutines)

lemma lossless_workers: "lossless svc (main_server svc id1 id2) quiet s \<Longrightarrow> length (sys_workers s) = 10"
proof (induction rule: lossless.induct)
  case (step s t)
  from step(2) show ?case using step(4) by cases simp_all
qed (simp add: sys_init_def)

context flawless_services
begin

lemma turn_lossless:
  assumes "lossless svc sv quiet s"
  shows "lossless svc sv quiet (turn svc sv g s)"
proof -
  have "printable_requests (sys_requests s)"
    using assms by cases (simp_all add: printable_requests_def sys_init_def)
  then have "printable_requests (sys_requests (turn svc sv g s))"
    unfolding printable_requests_def using turn_requests by blast
  with turn_step [of svc sv g s] assms show ?thesis by (metis lossless.step)
qed

lemma scheduled_lossless: "lossless svc sv quiet s \<Longrightarrow> lossless svc sv quiet (scheduled svc sv \<sigma> s n)"
  by (induction n) (simp_all add: turn_lossless)

lemma lossless_works:
  assumes "lossless svc (main_server svc id1 id2) quiet s"
  shows "if enabled s g then work (turn svc (main_server svc id1 id2) g s) < work s
    else unmoved s (turn svc (main_server svc id1 id2) g s)"
proof -
  have "sys_inv InitRegistry (abs_sys svc s)" using reachable_invariant lossless_reachable [OF assms] .
  with lossless_healthy [OF assms] turn_works show ?thesis by (simp add: healthy_state_def)
qed

text \<open>A state at rest stays at rest.\<close>

lemma settled_turn:
  "lossless svc (main_server svc id1 id2) quiet s \<Longrightarrow> settled s \<Longrightarrow>
     unmoved s (turn svc (main_server svc id1 id2) g s) \<and> settled (turn svc (main_server svc id1 id2) g s)"
  using lossless_works [of id1 id2 s g] settled_disabled [of s g] unmoved_settled by fastforce

lemma settled_scheduled:
  assumes "lossless svc (main_server svc id1 id2) quiet s" and "settled (scheduled svc (main_server svc id1 id2) \<sigma> s m)" and "m \<le> n"
  shows "settled (scheduled svc (main_server svc id1 id2) \<sigma> s n)"
  using assms(3)
proof (induction rule: dec_induct)
  case (step n)
  then show ?case using settled_turn [OF scheduled_lossless [OF assms(1)]] by simp
qed (rule assms(2))

text \<open>Until a goroutine with something to do has its turn, nothing moves or work is done.\<close>

lemma work_or_wait:
  fixes \<sigma> :: "nat \<Rightarrow> goroutine"
  assumes s: "lossless svc (main_server svc id1 id2) quiet s" and "m \<le> n"
  defines "run \<equiv> scheduled svc (main_server svc id1 id2) \<sigma> s"
  shows "unmoved (run m) (run n) \<or> work (run n) < work (run m)"
  using \<open>m \<le> n\<close>
proof (induction rule: dec_induct)
  case (step n)
  from lossless_works [OF scheduled_lossless [OF s], of \<sigma> n "\<sigma> n"]
  have turn: "work (run (Suc n)) < work (run n) \<or> unmoved (run n) (run (Suc n))"
    by (auto simp: run_def split: if_splits)
  have same: "work t = work u" if "unmoved u t" for t u :: "'h sys"
    using that world_work_same(1) by (auto simp: unmoved_def work_def)
  from step.IH turn same unmoved_trans show ?case by (metis order_less_trans)
qed simp

lemma fair_progress:
  assumes s: "lossless svc (main_server svc id1 id2) quiet s" and fair: "fair \<sigma> (goroutines s)"
  defines "run \<equiv> scheduled svc (main_server svc id1 id2) \<sigma> s"
  assumes "\<not> settled (run m)"
  shows "\<exists>n \<ge> m. work (run n) < work (run m)"
proof -
  have "length (sys_workers (run m)) = 10"
    using lossless_workers [OF scheduled_lossless [OF s]] unfolding run_def .
  from some_enabled [OF this assms(4)] obtain g where g: "g \<in> set (goroutines s)" "enabled (run m) g"
    using scheduled_goroutines unfolding run_def by metis
  with fair obtain n where n: "m \<le> n" "\<sigma> n = g" by (auto simp: fair_def)
  from work_or_wait [OF s n(1)] have "unmoved (run m) (run n) \<or> work (run n) < work (run m)" unfolding run_def .
  then show ?thesis
  proof
    assume still: "unmoved (run m) (run n)"
    then have "enabled (run n) g" using g(2) unmoved_enabled by blast
    with lossless_works [OF scheduled_lossless [OF s], of \<sigma> n g] n(2) have "work (run (Suc n)) < work (run n)"
      by (simp add: run_def)
    moreover have "work (run n) = work (run m)" using still world_work_same(1) by (auto simp: unmoved_def work_def)
    ultimately show ?thesis using n(1) by (intro exI [of _ "Suc n"]) simp
  qed (use n(1) in blast)
qed

lemma fair_settles:
  assumes s: "lossless svc (main_server svc id1 id2) quiet s" and fair: "fair \<sigma> (goroutines s)"
  shows "\<exists>n. \<forall>m \<ge> n. settled (scheduled svc (main_server svc id1 id2) \<sigma> s m)"
proof -
  let ?run = "scheduled svc (main_server svc id1 id2) \<sigma> s"
  have "\<exists>n. settled (?run n)" if "work (?run m) = k" for m k
    using that
  proof (induction k arbitrary: m rule: less_induct)
    case (less k)
    show ?case
    proof (cases "settled (?run m)")
      case False
      from fair_progress [OF s fair this] less show ?thesis by metis
    qed blast
  qed
  then show ?thesis using settled_scheduled [OF s] by metis
qed

end

end
