(* ===== verification/System_Skips.thy ===== *)
theory System_Skips
  imports System_Healthy
begin

text \<open>
  Why a task is skipped, when no call fails: its row carries the skip hint, which it does only if
  one of its dependencies was handled as terminated; and a task with the hint is never run.
\<close>

section \<open>The skip hint\<close>

text \<open>A task between its claim and the update that records how its action ended.\<close>

fun worker_running :: "worker_pc \<Rightarrow> uuid list" where
  "worker_running (W_claim t) = [ID t]"
| "worker_running (W_complete t out) = [ID t]"
| "worker_running (W_fail t err) = [ID t]"
| "worker_running _ = []"

definition running :: "worker_pc list \<Rightarrow> uuid multiset" where
  "running pcs = slots worker_running pcs"

definition bad_parent :: "'h services \<Rightarrow> 'h sys \<Rightarrow> Task \<Rightarrow> bool" where
  "bad_parent svc s r \<longleftrightarrow>
     (\<exists>p \<in> deps (info r). resolved (b_tasks (board svc (sys_world s))) (sys_handled s) False (ExecutionID r) p)"

definition skip_row :: "(uuid \<times> bool) multiset \<Rightarrow> uuid multiset \<Rightarrow> (Task \<Rightarrow> bool) \<Rightarrow> Task \<Rightarrow> bool" where
  "skip_row M R X r \<longleftrightarrow>
     (SkipHint r \<longrightarrow> X r \<and> (ID r, True) \<notin># M \<and> Status r \<noteq> StatusFailed \<and> ID r \<notin># R) \<and>
     (Status r = StatusSkipped \<longrightarrow> SkipHint r)"

definition skip_ok :: "'h services \<Rightarrow> 'h sys \<Rightarrow> bool" where
  "skip_ok svc s \<longleftrightarrow>
     (\<forall>r \<in> set (task_rows (sys_world s)). skip_row (marks (abs_sys svc s)) (running (sys_workers s)) (bad_parent svc s) r)"

lemma skip_row_frame:
  assumes "skip_row M R X r" and "(ID r, True) \<in># M' \<Longrightarrow> (ID r, True) \<in># M" and "ID r \<in># R' \<Longrightarrow> ID r \<in># R"
    and "X r \<Longrightarrow> X' r"
  shows "skip_row M' R' X' r"
  using assms unfolding skip_row_def by blast

lemma running_mset: "image_mset (\<lambda>i. i) (mset (worker_running pc)) \<subseteq># mset (worker_tokens pc)"
  by (cases pc) simp_all

lemma running_tokens: "i \<in> set (worker_running pc) \<Longrightarrow> i \<in> set (worker_tokens pc)"
  by (cases pc) simp_all

lemma running_next:
  "worker_firm svc key pc w pc' w' \<Longrightarrow> i \<in> set (worker_running pc') \<Longrightarrow> i \<in> set (worker_tokens pc)"
  by (cases pc) (auto simp: failure_pc_def split: list.splits sum.splits if_splits)

lemma bad_parent_fields [simp]:
  "bad_parent svc s (claimed name v r) = bad_parent svc s r" "bad_parent svc s (retried v r) = bad_parent svc s r"
  "bad_parent svc s (skipped_row out r) = bad_parent svc s r" "bad_parent svc s (decremented r) = bad_parent svc s r"
  "bad_parent svc s (tainted r) = bad_parent svc s r" "bad_parent svc s (r\<lparr>UpdatedAt := ts\<rparr>) = bad_parent svc s r"
  by (simp_all add: bad_parent_def deps_def claimed_def retried_def skipped_row_def decremented_def tainted_def)

lemma bad_parent_mono:
  assumes "rows (b_tasks (board svc (sys_world s))) \<subseteq> rows (b_tasks (board svc (sys_world t)))"
    and "set (sys_handled s) \<subseteq> set (sys_handled t)" and "bad_parent svc s r"
  shows "bad_parent svc t r"
  using assms(2,3) has_row_mono [OF assms(1)] unfolding bad_parent_def resolved_def by blast

lemma others_running:
  assumes "inv_tokens a" and k: "k < length (a_workers a)" and "i \<in> set (worker_tokens (a_workers a ! k))"
  shows "i \<notin># others worker_running k (a_workers a)"
proof -
  have "places a = mset (worker_tokens (a_workers a ! k)) + (others worker_tokens k (a_workers a) +
      queued (a_board a) + announced (a_board a) + coord_places a + slots request_tokens (a_requests a))"
    by (simp add: places_def slots_split [OF k])
  from places_once [OF assms(1) this, of i] assms(3) have "i \<notin># others worker_tokens k (a_workers a)" by simp
  moreover have "others worker_running k (a_workers a) \<subseteq># others worker_tokens k (a_workers a)"
    unfolding others_def using slots_mono [of "\<lambda>i. i" worker_running worker_tokens, OF running_mset] by simp
  ultimately show ?thesis by (auto dest: mset_subset_eqD)
qed

lemma running_held: "i \<in># running pcs \<Longrightarrow> \<exists>pc \<in> set pcs. i \<in> set (worker_tokens pc)"
  by (auto simp: running_def slots_def dest: running_tokens)

context lawful_services
begin

lemma skip_own_row:
  assumes tok: "inv_tokens (abs_sys svc s)" and ok: "skip_ok svc s" and rdy: "ready s"
    and k: "k < length (sys_workers s)" and pc: "sys_workers s ! k = pc"
    and firm: "worker_firm svc (queue_of k) pc (sys_world s) pc' w"
    and r': "r' \<in> set (task_rows w)" "ID r' \<in> set (worker_tokens pc)"
  shows "skip_row (marks (abs_sys svc s) + mset (new_mark pc))
    (mset (worker_running pc') + others worker_running k (sys_workers s)) (bad_parent svc s) r'"
proof -
  let ?M = "marks (abs_sys svc s)" and ?O = "others worker_running k (sys_workers s)" and ?X = "bad_parent svc s"
    and ?w = "sys_world s"
  have R: "running (sys_workers s) = mset (worker_running pc) + ?O"
    by (simp add: running_def slots_split [OF k] pc)
  have old: "skip_row ?M (mset (worker_running pc) + ?O) ?X r" if "r \<in> set (task_rows ?w)" for r
    using ok that by (simp add: skip_ok_def R)
  have O: "i \<notin># ?O" if "i \<in> set (worker_tokens pc)" for i
    using others_running [OF tok, of k i] k pc that by simp
  have rdy_pc: "worker_ready ?w pc" using rdy k pc by (auto simp: ready_def)
  have same: ?thesis if "worker_running pc' = []" "new_mark pc = []" "task_rows w = task_rows ?w"
    using skip_row_frame [OF old, of r' _ _ ?X] that r'(1) by simp
  show ?thesis
  proof (cases pc)
    case (W_find i)
    from firm W_find obtain t where t: "t \<in> set (task_rows ?w)" "ID t = i" "pc' = (if SkipHint t then W_skip t else W_claim t)"
      "unwritten ?w w" by auto
    have "r' = t" using one_row [OF tok, of r' t] r' t W_find by (simp add: unwritten_def)
    with old [OF t(1)] O [of i] t W_find show ?thesis by (auto simp: skip_row_def)
  next
    case (W_skip t)
    from firm W_skip obtain out where out: "tasks_written (\<lambda>r. ID r = ID t) (skipped_row out) ?w w" and "pc' = W_skip_publish t" by auto
    from written_row(1) [OF out r'(1)] r'(2) W_skip obtain r ts where
      r: "r \<in> set (task_rows ?w)" "ID r = ID t" "r' = (skipped_row out r)\<lparr>UpdatedAt := ts\<rparr>" by (auto split: if_splits)
    have "SkipHint r" using one_row [OF tok r(1)] r(2) rdy_pc W_skip by auto
    with old [OF r(1)] r \<open>pc' = W_skip_publish t\<close> W_skip O [of "ID t"] show ?thesis
      by (auto simp: skip_row_def) (simp_all add: skipped_row_def)
  next
    case (W_claim t)
    from firm W_claim obtain name where out: "tasks_written (\<lambda>r. ID r = ID t \<and> Version r = Version t) (claimed name (Version t)) ?w w"
      by auto
    from written_row(1) [OF out r'(1)] obtain r ts where r: "r \<in> set (task_rows ?w)"
      "r' = (if ID r = ID t \<and> Version r = Version t then (claimed name (Version t) r)\<lparr>UpdatedAt := ts\<rparr> else r)"
      by blast
    then have "ID r = ID t" using r'(2) W_claim by (auto split: if_splits)
    with old [OF r(1)] W_claim have "\<not> SkipHint r" "Status r \<noteq> StatusSkipped" by (auto simp: skip_row_def)
    with r(2) show ?thesis by (auto simp: skip_row_def claimed_def)
  next
    case (W_complete t out)
    from firm W_complete have "tasks_written (\<lambda>r. ID r = ID t) (completed out) ?w w" by auto
    from written_row(1) [OF this r'(1)] r'(2) W_complete obtain r ts where
      r: "r \<in> set (task_rows ?w)" "ID r = ID t" "r' = (completed out r)\<lparr>UpdatedAt := ts\<rparr>" by (auto split: if_splits)
    with old [OF r(1)] W_complete show ?thesis by (auto simp: skip_row_def completed_def)
  next
    case (W_fail t err)
    from firm W_fail obtain out where out: "tasks_written (\<lambda>r. ID r = ID t) (failed_row (Error err) out) ?w w" by auto
    from written_row(1) [OF out r'(1)] r'(2) W_fail obtain r ts where
      r: "r \<in> set (task_rows ?w)" "ID r = ID t" "r' = (failed_row (Error err) out r)\<lparr>UpdatedAt := ts\<rparr>"
      by (auto split: if_splits)
    with old [OF r(1)] W_fail show ?thesis by (auto simp: skip_row_def failed_row_def)
  next
    case (W_retry t)
    from firm W_retry have out: "tasks_written (\<lambda>r. ID r = ID t \<and> Version r = Version t) (retried (Version t)) ?w w"
      and "pc' = W_retry_push t" by auto
    from written_row(1) [OF out r'(1)] obtain r ts where r: "r \<in> set (task_rows ?w)"
      "r' = (if ID r = ID t \<and> Version r = Version t then (retried (Version t) r)\<lparr>UpdatedAt := ts\<rparr> else r)"
      by blast
    then have "ID r' = ID r" by (simp split: if_splits)
    with old [OF r(1)] r(2) r'(2) W_retry \<open>pc' = W_retry_push t\<close> show ?thesis
      by (auto simp: skip_row_def) (simp_all add: retried_def)
  next
    case (W_retry_push t)
    then show ?thesis using firm by (intro same) (auto simp: queue_written_def)
  next
    case (W_fail_execution t err)
    then show ?thesis using firm by (intro same) (auto simp: execs_written_def)
  next
    case W_idle
    with r'(2) show ?thesis by simp
  next
    case (W_skip_publish t)
    then show ?thesis using firm by (intro same) (auto simp: inbox_appended_def)
  next
    case (W_complete_publish t)
    then show ?thesis using firm by (intro same) (auto simp: inbox_appended_def)
  next
    case (W_fail_publish t err)
    then show ?thesis using firm by (intro same) (auto simp: inbox_appended_def)
  qed (use firm in simp_all)
qed

lemma skip_worker:
  assumes tok: "inv_tokens (abs_sys svc s)" and ok: "skip_ok svc s" and rdy: "ready s"
    and k: "k < length (sys_workers s)"
    and firm: "worker_firm svc (queue_of k) (sys_workers s ! k) (sys_world s) pc w"
  shows "skip_ok svc (s\<lparr>sys_world := w, sys_workers := (sys_workers s)[k := pc],
       sys_succeeded := sys_succeeded s @ success_of (sys_workers s ! k) pc\<rparr>)" (is "skip_ok svc ?t")
proof -
  let ?pc = "sys_workers s ! k" and ?O = "others worker_running k (sys_workers s)"
  have M: "marks (abs_sys svc ?t) = marks (abs_sys svc s) + mset (new_mark ?pc)"
    using accounts_worker [OF k firm] by (simp add: accounts_def)
  have R: "running ((sys_workers s)[k := pc]) = mset (worker_running pc) + ?O" "running (sys_workers s) = mset (worker_running ?pc) + ?O"
    by (simp_all add: running_def slots_split [OF k] slots_update [OF k])
  have tasks: "b_tasks (board svc w) = b_tasks (board svc (sys_world s))" using worker_conserves [OF firm] by simp
  then have X: "bad_parent svc ?t = bad_parent svc s" by (simp add: bad_parent_def fun_eq_iff)
  have "skip_row (marks (abs_sys svc ?t)) (running (sys_workers ?t)) (bad_parent svc ?t) r" if r: "r \<in> set (task_rows w)" for r
  proof (cases "ID r \<in> set (worker_tokens ?pc)")
    case True
    from skip_own_row [OF tok ok rdy k refl firm r True] show ?thesis by (simp add: M R X)
  next
    case False
    with worker_frame [OF firm] r have "r \<in> set (task_rows (sys_world s))" by (simp add: rows_frame_def)
    with ok have "skip_row (marks (abs_sys svc s)) (running (sys_workers s)) (bad_parent svc s) r" by (simp add: skip_ok_def)
    then show ?thesis
      using False new_mark_own [of ?pc] running_next [OF firm]
      by (elim skip_row_frame) (auto simp: M R X)
  qed
  then show ?thesis by (simp add: skip_ok_def)
qed

lemma skip_same:
  assumes ok: "skip_ok svc s" and marks: "marks (abs_sys svc t) = marks (abs_sys svc s)"
    and workers: "sys_workers t = sys_workers s"
    and X: "\<And>r. bad_parent svc s r \<Longrightarrow> bad_parent svc t r"
    and written: "\<And>r. r \<in> set (task_rows (sys_world t)) \<Longrightarrow> r \<notin> set (task_rows (sys_world s)) \<Longrightarrow>
      skip_row (marks (abs_sys svc s)) (running (sys_workers s)) (bad_parent svc t) r"
  shows "skip_ok svc t"
  unfolding skip_ok_def marks workers
proof
  fix r assume r: "r \<in> set (task_rows (sys_world t))"
  show "skip_row (marks (abs_sys svc s)) (running (sys_workers s)) (bad_parent svc t) r"
  proof (cases "r \<in> set (task_rows (sys_world s))")
    case True
    with ok show ?thesis by (auto simp: skip_ok_def elim!: skip_row_frame X)
  qed (rule written [OF r])
qed

lemma skip_coordinator:
  assumes inv: "sys_inv reg (abs_sys svc s)" and ok: "skip_ok svc s" and status: "status_ok svc s"
    and firm: "coord_firm svc (sys_coord s) (sys_world s) c w"
  shows "skip_ok svc (s\<lparr>sys_world := w, sys_coord := c, sys_handled := sys_handled s @ handled_event (sys_coord s)\<rparr>)"
    (is "skip_ok svc ?t")
proof (rule skip_same [OF ok])
  let ?U = "written_children svc (sys_coord s) (sys_world s)"
  have tok: "inv_tokens (abs_sys svc s)" using inv by (simp add: sys_inv_def)
  show "marks (abs_sys svc ?t) = marks (abs_sys svc s)"
    using accounts_coordinator [OF inv firm] by (simp add: accounts_def)
  have keys: "row_keys w = row_keys (sys_world s)" using coordinator_keys [OF firm] .
  have rows: "has_row (b_tasks (board svc v)) i ex p \<longleftrightarrow> (i, ex, p) \<in> set (row_keys v)" for v i ex p
    by (auto simp: has_row_def rows_def board_def row_keys_def row_key_def)
  show mono: "bad_parent svc ?t r" if "bad_parent svc s r" for r
    using that by (auto simp: bad_parent_def resolved_def rows keys)
  fix r' assume r': "r' \<in> set (task_rows (sys_world ?t))" "r' \<notin> set (task_rows (sys_world s))"
  have U: "ID r' \<in> ?U" using coordinator_frame [OF firm] r' by (auto simp: rows_frame_def)
  from coordinator_row [OF firm _ U] r'(1) obtain r where r: "r \<in> set (task_rows (sys_world s))" "ID r' = ID r" and
    r'_def: "r' = r \<or> r' = decremented r \<or> (\<exists>ev. sys_coord s = C_taint ev \<and> coord_children svc (C_taint ev) r \<and> r' = tainted r)"
    by auto
  have free: "(ID r, b) \<notin># marks (abs_sys svc s)" for b
    using unmarked_waiting [OF tok, of "ID r"] children_wait [OF inv U] r(2) by simp
  have old: "skip_row (marks (abs_sys svc s)) (running (sys_workers s)) (bad_parent svc s) r"
    using ok r(1) by (simp add: skip_ok_def)
  have "Status r \<noteq> StatusFailed" using status r(1) free by (auto simp: status_ok_def row_ok_def)
  from r'_def show "skip_row (marks (abs_sys svc s)) (running (sys_workers s)) (bad_parent svc ?t) r'"
  proof (elim disjE conjE exE)
    assume "r' = decremented r"
    with old mono [of r] show ?thesis by (auto simp: skip_row_def) (auto simp: decremented_def split: if_splits)
  next
    fix ev assume taint: "r' = tainted r" "sys_coord s = C_taint ev" "coord_children svc (C_taint ev) r"
    have "waits_for (tt_ExecutionID ev) (tt_RefID ev) (info r)"
      using event_children(2) [OF inv taint(2)] r(1) taint(3) by (auto simp: finds_children_def)
    moreover have "has_row (b_tasks (board svc (sys_world s))) (tt_TaskID ev) (tt_ExecutionID ev) (tt_RefID ev)"
      using inv taint(2) by (simp add: sys_inv_def inv_events_def terminated_events_def)
    ultimately have "bad_parent svc ?t r"
      using taint(2) by (auto simp: bad_parent_def resolved_def waits_for_def rows keys)
    moreover have "ID r \<notin># running (sys_workers s)"
    proof
      assume "ID r \<in># running (sys_workers s)"
      from running_held [OF this] obtain pc where pc: "pc \<in> set (sys_workers s)" "ID r \<in> set (worker_tokens pc)" by blast
      then obtain k where "k < length (sys_workers s)" "ID r \<in> set (worker_tokens (sys_workers s ! k))"
        using in_set_conv_nth [of pc "sys_workers s"] by blast
      with held_not_waiting [OF tok, of k "ID r"] children_wait [OF inv U] r(2) show False by simp
    qed
    ultimately show ?thesis
      using taint(1) free [of True] \<open>Status r \<noteq> StatusFailed\<close> r(2)
      by (auto simp: skip_row_def) (auto simp: tainted_def decremented_def split: if_splits)
  qed (use r' r(1) in simp)
qed simp

lemma skip_request:
  assumes inv: "sys_inv reg (abs_sys svc s)" and ok: "skip_ok svc s" and k: "k < length (sys_requests s)"
    and firm: "request_firm svc (sys_requests s ! k) (sys_world s) q w"
  shows "skip_ok svc (s\<lparr>sys_world := w, sys_requests := (sys_requests s)[k := q]\<rparr>)" (is "skip_ok svc ?t")
proof (rule skip_same [OF ok])
  show "marks (abs_sys svc ?t) = marks (abs_sys svc s)"
    using accounts_request [OF inv k firm] by (simp add: accounts_def)
  have rows: "has_row (b_tasks (board svc v)) i ex p \<longleftrightarrow> (i, ex, p) \<in> set (row_keys v)" for v i ex p
    by (auto simp: has_row_def rows_def board_def row_keys_def row_key_def)
  have "set (row_keys (sys_world s)) \<subseteq> set (row_keys w)" using request_keys [OF firm] by auto
  then show "bad_parent svc ?t r" if "bad_parent svc s r" for r
    using that unfolding bad_parent_def resolved_def rows by auto
  fix r assume r: "r \<in> set (task_rows (sys_world ?t))" "r \<notin> set (task_rows (sys_world s))"
  obtain e ts where e: "sys_requests s ! k = R_create e ts" "execution_created e ts (sys_world s) w"
  proof (cases "sys_requests s ! k")
    case (R_create e ts)
    with firm r that show thesis by (auto simp: unwritten_def)
  next
    case (R_push e ts)
    with firm r show thesis by (cases ts) (auto simp: unwritten_def queue_written_def)
  qed (use firm r in \<open>auto simp: unwritten_def\<close>)
  have "sane_submission reg e ts" using inv nth_mem [OF k] e(1) by (auto simp: sys_inv_def inv_requests_def)
  moreover from e(2) r obtain t now where "t \<in> set ts" "r = stamp_task now (task_column_defaults t)"
    by (auto simp: execution_created_def)
  ultimately show "skip_row (marks (abs_sys svc s)) (running (sys_workers s)) (bad_parent svc ?t) r"
    by (auto simp: skip_row_def sane_submission_def stamp_task_def task_column_defaults_def)
qed simp

lemma skip_step:
  assumes "firm_step svc s t" and inv: "sys_inv reg (abs_sys svc s)" and ok: "skip_ok svc s"
    and status: "status_ok svc s" and rdy: "ready s"
  shows "skip_ok svc t"
proof -
  have tok: "inv_tokens (abs_sys svc s)" using inv by (simp add: sys_inv_def)
  have same: "skip_ok svc t" if "accounts [] s t" "sys_workers t = sys_workers s" "sys_handled t = sys_handled s"
      "task_rows (sys_world t) = task_rows (sys_world s)"
    using that by (intro skip_same [OF ok]) (simp_all add: accounts_def bad_parent_def board_def)
  from assms(1) show ?thesis
  proof cases
    case (worker k pc w)
    with skip_worker [OF tok ok rdy] show ?thesis by simp
  next
    case (coordinator c w)
    with skip_coordinator [OF inv ok status] show ?thesis by simp
  next
    case (request k q w)
    with skip_request [OF inv ok] show ?thesis by simp
  next
    case (receive_completed x w)
    with accounts_receive [OF receive_completed(2,3)] show ?thesis
      by (intro same) (auto simp: unwritten_def inbox_taken_def split: list.splits)
  next
    case (receive_terminated x w)
    with accounts_receive_terminated [OF receive_terminated(2,3)] show ?thesis
      by (intro same) (auto simp: unwritten_def inbox_taken_def split: list.splits)
  next
    case (take_completed ev w)
    with accounts_other(1) [OF take_completed(2-4)] show ?thesis by (intro same) (simp_all add: unwritten_def)
  next
    case (take_terminated ev w)
    with accounts_other(2) [OF take_terminated(2-4)] show ?thesis by (intro same) (simp_all add: unwritten_def)
  next
    case (arrive e ts)
    with accounts_other(3) show ?thesis by (intro same) simp_all
  next
    case (collector w)
    with accounts_other(4) show ?thesis by (intro same) (simp_all add: unwritten_def)
  qed
qed

end

context flawless_services
begin

lemma lossless_skips:
  "lossless svc (main_server svc id1 id2) quiet s \<Longrightarrow> skip_ok svc s"
proof (induction rule: lossless.induct)
  case (start w)
  then show ?case by (simp add: skip_ok_def empty_world_def sys_init_def)
next
  case (step s t)
  have inv: "sys_inv InitRegistry (abs_sys svc s)" using reachable_invariant lossless_reachable [OF step(1)] .
  have "ready s" "quiet (hidden (sys_world s))" "status_ok svc s"
    using lossless_healthy [OF step(1)] by (simp_all add: healthy_state_def)
  with step_through [OF step(2) inv] skip_step [OF _ inv step(4)] show ?case by blast
qed

end

end
