(* ===== verification/System_Outcome.thy ===== *)
theory System_Outcome
  imports System_Liveness System_Skips
begin

text \<open>
  What a run without failures has made of the workflows when it comes to rest: when the
  dependencies of the stored tasks name tasks and form no cycle, each task is COMPLETED, FAILED
  or SKIPPED and each execution is COMPLETED or FAILED accordingly. A task is SKIPPED exactly if
  one of its dependencies is not COMPLETED.
\<close>

section \<open>Workflows that can be resolved\<close>

definition dependency :: "'h world \<Rightarrow> ((uuid \<times> string) \<times> (uuid \<times> string)) set" where
  "dependency w = (\<Union>r \<in> set (task_rows w). (\<lambda>p. ((ExecutionID r, p), (ExecutionID r, RefID r))) ` deps (info r))"

definition resolvable :: "'h world \<Rightarrow> bool" where
  "resolvable w \<longleftrightarrow> acyclic (dependency w) \<and>
     (\<forall>r \<in> set (task_rows w). \<forall>p \<in> deps (info r).
        \<exists>r' \<in> set (task_rows w). ExecutionID r' = ExecutionID r \<and> RefID r' = p)"

lemma wf_dependency: "resolvable w \<Longrightarrow> wf (dependency w)"
  by (intro finite_acyclic_wf) (auto simp: resolvable_def dependency_def)

section \<open>One row per execution\<close>

lemma execs_written_ids:
  assumes "execs_written Q (\<lambda>e. e\<lparr>we_Status := x\<rparr>) w w'"
  shows "map we_ID (exec_rows w') = map we_ID (exec_rows w)"
proof -
  from assms obtain ts where "exec_rows w' = update_where Q (\<lambda>e. (e\<lparr>we_Status := x\<rparr>)\<lparr>we_UpdatedAt := ts\<rparr>) (exec_rows w)"
    by (auto simp: execs_written_def)
  then show ?thesis by (simp add: map_update_where)
qed

lemma worker_execs:
  "worker_firm svc key pc w pc' w' \<Longrightarrow> map we_ID (exec_rows w') = map we_ID (exec_rows w)"
  by (cases pc) (auto dest: execs_written_ids simp: unwritten_def queue_written_def inbox_appended_def tasks_written_def
      split: list.splits)

lemma coordinator_execs:
  assumes "coord_firm svc c w c' w'"
  shows "map we_ID (exec_rows w') = map we_ID (exec_rows w)"
proof (cases c)
  case (C_queue ids n)
  with assms show ?thesis by (cases ids) (auto simp: unwritten_def queue_written_def)
next
  case (C_skip_queue ids n ty)
  with assms show ?thesis by (cases ids) (auto simp: unwritten_def queue_written_def)
qed (use assms in \<open>auto dest: execs_written_ids simp: unwritten_def tasks_rewritten_def Let_def\<close>)

lemma request_execs:
  assumes "request_firm svc q w q' w'" and "distinct (map we_ID (exec_rows w))"
  shows "distinct (map we_ID (exec_rows w'))"
  using request_keys [OF assms(1)] assms(2)
  by (auto simp: execution_fresh_def execution_created_def stamp_execution_def)

lemma one_execution_step:
  assumes "firm_step svc s t" and "distinct (map we_ID (exec_rows (sys_world s)))"
  shows "distinct (map we_ID (exec_rows (sys_world t)))"
  using assms(1)
proof cases
  case (worker k pc w)
  with worker_execs [OF worker(3)] assms(2) show ?thesis by simp
next
  case (coordinator c w)
  with coordinator_execs [OF coordinator(2)] assms(2) show ?thesis by simp
next
  case (request k q w)
  with request_execs [OF request(3) assms(2)] show ?thesis by simp
next
  case (receive_completed x w)
  with assms(2) show ?thesis by (auto simp: unwritten_def inbox_taken_def split: list.splits)
next
  case (receive_terminated x w)
  with assms(2) show ?thesis by (auto simp: unwritten_def inbox_taken_def split: list.splits)
qed (use assms(2) in \<open>simp_all add: unwritten_def\<close>)

context flawless_services
begin

lemma lossless_one_execution:
  "lossless svc (main_server svc id1 id2) quiet s \<Longrightarrow> distinct (map we_ID (exec_rows (sys_world s)))"
proof (induction rule: lossless.induct)
  case (start w)
  then show ?case by (simp add: empty_world_def sys_init_def)
next
  case (step s t)
  have "sys_inv InitRegistry (abs_sys svc s)" using reachable_invariant lossless_reachable [OF step(1)] .
  moreover have "ready s" "quiet (hidden (sys_world s))" using lossless_healthy [OF step(1)] by (simp_all add: healthy_state_def)
  ultimately show ?case using step_through [OF step(2)] one_execution_step step(4) by blast
qed

end

section \<open>At rest every task is decided\<close>

lemma settled_places:
  assumes "settled s"
  shows "places (abs_sys svc s) = waiting (b_tasks (board svc (sys_world s))) + mset (map fst (sys_handled s))"
proof -
  have "slots worker_tokens (sys_workers s) = {#}"
    using assms unfolding settled_def slots_def by (simp add: concat_eq_Nil_conv) (metis worker_tokens.simps(1))
  moreover have "slots request_tokens (sys_requests s) = {#}"
    using assms unfolding settled_def slots_def by (simp add: concat_eq_Nil_conv) (metis request_tokens.simps(2,3))
  ultimately show ?thesis
    using assms
    by (simp add: settled_def places_def coord_places_def queued_def announced_def board_def List.map_filter_simps)
qed

lemma settled_pending: "settled s \<Longrightarrow> pending (sys_workers s) = {#}"
  unfolding settled_def pending_def slots_def by (simp add: concat_eq_Nil_conv) (metis worker_pending.simps(2))

context flawless_services
begin

lemma settled_handled:
  assumes s: "lossless svc (main_server svc id1 id2) quiet s" and rest: "settled s" and dag: "resolvable (sys_world s)"
    and "r \<in> set (task_rows (sys_world s))"
  shows "\<exists>b. (ID r, b) \<in> set (sys_handled s)"
proof -
  let ?w = "sys_world s" and ?hs = "sys_handled s"
  let ?xs = "b_tasks (board svc ?w)"
  have "sys_inv InitRegistry (abs_sys svc s)" using reachable_invariant lossless_reachable [OF s] .
  then have tok: "inv_tokens (abs_sys svc s)" and degrees: "degrees_ok ?xs ?hs"
    by (simp_all add: sys_inv_def inv_degrees_def)
  have kept: "waiting ?xs + mset (map fst ?hs) = task_ids (board svc ?w)"
    using lossless_healthy [OF s] settled_places [OF rest, of svc] by (simp add: healthy_state_def kept_def)
  have handled: "ID r \<in> fst ` set ?hs" if "r \<in> set (task_rows ?w)" "InDegree r = 0" for r
  proof -
    have "distinct (map i_ID ?xs)" using tok by (simp add: inv_tokens_def)
    then have "ID r \<notin># waiting ?xs"
      using that by (auto simp: waiting_def board_def comp_def dest: distinct_key_unique)
    moreover have "ID r \<in># task_ids (board svc ?w)" using that(1) by (auto simp: task_ids_def board_def)
    ultimately show ?thesis unfolding kept [symmetric] by auto
  qed
  have "\<forall>r \<in> set (task_rows ?w). x = (ExecutionID r, RefID r) \<longrightarrow> ID r \<in> fst ` set ?hs" for x
  proof (induction x rule: wf_induct_rule [OF wf_dependency [OF dag]])
    case (1 x)
    show ?case
    proof (intro ballI impI)
      fix r assume r: "r \<in> set (task_rows ?w)" "x = (ExecutionID r, RefID r)"
      have "unresolved ?xs ?hs (info r) = {}"
      proof -
        have "resolved ?xs ?hs True (ExecutionID r) p \<or> resolved ?xs ?hs False (ExecutionID r) p" if p: "p \<in> deps (info r)" for p
        proof -
          from dag r(1) p obtain r' where r': "r' \<in> set (task_rows ?w)" "ExecutionID r' = ExecutionID r" "RefID r' = p"
            by (auto simp: resolvable_def)
          have "((ExecutionID r', RefID r'), x) \<in> dependency ?w" using r r' p by (auto simp: dependency_def)
          from 1 [OF this] r'(1) obtain b where "(ID r', b) \<in> set ?hs" by auto
          moreover have "has_row ?xs (ID r') (ExecutionID r) p"
            using r' by (auto simp: has_row_def rows_def board_def)
          ultimately show ?thesis by (cases b) (auto simp: resolved_def)
        qed
        then show ?thesis by (auto simp: unresolved_def)
      qed
      moreover have "InDegree r = int (card (unresolved ?xs ?hs (info r)))"
        using degrees r(1) by (force simp: degrees_ok_def board_def)
      ultimately show "ID r \<in> fst ` set ?hs" using handled [OF r(1)] by simp
    qed
  qed
  from this [of "(ExecutionID r, RefID r)"] assms(4) have "ID r \<in> fst ` set ?hs" by blast
  then show ?thesis by auto
qed

lemma settled_status:
  assumes s: "lossless svc (main_server svc id1 id2) quiet s" and rest: "settled s" and dag: "resolvable (sys_world s)"
    and r: "r \<in> set (task_rows (sys_world s))"
  shows "Status r = StatusCompleted \<and> (ID r, True) \<in> set (sys_handled s) \<or>
    (Status r = StatusFailed \<or> Status r = StatusSkipped) \<and> ExecutionID r \<in> failed_execs (sys_world s)"
proof -
  from settled_handled [OF assms] obtain b where b: "(ID r, b) \<in> set (sys_handled s)" by blast
  have "row_ok (marks (abs_sys svc s)) (pending (sys_workers s)) (failed_execs (sys_world s)) r"
    using lossless_healthy [OF s] r by (simp add: healthy_state_def status_ok_def)
  with handled_marked [OF b] b settled_pending [OF rest] show ?thesis by (cases b) (simp_all add: row_ok_def)
qed

text \<open>Which tasks are skipped.\<close>

lemma settled_skipped:
  assumes s: "lossless svc (main_server svc id1 id2) quiet s" and rest: "settled s" and dag: "resolvable (sys_world s)"
    and r: "r \<in> set (task_rows (sys_world s))"
  shows "Status r = StatusSkipped \<longleftrightarrow> (\<exists>r' \<in> set (task_rows (sys_world s)).
    ExecutionID r' = ExecutionID r \<and> RefID r' \<in> deps (info r) \<and> Status r' \<noteq> StatusCompleted)"
    (is "?skipped \<longleftrightarrow> ?parent")
proof
  let ?xs = "b_tasks (board svc (sys_world s))"
  have status: "status_ok svc s" using lossless_healthy [OF s] by (simp add: healthy_state_def)
  have skip: "skip_row (marks (abs_sys svc s)) (running (sys_workers s)) (bad_parent svc s) r"
    using lossless_skips [OF s] r by (simp add: skip_ok_def)
  {
    assume ?skipped
    with skip have "bad_parent svc s r" by (simp add: skip_row_def)
    then obtain i p where p: "p \<in> deps (info r)" "(i, False) \<in> set (sys_handled s)" "has_row ?xs i (ExecutionID r) p"
      by (auto simp: bad_parent_def resolved_def)
    from p(3) obtain r' where r': "r' \<in> set (task_rows (sys_world s))" "ID r' = i" "ExecutionID r' = ExecutionID r" "RefID r' = p"
      by (auto simp: has_row_def rows_def board_def)
    have "Status r' = StatusFailed \<or> Status r' = StatusSkipped"
      using status r'(1,2) handled_marked [OF p(2)] by (auto simp: status_ok_def row_ok_def)
    with r' p(1) show ?parent by (intro bexI [of _ r']) auto
  next
    assume ?parent
    then obtain r' where r': "r' \<in> set (task_rows (sys_world s))" "ExecutionID r' = ExecutionID r"
      "RefID r' \<in> deps (info r)" "Status r' \<noteq> StatusCompleted" by blast
    from settled_handled [OF s rest dag r'(1)] obtain b where b: "(ID r', b) \<in> set (sys_handled s)" by blast
    have "\<not> b" using status r'(1,4) handled_marked [OF b] by (cases b) (auto simp: status_ok_def row_ok_def)
    moreover have "has_row ?xs (ID r') (ExecutionID r) (RefID r')"
      using r' by (auto simp: has_row_def rows_def board_def)
    ultimately have "resolved ?xs (sys_handled s) False (i_Exec (info r)) (RefID r')"
      using b by (auto simp: resolved_def)
    moreover have "sys_inv InitRegistry (abs_sys svc s)" using reachable_invariant lossless_reachable [OF s] .
    then have "skips_ok ?xs (sys_handled s)" by (simp add: sys_inv_def inv_degrees_def)
    moreover have "info r \<in> set ?xs" using r by (simp add: board_def)
    ultimately have "SkipHint r" using r'(3) by (force simp: skips_ok_def)
    with skip have "(ID r, True) \<notin># marks (abs_sys svc s)" "Status r \<noteq> StatusFailed" by (simp_all add: skip_row_def)
    moreover from settled_handled [OF s rest dag r] obtain c where c: "(ID r, c) \<in> set (sys_handled s)" by blast
    ultimately have "(ID r, False) \<in># marks (abs_sys svc s)" using handled_marked [OF c] by (cases c) auto
    with status r \<open>Status r \<noteq> StatusFailed\<close> show ?skipped by (auto simp: status_ok_def row_ok_def)
  }
qed

lemma settled_execution:
  assumes s: "lossless svc (main_server svc id1 id2) quiet s" and rest: "settled s" and dag: "resolvable (sys_world s)"
    and e: "e \<in> set (exec_rows (sys_world s))" and has: "\<exists>r \<in> set (task_rows (sys_world s)). ExecutionID r = we_ID e"
  shows "all_completed (sys_world s) (we_ID e) \<Longrightarrow> we_Status e = WorkflowCompleted"
    and "\<not> all_completed (sys_world s) (we_ID e) \<Longrightarrow> we_Status e = WorkflowFailed \<and>
      (\<exists>r \<in> set (task_rows (sys_world s)). ExecutionID r = we_ID e \<and> Status r = StatusFailed)"
proof -
  assume all: "all_completed (sys_world s) (we_ID e)"
  have "(ID r, True) \<in> set (sys_handled s)" if "r \<in> set (task_rows (sys_world s))" "ExecutionID r = we_ID e" for r
    using settled_status [OF s rest dag that(1)] all that by (auto simp: all_completed_def)
  then have "all_handled s (we_ID e)" by (auto simp: all_handled_def row_keys_def row_key_def)
  moreover have "has_tasks s (we_ID e)"
  proof -
    from has obtain r where "r \<in> set (task_rows (sys_world s))" "ExecutionID r = we_ID e" by blast
    with key_name [OF this(1)] show ?thesis unfolding has_tasks_def by metis
  qed
  moreover have "finishes_ok s" using lossless_healthy [OF s] by (simp add: healthy_state_def)
  moreover have "\<not> finishing (sys_coord s) (we_ID e)" using rest by (simp add: settled_def finishing_def)
  ultimately show "we_Status e = WorkflowCompleted" using e by (auto simp: finishes_ok_def exec_completed_def)
next
  assume "\<not> all_completed (sys_world s) (we_ID e)"
  then obtain r where "r \<in> set (task_rows (sys_world s))" "ExecutionID r = we_ID e" "Status r \<noteq> StatusCompleted"
    by (auto simp: all_completed_def)
  with settled_status [OF s rest dag, of r] have failed: "we_ID e \<in> failed_execs (sys_world s)" by auto
  then obtain e' where "e' \<in> set (exec_rows (sys_world s))" "we_ID e' = we_ID e" "we_Status e' = WorkflowFailed"
    by (auto simp: failed_execs_def)
  with e lossless_one_execution [OF s] have "we_Status e = WorkflowFailed" by (auto dest: distinct_key_unique)
  moreover have "failed_has_task (sys_world s)" using lossless_healthy [OF s] by (simp add: healthy_state_def status_ok_def)
  ultimately show "we_Status e = WorkflowFailed \<and>
      (\<exists>r \<in> set (task_rows (sys_world s)). ExecutionID r = we_ID e \<and> Status r = StatusFailed)"
    using failed by (auto simp: failed_has_task_def)
qed

end

section \<open>The graph of the stored tasks does not change\<close>

lemma resolvable_cong:
  assumes "rows (b_tasks (board svc w')) = rows (b_tasks (board svc w))"
  shows "resolvable w' = resolvable w"
proof -
  let ?g = "\<lambda>x. (i_Exec x, i_Ref x, deps x)"
  have g: "?g ` rows (b_tasks (board svc v)) = (\<lambda>r. (ExecutionID r, RefID r, deps (info r))) ` set (task_rows v)" for v :: "'a world"
    by (simp add: rows_def board_def image_image)
  have dep: "dependency v = (\<Union>(ex, q, D) \<in> ?g ` rows (b_tasks (board svc v)). (\<lambda>p. ((ex, p), (ex, q))) ` D)" for v :: "'a world"
    unfolding g by (auto simp: dependency_def)
  have known: "(\<forall>r \<in> set (task_rows v). \<forall>p \<in> deps (info r). \<exists>r' \<in> set (task_rows v). ExecutionID r' = ExecutionID r \<and> RefID r' = p) =
      (\<forall>(ex, q, D) \<in> ?g ` rows (b_tasks (board svc v)). \<forall>p \<in> D. \<exists>(ex', q', D') \<in> ?g ` rows (b_tasks (board svc v)). ex' = ex \<and> q' = p)"
    for v :: "'a world"
    unfolding g by auto
  show ?thesis by (simp only: resolvable_def known dep assms)
qed

lemma move_graph:
  assumes "move reg a a'" and "\<And>e ts. R_create e ts \<notin> set (a_requests a)"
  shows "rows (b_tasks (a_board a')) = rows (b_tasks (a_board a))"
  using assms(1)
proof cases
  case (worker k m pc b)
  with worker_move_tokens(1) [OF worker(3)] show ?thesis by simp
next
  case (coordinator hs c b)
  with coord_move_rows(1) [OF coordinator(2)] show ?thesis by simp
next
  case (request k q b)
  have "a_requests a ! k \<noteq> R_create e ts" for e ts using assms(2) nth_mem [OF request(2)] by metis
  with request_move_board [OF request(3)] request(1) show ?thesis by auto
qed simp_all

context flawless_services
begin

lemma scheduled_graph:
  assumes s: "lossless svc (main_server svc id1 id2) quiet s" and stored: "\<And>e ts. R_create e ts \<notin> set (sys_requests s)"
  shows "rows (b_tasks (board svc (sys_world (scheduled svc (main_server svc id1 id2) \<sigma> s n)))) =
    rows (b_tasks (board svc (sys_world s)))"
proof (induction n)
  case (Suc n)
  let ?s = "scheduled svc (main_server svc id1 id2) \<sigma> s n"
  have none: "R_create e ts \<notin> set (sys_requests ?s)" for e ts
    using stored by (induction n) (auto dest: turn_requests)
  have "sys_inv InitRegistry (abs_sys svc ?s)" using reachable_invariant lossless_reachable [OF scheduled_lossless [OF s]] .
  with turn_step [of svc "main_server svc id1 id2" "\<sigma> n" ?s] have
    "rows (b_tasks (board svc (sys_world (turn svc (main_server svc id1 id2) (\<sigma> n) ?s)))) = rows (b_tasks (board svc (sys_world ?s)))"
    using move_graph [OF step_is_move [of id1 id2 ?s]] none by auto
  with Suc show ?case by simp
qed simp

lemmas scheduled_resolvable = resolvable_cong [OF scheduled_graph]

end

section \<open>How often anything happens\<close>

text \<open>The turns among the first \<open>n\<close> in which the goroutine had something to do.\<close>

definition busy_turns :: "'h services \<Rightarrow> 'h server \<Rightarrow> (nat \<Rightarrow> goroutine) \<Rightarrow> 'h sys \<Rightarrow> nat \<Rightarrow> nat" where
  "busy_turns svc sv \<sigma> s n = length (filter (\<lambda>m. enabled (scheduled svc sv \<sigma> s m) (\<sigma> m)) [0..<n])"

context flawless_services
begin

lemma busy_turns_work:
  assumes s: "lossless svc (main_server svc id1 id2) quiet s"
  shows "busy_turns svc (main_server svc id1 id2) \<sigma> s n + work (scheduled svc (main_server svc id1 id2) \<sigma> s n) \<le> work s"
proof (induction n)
  case (Suc n)
  let ?s = "scheduled svc (main_server svc id1 id2) \<sigma> s n"
  have same: "work t = work u" if "unmoved u t" for t u :: "'h sys"
    using that world_work_same(1) by (auto simp: unmoved_def work_def)
  have busy: "busy_turns svc (main_server svc id1 id2) \<sigma> s (Suc n) =
      busy_turns svc (main_server svc id1 id2) \<sigma> s n + (if enabled ?s (\<sigma> n) then 1 else 0)"
    by (simp add: busy_turns_def)
  note works = lossless_works [OF scheduled_lossless [OF s], of \<sigma> n "\<sigma> n"]
  show ?case
  proof (cases "enabled ?s (\<sigma> n)")
    case True
    with works Suc busy show ?thesis by simp
  next
    case False
    with works have "unmoved ?s (turn svc (main_server svc id1 id2) (\<sigma> n) ?s)" by simp
    from same [OF this] False Suc busy show ?thesis by simp
  qed
qed (simp add: busy_turns_def)

end

end
