(* ===== verification/Exact_Effects.thy ===== *)
theory Exact_Effects
  imports Flawless
begin

text \<open>
  The rounds of the worker and the handlers of the coordinator when no call fails. \<open>Worker\<close> and
  \<open>Coordinator\<close> prove what a round may do whatever fails; here every write happens, and in the
  order of the code.
\<close>

section \<open>Effects without failures\<close>

definition skip_done :: "wires \<Rightarrow> Task \<Rightarrow> 'h world \<Rightarrow> 'h world \<Rightarrow> bool" where
  "skip_done ws t w w' \<longleftrightarrow>
     (\<exists>out. (row_written (ID t) (skipped_row out) OO
        sent_terminated ws (terminated_event t TaskTerminationSkipped
          ''skipped due to parent task failure'')) w w')"

definition success_done :: "wires \<Rightarrow> Task \<Rightarrow> string \<Rightarrow> 'h world \<Rightarrow> 'h world \<Rightarrow> bool" where
  "success_done ws t out =
     row_written (ID t) (completed out) OO sent_completed ws (completed_event t)"

definition retry_done :: "'h services \<Rightarrow> wires \<Rightarrow> Task \<Rightarrow> 'h world \<Rightarrow> 'h world \<Rightarrow> bool" where
  "retry_done svc ws t =
     row_swapped (ID t) (Version t) (retried (Version t)) OO pushed (w_retry_key ws) (uuid_String svc (ID t))"

definition failure_done :: "wires \<Rightarrow> Task \<Rightarrow> string \<Rightarrow> 'h world \<Rightarrow> 'h world \<Rightarrow> bool" where
  "failure_done ws t msg w w' \<longleftrightarrow>
     (\<exists>out. (row_written (ID t) (failed_row msg out) OO failed_execution (ExecutionID t) OO
        sent_terminated ws (terminated_event t TaskTerminationFailed msg)) w w')"

definition handle_failure_done ::
  "'h services \<Rightarrow> wires \<Rightarrow> Task \<Rightarrow> string \<Rightarrow> 'h world \<Rightarrow> 'h world \<Rightarrow> bool" where
  "handle_failure_done svc ws t msg =
     (if RetryCount t < MaxRetries t then retry_done svc ws t else failure_done ws t msg)"

definition unknown_done :: "'h services \<Rightarrow> wires \<Rightarrow> Task \<Rightarrow> 'h world \<Rightarrow> 'h world \<Rightarrow> bool" where
  "unknown_done svc ws t w w' \<longleftrightarrow>
     (\<exists>out. (row_written (ID t) (failed_row ''unknown action'' out) OO
        sent_terminated ws (terminated_event t TaskTerminationFailed ''unknown action'') OO
        failed_execution (ExecutionID t) OO
        handle_failure_done svc ws t ''unknown action'') w w')"

definition run_done ::
  "'h services \<Rightarrow> wires \<Rightarrow> TaskRegistry \<Rightarrow> Context \<Rightarrow> Task \<Rightarrow> 'h world \<Rightarrow> 'h world \<Rightarrow> bool" where
  "run_done svc ws reg ctx t =
     (case reg (Action t) of
        None \<Rightarrow> unknown_done svc ws t
      | Some handler \<Rightarrow>
          (case handler ctx (Input t) of
             Inr out \<Rightarrow> success_done ws t out
           | Inl err \<Rightarrow> handle_failure_done svc ws t (Error err)))"

definition task_done ::
  "'h services \<Rightarrow> wires \<Rightarrow> string \<Rightarrow> TaskRegistry \<Rightarrow> Context \<Rightarrow> Task \<Rightarrow> 'h world \<Rightarrow> 'h world \<Rightarrow> bool" where
  "task_done svc ws worker reg ctx t =
     (if SkipHint t then skip_done ws t
      else row_swapped (ID t) (Version t) (claimed worker (Version t)) OO
        run_done svc ws reg ctx (t\<lparr>Version := Version t + 1\<rparr>))"

text \<open>A round on a queue whose head is the identifier of \<open>t\<close>.\<close>

definition round_done ::
  "'h services \<Rightarrow> wires \<Rightarrow> string \<Rightarrow> string \<Rightarrow> TaskRegistry \<Rightarrow> Context \<Rightarrow> Task \<Rightarrow> string list \<Rightarrow>
     'h world \<Rightarrow> 'h world \<Rightarrow> bool" where
  "round_done svc ws key worker reg ctx t xs w w' \<longleftrightarrow>
     (\<exists>w1. queue_written ((redis_list w)(key := xs)) w w1 \<and> task_done svc ws worker reg ctx t w1 w')"

text \<open>An action whose output, or error message, is taken by the \<open>jsonb\<close> column.\<close>

definition plain_action :: "TaskRegistry \<Rightarrow> Context \<Rightarrow> Task \<Rightarrow> bool" where
  "plain_action reg ctx t \<longleftrightarrow>
     (case reg (Action t) of
        None \<Rightarrow> True
      | Some handler \<Rightarrow>
          (case handler ctx (Input t) of
             Inr out \<Rightarrow> plain_json out
           | Inl err \<Rightarrow> plain_json (error_output (Error err))))"

text \<open>
  The handling of an event: the children are rewritten, all of those that waited for this parent
  alone are queued, and if there is none a completion that was the last one of its execution
  marks the execution.
\<close>

definition resolve_done ::
  "'h services \<Rightarrow> string \<Rightarrow> (Task \<Rightarrow> string \<Rightarrow> bool) \<Rightarrow> (Task \<Rightarrow> Task) \<Rightarrow> bool \<Rightarrow> uuid \<Rightarrow> string \<Rightarrow>
     'h world \<Rightarrow> 'h world \<Rightarrow> bool" where
  "resolve_done svc key dep f finishes ex p w w' \<longleftrightarrow>
     (\<exists>ids w1. tasks_rewritten (children dep ex p) f w w1 \<and> mset ids = unblocked dep ex p w \<and>
        (if ids \<noteq> [] then queue_written ((redis_list w)(key := redis_list w key @ map (uuid_String svc) ids)) w1 w'
         else if finishes \<and> (\<forall>t \<in> set (task_rows w1). ExecutionID t = ex \<longrightarrow> Status t = StatusCompleted)
           then execs_written (status_writable ex WorkflowCompleted) (\<lambda>e. e\<lparr>we_Status := WorkflowCompleted\<rparr>) w1 w'
         else unwritten w1 w'))"

lemma effect_log [simp]:
  "row_written tid f w (v\<lparr>mlog := l\<rparr>) = row_written tid f w v"
  "failed_execution ex w (v\<lparr>mlog := l\<rparr>) = failed_execution ex w v"
  "sent_completed ws ev w (v\<lparr>mlog := l\<rparr>) = sent_completed ws ev w v"
  "sent_terminated ws ev' w (v\<lparr>mlog := l\<rparr>) = sent_terminated ws ev' w v"
  "queue_written ls w (v\<lparr>mlog := l\<rparr>) = queue_written ls w v"
  "inbox_appended c P w (v\<lparr>mlog := l\<rparr>) = inbox_appended c P w v"
  by (simp_all add: row_written_def failed_execution_def sent_completed_def sent_terminated_def
      inbox_appended_def queue_written_def)

lemma effect_log_first [simp]:
  "row_written tid f (w\<lparr>mlog := l\<rparr>) = row_written tid f w"
  "row_swapped tid i f (w\<lparr>mlog := l\<rparr>) = row_swapped tid i f w"
  by (simp_all add: fun_eq_iff row_written_def row_swapped_def tasks_written_def)

lemma done_log_first [simp]:
  "success_done ws t out (w\<lparr>mlog := l\<rparr>) w' = success_done ws t out w w'"
  "handle_failure_done svc ws t msg (w\<lparr>mlog := l\<rparr>) w' = handle_failure_done svc ws t msg w w'"
  by (simp_all add: success_done_def handle_failure_done_def retry_done_def failure_done_def relcompp.simps)

lemma log_free_done:
  "log_free (skip_done ws t)" "log_free (success_done ws t out)" "log_free (handle_failure_done svc ws t msg)"
  by (simp_all add: log_free_def skip_done_def success_done_def handle_failure_done_def retry_done_def
      failure_done_def relcompp.simps)

lemma log_free_task_done: "log_free (task_done svc ws worker reg ctx t)"
proof -
  have unknown: "log_free (unknown_done svc ws t)" for t
    by (simp add: log_free_def unknown_done_def relcompp.simps log_free_done(3) [unfolded log_free_def, rule_format])
  have run: "log_free (run_done svc ws reg ctx t)" for t
    by (simp add: run_done_def unknown log_free_done split: option.split sum.split)
  then show ?thesis
    by (simp add: log_free_def task_done_def relcompp.simps log_free_done(1) [unfolded log_free_def, rule_format])
qed

section \<open>Worker\<close>

context flawless_services
begin

abbreviation pool_ws :: "string \<Rightarrow> wires" where
  "pool_ws rkey \<equiv> redis_wires svc rkey"

lemma wires_simps [simp]:
  "w_retry_key (pool_ws rkey) = rkey"
  "sent_completed (pool_ws rkey) ev = inbox_appended completed_channel (\<lambda>m. unmarshal_completed svc m = Some ev)"
  "sent_terminated (pool_ws rkey) ev' = inbox_appended terminated_channel (\<lambda>m. unmarshal_terminated svc m = Some ev')"
  by (simp_all add: redis_wires_def sent_completed_def [abs_def] sent_terminated_def [abs_def])

lemma success_through:
  assumes "run_state (Worker_handleTaskSuccess (pool.wk key rkey name reg) t out) w = (u, w')"
    and "quiet (hidden w)" and "plain_json out"
  shows "success_done (pool_ws rkey) t out w w' \<and> quiet (hidden w')"
proof -
  obtain r1 w1 where mark: "run_state (MarkCompleted (NewTaskRepository svc) (ID t) out) w = (r1, w1)" by fastforce
  define w2 where "w2 = w1\<lparr>mlog := mlog w1 @ [MInc WorkerTasksProcessedTotal [Action t, ''success'']]\<rparr>"
  obtain r3 w3 where pub: "run_state (PublishTaskCompleted (NewRedisEventBus svc) (completed_event t)) w2 = (r3, w3)"
    by fastforce
  have "w' = w3"
    using assms(1) mark pub by (simp add: Worker_handleTaskSuccess_def w2_def completed_event_def)
  moreover have "row_written (ID t) (completed out) w w2" and q: "quiet (hidden w2)"
    using MarkCompleted_through [OF mark assms(2,3)] by (simp_all add: w2_def row_written_def)
  ultimately show ?thesis
    using Publish_through(1) [OF pub q] by (auto simp: success_done_def)
qed

lemma skip_through:
  assumes "run_state (Worker_handleSkippedTask (pool.wk key rkey name reg) t) w = (u, w')" and "quiet (hidden w)"
  shows "skip_done (pool_ws rkey) t w w' \<and> quiet (hidden w')"
proof -
  let ?ev = "terminated_event t TaskTerminationSkipped ''skipped due to parent task failure''"
  obtain r1 w1 where mark: "run_state (MarkSkipped (NewTaskRepository svc) (ID t)) w = (r1, w1)" by fastforce
  obtain r2 w2 where pub: "run_state (PublishTaskTerminated (NewRedisEventBus svc) ?ev) w1 = (r2, w2)" by fastforce
  note marked = MarkSkipped_through [OF mark assms(2)]
  then have "\<exists>l. w' = w2\<lparr>mlog := l\<rparr>"
    using assms(1) mark pub by (auto simp: Worker_handleSkippedTask_def terminated_event_def NewTaskTerminatedEvent_def)
  moreover obtain out where "row_written (ID t) (skipped_row out) w w1"
    using marked by (auto simp: row_written_def)
  moreover note Publish_through(2) [OF pub]
  ultimately show ?thesis using marked
    by (auto simp: skip_done_def intro!: exI [of _ out] relcomppI [of _ w w1])
qed

lemma failed_permanently_through:
  assumes "run_state (Worker_markTaskFailedPermanently (pool.wk key rkey name reg) t err) w = (u, w')"
    and "quiet (hidden w)" and "plain_json (error_output (Error err))"
  shows "failure_done (pool_ws rkey) t (Error err) w w' \<and> quiet (hidden w')"
proof -
  obtain r1 w1 where mark: "run_state (MarkFailed (NewTaskRepository svc) (ID t) (Error err)) w = (r1, w1)" by fastforce
  define w2 where "w2 = w1\<lparr>mlog := mlog w1 @ [MInc TaskRetryExhaustionTotal [Action t],
    MInc WorkerTasksProcessedTotal [Action t, ''failed'']]\<rparr>"
  obtain r3 w3 where upd: "run_state (UpdateStatus (NewWorkflowRepository svc) (ExecutionID t) WorkflowFailed) w2 = (r3, w3)"
    by fastforce
  obtain r4 w4 where pub: "run_state (PublishTaskTerminated (NewRedisEventBus svc)
      (terminated_event t TaskTerminationFailed (Error err))) w3 = (r4, w4)"
    by fastforce
  have "w' = w4"
    using assms(1) mark upd pub
    by (simp add: Worker_markTaskFailedPermanently_def w2_def terminated_event_def NewTaskTerminatedEvent_def)
  moreover obtain out where out: "row_written (ID t) (failed_row (Error err) out) w w2"
    using MarkFailed_through [OF mark assms(2,3)] by (auto simp: w2_def row_written_def)
  moreover have q: "quiet (hidden w2)"
    using MarkFailed_through [OF mark assms(2,3)] by (simp add: w2_def)
  moreover note updated = UpdateStatus_through [OF upd q]
  moreover note Publish_through(2) [OF pub]
  ultimately show ?thesis
    unfolding failure_done_def failed_execution_def wires_simps by blast
qed

lemma retry_through:
  assumes "run_state (Worker_retryTask svc (pool.wk key rkey name reg) t) w = (u, w')" and "quiet (hidden w)"
    and "\<exists>r \<in> set (task_rows w). ID r = ID t \<and> Version r = Version t"
  shows "retry_done svc (pool_ws rkey) t w w' \<and> quiet (hidden w')"
proof -
  define w1 where "w1 = w\<lparr>mlog := mlog w @ [MInc WorkerRetriesTotal [Action t, Itoa (RetryCount t + 1)]]\<rparr>"
  obtain r2 w2 where cas: "run_state (IncrementRetryCount (NewTaskRepository svc) (ID t) (Version t)) w1 = (r2, w2)"
    by fastforce
  obtain r3 w3 where push: "run_state (Push (NewRedisQueue svc rkey) (uuid_String svc (ID t))) w2 = (r3, w3)" by fastforce
  have frame: "quiet (hidden w1)" "task_rows w1 = task_rows w" "tasks_written P f w1 = tasks_written P f w" for P f
    using assms(2) by (simp_all add: w1_def tasks_written_def fun_eq_iff)
  note swapped = IncrementRetryCount_through [OF cas frame(1), unfolded frame(2,3), OF assms(3)]
  then have "w' = w3" using assms(1) cas push by (simp add: Worker_retryTask_def w1_def)
  with swapped Push_through [OF push] assms(3) show ?thesis
    unfolding retry_done_def by (intro conjI relcomppI [of _ w w2]) (auto simp: row_swapped_def pushed_def)
qed

lemma failure_through:
  assumes "run_state (Worker_handleTaskFailure svc (pool.wk key rkey name reg) t err) w = (u, w')"
    and "quiet (hidden w)" and "plain_json (error_output (Error err))"
    and "\<exists>r \<in> set (task_rows w). ID r = ID t \<and> Version r = Version t"
  shows "handle_failure_done svc (pool_ws rkey) t (Error err) w w' \<and> quiet (hidden w')"
  using assms(1) retry_through [OF _ assms(2,4)] failed_permanently_through [OF _ assms(2,3)]
  by (auto simp: Worker_handleTaskFailure_def handle_failure_done_def CanRetry_def split: if_splits)

lemma unknown_output_plain: "plain_json (error_output ''unknown action'')"
  by code_simp

lemma unknown_through:
  assumes "run_state (Worker_executeTaskAction (pool.wk key rkey name reg) ctx t) w = (r, w')"
    and "quiet (hidden w)" and "reg (Action t) = None"
  shows "r = Inl (Err ''unknown action'') \<and> quiet (hidden w') \<and>
    (\<exists>out. (row_written (ID t) (failed_row ''unknown action'' out) OO
      sent_terminated (pool_ws rkey) (terminated_event t TaskTerminationFailed ''unknown action'') OO
      failed_execution (ExecutionID t)) w w')"
proof -
  obtain r1 w1 where mark: "run_state (MarkFailed (NewTaskRepository svc) (ID t) ''unknown action'') w = (r1, w1)"
    by fastforce
  define w2 where "w2 = w1\<lparr>mlog := mlog w1 @ [MInc WorkerRegistryErrorsTotal [Action t],
    MInc WorkerTasksProcessedTotal [Action t, ''failed'']]\<rparr>"
  obtain r3 w3 where pub: "run_state (PublishTaskTerminated (NewRedisEventBus svc)
      (terminated_event t TaskTerminationFailed ''unknown action'')) w2 = (r3, w3)"
    by fastforce
  obtain r4 w4 where upd: "run_state (UpdateStatus (NewWorkflowRepository svc) (ExecutionID t) WorkflowFailed) w3 = (r4, w4)"
    by fastforce
  have "w' = w4" "r = Inl (Err ''unknown action'')"
    using assms(1,3) mark upd pub
    by (simp_all add: Worker_executeTaskAction_def w2_def terminated_event_def NewTaskTerminatedEvent_def)
  moreover obtain out where "row_written (ID t) (failed_row ''unknown action'' out) w w2" and q: "quiet (hidden w2)"
    using MarkFailed_through [OF mark assms(2) unknown_output_plain] by (auto simp: w2_def row_written_def)
  moreover note published = Publish_through(2) [OF pub q]
  moreover note UpdateStatus_through [OF upd]
  ultimately show ?thesis unfolding failed_execution_def wires_simps by blast
qed

text \<open>The row that a worker has claimed is still there after the effects of an unregistered action.\<close>

lemma failed_keeps_rows:
  assumes "(row_written tid (failed_row msg out) OO sent_terminated ws ev OO failed_execution ex) w w'"
  shows "map (\<lambda>r. (ID r, Version r)) (task_rows w') = map (\<lambda>r. (ID r, Version r)) (task_rows w)"
  using assms
  by (auto simp: row_written_def tasks_written_def sent_terminated_def inbox_appended_def failed_execution_def
      execs_written_def update_where_def failed_row_def)

lemma swapped_row:
  assumes "row_swapped tid v (claimed name v) w w'"
  shows "\<exists>r \<in> set (task_rows w'). ID r = tid \<and> Version r = v + 1"
  using assms by (fastforce simp: row_swapped_def tasks_written_def set_update_where claimed_def)

lemma run_through:
  assumes "run_state (do { r \<leftarrow> Worker_executeTaskAction (pool.wk key rkey name reg) ctx t;
      (case r of Inl err \<Rightarrow> Worker_handleTaskFailure svc (pool.wk key rkey name reg) t err
       | Inr out \<Rightarrow> Worker_handleTaskSuccess (pool.wk key rkey name reg) t out) }) w = (u, w')"
    and "quiet (hidden w)" and "plain_action reg ctx t"
    and row: "\<exists>r \<in> set (task_rows w). ID r = ID t \<and> Version r = Version t"
  shows "run_done svc (pool_ws rkey) reg ctx t w w' \<and> quiet (hidden w')"
proof -
  obtain r w1 where exec: "run_state (Worker_executeTaskAction (pool.wk key rkey name reg) ctx t) w = (r, w1)" by fastforce
  with assms(1) have handle: "run_state (case r of Inl err \<Rightarrow> Worker_handleTaskFailure svc (pool.wk key rkey name reg) t err
      | Inr out \<Rightarrow> Worker_handleTaskSuccess (pool.wk key rkey name reg) t out) w1 = (u, w')" by simp
  show ?thesis
  proof (cases "reg (Action t)")
    case None
    note unknown = unknown_through [OF exec assms(2) None]
    then obtain out where out: "(row_written (ID t) (failed_row ''unknown action'' out) OO
        sent_terminated (pool_ws rkey) (terminated_event t TaskTerminationFailed ''unknown action'') OO
        failed_execution (ExecutionID t)) w w1" by blast
    from row have "(ID t, Version t) \<in> set (map (\<lambda>r. (ID r, Version r)) (task_rows w))"
      by (metis (no_types, lifting) image_eqI list.set_map)
    then have "(ID t, Version t) \<in> set (map (\<lambda>r. (ID r, Version r)) (task_rows w1))"
      unfolding failed_keeps_rows [OF out] .
    then have row1: "\<exists>r \<in> set (task_rows w1). ID r = ID t \<and> Version r = Version t" by auto
    from handle unknown have "run_state (Worker_handleTaskFailure svc (pool.wk key rkey name reg) t
        (Err ''unknown action'')) w1 = (u, w')" by simp
    with failure_through [OF this] unknown row1 unknown_output_plain
    have "handle_failure_done svc (pool_ws rkey) t ''unknown action'' w1 w' \<and> quiet (hidden w')" by simp
    with out None show ?thesis by (auto simp: run_done_def unknown_done_def)
  next
    case (Some handler)
    with exec have w1: "w1 = w\<lparr>mlog := mlog w @ [MObserve WorkerTaskDuration [Action t]]\<rparr>" and r: "r = handler ctx (Input t)"
      by (auto simp: Worker_executeTaskAction_def)
    from w1 assms(2) row have q: "quiet (hidden w1)" "\<exists>r \<in> set (task_rows w1). ID r = ID t \<and> Version r = Version t"
      by simp_all
    show ?thesis
    proof (cases r)
      case (Inl err)
      with r have "handler ctx (Input t) = Inl err" by simp
      with assms(3) Some have "plain_json (error_output (Error err))" by (simp add: plain_action_def)
      with failure_through [of key rkey name reg t err w1 u w'] handle Inl q
      have "handle_failure_done svc (pool_ws rkey) t (Error err) w1 w' \<and> quiet (hidden w')" by simp
      with Some Inl r w1 show ?thesis by (simp add: run_done_def)
    next
      case (Inr out)
      with r have "handler ctx (Input t) = Inr out" by simp
      with assms(3) Some have "plain_json out" by (simp add: plain_action_def)
      with success_through [of key rkey name reg t out w1 u w'] handle Inr q
      have "success_done (pool_ws rkey) t out w1 w' \<and> quiet (hidden w')" by simp
      with Some Inr r w1 show ?thesis by (simp add: run_done_def)
    qed
  qed
qed

lemma task_through:
  assumes "run_state (Worker_processFetchedTask svc (pool.wk key rkey name reg) ctx t) w = (u, w')"
    and "quiet (hidden w)" and "t \<in> set (task_rows w)" and "plain_action reg ctx t"
  shows "task_done svc (pool_ws rkey) name reg ctx t w w' \<and> quiet (hidden w')"
proof (cases "SkipHint t")
  case True
  with assms(1) skip_through [OF _ assms(2)] show ?thesis by (simp add: Worker_processFetchedTask_def task_done_def)
next
  case False
  obtain r1 w1 where claim: "run_state (ClaimTask (NewTaskRepository svc) (ID t) name (Version t)) w = (r1, w1)"
    by fastforce
  have row: "\<exists>r \<in> set (task_rows w). ID r = ID t \<and> Version r = Version t" using assms(3) by blast
  note claimed = ClaimTask_through [OF claim assms(2) row]
  let ?t = "t\<lparr>Version := Version t + 1\<rparr>"
  define w2 where "w2 = w1\<lparr>mlog := mlog w1 @ [MInc WorkerActiveTasks [name]]\<rparr>"
  obtain u3 w3 where run: "run_state (do { r \<leftarrow> Worker_executeTaskAction (pool.wk key rkey name reg) ctx ?t;
      (case r of Inl err \<Rightarrow> Worker_handleTaskFailure svc (pool.wk key rkey name reg) ?t err
       | Inr out \<Rightarrow> Worker_handleTaskSuccess (pool.wk key rkey name reg) ?t out) }) w2 = (u3, w3)"
    by (rule prod.exhaust)
  have "w' = w3\<lparr>mlog := mlog w3 @ [MDec WorkerActiveTasks [name]]\<rparr>"
    using assms(1) False claim claimed run
    by (simp add: Worker_processFetchedTask_def Worker_claimTask_def w2_def split: prod.splits)
  moreover have swap: "row_swapped (ID t) (Version t) (claimed name (Version t)) w w2"
    using claimed row by (simp add: row_swapped_def w2_def)
  moreover have "quiet (hidden w2)" using claimed by (simp add: w2_def)
  moreover have "plain_action reg ctx ?t" using assms(4)
    by (auto simp: plain_action_def split: option.splits)
  ultimately have "task_done svc (pool_ws rkey) name reg ctx t w w3" and "quiet (hidden w')"
    and "\<exists>l. w' = w3\<lparr>mlog := l\<rparr>"
    using run_through [OF run] swapped_row [OF swap] False by (auto simp: task_done_def)
  then show ?thesis by (auto simp: log_free_task_done [unfolded log_free_def])
qed

text \<open>A round on a queue whose head names a stored task.\<close>

lemma round_through:
  assumes "run_state (Worker_ProcessNextTask svc (pool.wk key rkey name reg) ctx) w = (u, w')"
    and "quiet (hidden w)" and "redis_list w key = uuid_String svc (ID t) # xs"
    and "t \<in> set (task_rows w)" and "unique_ids w" and "plain_action reg ctx t"
  shows "round_done svc (pool_ws rkey) key name reg ctx t xs w w' \<and> quiet (hidden w')"
proof -
  obtain r1 w1 where pop: "run_state (Pop (NewRedisQueue svc key)) w = (r1, w1)" by fastforce
  from Pop_through [OF pop assms(2)] assms(3)
  have r1: "r1 = Inr (uuid_String svc (ID t))" and w1: "queue_written ((redis_list w)(key := xs)) w w1"
    and q1: "quiet (hidden w1)" by simp_all
  obtain r2 w2 where find: "run_state (FindTaskByID (NewTaskRepository svc) (ID t)) w1 = (r2, w2)" by fastforce
  from w1 have rows: "task_rows w1 = task_rows w" by (simp add: queue_written_def)
  from FindTaskByID_through [OF find q1] assms(4) rows obtain t' where
    t': "r2 = Inr t'" "t' \<in> set (task_rows w)" "ID t' = ID t" and w2: "unwritten w1 w2" and q2: "quiet (hidden w2)"
    by auto
  have "t' = t" using distinct_key_unique [of ID "task_rows w" t' t] assms(4,5) t' by (simp add: unique_ids_def)
  define w3 where "w3 = w2\<lparr>mlog := mlog w2 @ [MObserve WorkerQueueWaitTime []]\<rparr>"
  have run: "run_state (Worker_processFetchedTask svc (pool.wk key rkey name reg) ctx t) w3 = (u, w')"
    using assms(1) pop r1 find t'(1) \<open>t' = t\<close>
    by (simp add: Worker_ProcessNextTask_def Worker_popAndFetchTask_def uuid_law w3_def)
  have "queue_written ((redis_list w)(key := xs)) w w3" using w1 w2 by (simp add: queue_written_def unwritten_def w3_def)
  moreover have "quiet (hidden w3)" "t \<in> set (task_rows w3)"
    using q2 w2 rows assms(4) by (simp_all add: w3_def unwritten_def)
  ultimately show ?thesis using task_through [OF run _ _ assms(6)] by (auto simp: round_done_def)
qed

end

section \<open>Coordinator\<close>

context flawless_services
begin

lemma queueReady_through:
  assumes "run_state (Coordinator_queueReady svc (coord.co key) ids) w = (u, w')" and "quiet (hidden w)"
  shows "queue_written ((redis_list w)(key := redis_list w key @ map (uuid_String svc) ids)) w w' \<and> quiet (hidden w')"
  using assms
proof (induction ids arbitrary: w)
  case Nil
  then show ?case by (simp add: Coordinator_queueReady_def queue_written_def)
next
  case (Cons i ids)
  obtain r1 w1 where push: "run_state (Push (NewRedisQueue svc key) (uuid_String svc i)) w = (r1, w1)" by fastforce
  have rest: "run_state (Coordinator_queueReady svc (coord.co key) ids) w1 = (u, w')"
    using Cons.prems(1) push by (simp add: Coordinator_queueReady_def)
  note pushed = Push_through [OF push Cons.prems(2)]
  with Cons.IH [OF rest] show ?case by (auto simp: queue_written_def)
qed

lemma finished_through:
  assumes "run_state (Coordinator_checkIfWorkflowFinished (coord.co key) ex) w = (u, w')" and "quiet (hidden w)"
  shows "(if \<forall>t \<in> set (task_rows w). ExecutionID t = ex \<longrightarrow> Status t = StatusCompleted
      then execs_written (status_writable ex WorkflowCompleted) (\<lambda>e. e\<lparr>we_Status := WorkflowCompleted\<rparr>) w w'
      else unwritten w w') \<and> quiet (hidden w')"
proof -
  obtain r1 w1 where ask: "run_state (AreAllTasksCompleted (NewTaskRepository svc) ex) w = (r1, w1)" by fastforce
  obtain r2 w2 where upd: "run_state (UpdateStatus (NewWorkflowRepository svc) ex WorkflowCompleted) w1 = (r2, w2)"
    by fastforce
  note asked = AreAllTasksCompleted_through [OF ask assms(2)]
  note updated = UpdateStatus_through [OF upd asked [THEN conjunct2, THEN conjunct2]]
  have "execs_written Q g w1 w2 = execs_written Q g w w2" for Q g
    using asked by (simp add: execs_written_def unwritten_def)
  let ?all = "\<forall>t \<in> set (task_rows w). ExecutionID t = ex \<longrightarrow> Status t = StatusCompleted"
  from asked have r1: "r1 = Inr ?all" by blast
  show ?thesis
  proof (cases ?all)
    case True
    with assms(1) ask r1 upd updated have "\<exists>l. w' = w2\<lparr>mlog := l\<rparr>"
      by (auto simp: Coordinator_checkIfWorkflowFinished_def simp del: ball_simps)
    with True updated \<open>\<And>Q g. execs_written Q g w1 w2 = execs_written Q g w w2\<close> show ?thesis by auto
  next
    case False
    then have "r1 = Inr False" using r1 by simp
    with assms(1) ask have "w' = w1" by (simp add: Coordinator_checkIfWorkflowFinished_def)
    with False asked show ?thesis by auto
  qed
qed

lemma unblocked_released: "unblocked dep ex p w = mset (released_ids (children dep ex p) w)"
  by (simp add: unblocked_def released_ids_def)

lemma completed_through:
  assumes "run_state (Coordinator_handleTaskCompleted svc (coord.co key) ev) w = (u, w')" and "quiet (hidden w)"
    and "printable (tc_RefID ev)" and "plain (tc_RefID ev)"
  shows "resolve_done svc key (depends_on svc) decremented True (tc_ExecutionID ev) (tc_RefID ev) w w'"
proof -
  let ?ex = "tc_ExecutionID ev" and ?p = "tc_RefID ev"
  obtain r1 w1 where decr: "run_state (DecrementAndGetReadyTasks (NewTaskRepository svc) ?ex ?p) w = (r1, w1)" by fastforce
  from Decrement_through(1) [OF assms(2-4) decr] obtain ids where
    ids: "r1 = Inr ids" "mset ids = unblocked (depends_on svc) ?ex ?p w"
    "tasks_rewritten (children (depends_on svc) ?ex ?p) decremented w w1" "quiet (hidden w1)"
    unfolding unblocked_released by blast
  obtain w2 where queue: "run_state (Coordinator_queueReady svc (coord.co key) ids) w1 = ((), w2)"
    by (metis old.unit.exhaust surj_pair)
  obtain w3 where check: "run_state (Coordinator_checkIfWorkflowFinished (coord.co key) ?ex) w1 = ((), w3)"
    by (metis old.unit.exhaust surj_pair)
  have lists: "redis_list w1 = redis_list w" using ids(3) by (simp add: tasks_rewritten_def)
  show ?thesis
  proof (cases "ids = []")
    case True
    with queue have "w2 = w1" by (simp add: Coordinator_queueReady_def)
    with assms(1) decr ids(1) queue check True have "\<exists>l. w' = w3\<lparr>mlog := l\<rparr>"
      by (auto simp: Coordinator_handleTaskCompleted_def)
    with finished_through [OF check ids(4)] ids True show ?thesis
      unfolding resolve_done_def by (intro exI [of _ ids] exI [of _ w1]) (auto split: if_splits)
  next
    case False
    with assms(1) decr ids(1) queue have "\<exists>l. w' = w2\<lparr>mlog := l\<rparr>"
      by (auto simp: Coordinator_handleTaskCompleted_def)
    with queueReady_through [OF queue ids(4)] ids False lists show ?thesis
      unfolding resolve_done_def by (intro exI [of _ ids] exI [of _ w1]) auto
  qed
qed

lemma terminated_through:
  assumes "run_state (Coordinator_handleTaskTerminated svc (coord.co key) ev) w = (u, w')" and "quiet (hidden w)"
    and "printable (tt_RefID ev)" and "plain (tt_RefID ev)"
  shows "resolve_done svc key (depends_on svc) tainted False (tt_ExecutionID ev) (tt_RefID ev) w w'"
proof -
  let ?ex = "tt_ExecutionID ev" and ?p = "tt_RefID ev"
  obtain r1 w1 where decr: "run_state (DecrementAndSetSkipHint (NewTaskRepository svc) ?ex ?p) w = (r1, w1)" by fastforce
  from Decrement_through(2) [OF assms(2-4) decr] obtain ids where
    ids: "r1 = Inr ids" "mset ids = unblocked (depends_on svc) ?ex ?p w"
    "tasks_rewritten (children (depends_on svc) ?ex ?p) tainted w w1" "quiet (hidden w1)"
    unfolding unblocked_released by blast
  let ?count = "for_each ids (\<lambda>_. do {inc CoordinatorSkipPropagationsTotal []; inc CoordinatorTasksUnblockedTotal []})"
  obtain w2 where queue: "run_state (Coordinator_queueReady svc (coord.co key) ids) w1 = ((), w2)"
    by (metis old.unit.exhaust surj_pair)
  obtain w3 where log: "run_state ?count w2 = ((), w3)" by (metis old.unit.exhaust surj_pair)
  have "unwritten w2 (snd (run_state ?count w2))" by (rule unwritten_for_each) simp
  with log have w3: "unwritten w2 w3" by simp
  have "ids = [] \<longrightarrow> w3 = w2" using log by auto
  then have w': "\<exists>l. w' = w3\<lparr>mlog := l\<rparr>"
    using assms(1) decr ids(1) queue log by (auto simp: Coordinator_handleTaskTerminated_def split: if_splits)
  have "queue_written ((redis_list w)(key := redis_list w key @ map (uuid_String svc) ids)) w1 w'"
    using queueReady_through [OF queue ids(4)] w3 w' ids(3)
    by (auto simp: queue_written_def unwritten_def tasks_rewritten_def)
  moreover from this have "unwritten w1 w'" if "ids = []"
    using that ids(3) by (simp add: queue_written_def unwritten_def tasks_rewritten_def)
  ultimately show ?thesis using ids
    unfolding resolve_done_def by (intro exI [of _ ids] exI [of _ w1]) auto
qed

end

end
