(* ===== verification/Http_Counts.thy ===== *)
theory Http_Counts
  imports Server
begin

text \<open>
  How often a request is counted: the calls on \<open>http_requests_total\<close>. Nothing but the middleware
  makes any, so the relation \<open>uncounted\<close> of worlds with the same such calls is kept by everything
  the handlers do.
\<close>

fun counts_request :: "metric_op \<Rightarrow> bool" where
  "counts_request (MInc m ls) = (mname m = ''http_requests_total'')"
| "counts_request _ = False"

definition request_counts :: "'h world \<Rightarrow> metric_op list" where
  "request_counts w = filter counts_request (mlog w)"

definition uncounted :: "'h world \<Rightarrow> 'h world \<Rightarrow> bool" where
  "uncounted w w' \<longleftrightarrow> request_counts w' = request_counts w"

interpretation uc: preorder_relation uncounted
  by unfold_locales (auto simp: uncounted_def)

lemma uncounted_log:
  "mname m \<noteq> ''http_requests_total'' \<Longrightarrow> state_io_rel uncounted (inc m ls)"
  "state_io_rel uncounted (dec m ls)" "state_io_rel uncounted (observe m ls)"
  "state_io_rel uncounted (set_gauge m ls v)"
  by (auto intro!: state_io_relI simp: uncounted_def request_counts_def)

lemma uncounted_same: "same w w' \<Longrightarrow> uncounted w w'"
  by (auto simp: uncounted_def request_counts_def dest!: same_fields)

lemma uncounted_call:
  assumes "call_law m E" and "\<And>w a w'. E w a w' \<Longrightarrow> mlog w' = mlog w"
  shows "state_io_rel uncounted m"
proof (rule state_io_relI)
  fix r w w'
  assume "run_state m w = (r, w')"
  with assms(1) show "uncounted w w'"
    by (elim call_lawE) (auto simp: uncounted_def request_counts_def dest: assms(2) same_fields)
qed

lemma other_collectors [simp]:
  "mname DBQueryErrorsTotal \<noteq> ''http_requests_total''" "mname DBTransactionsTotal \<noteq> ''http_requests_total''"
  "mname RedisQueuePushTotal \<noteq> ''http_requests_total''" "mname RedisConnectionErrorsTotal \<noteq> ''http_requests_total''"
  "mname WorkflowsSubmittedTotal \<noteq> ''http_requests_total''"
  by (simp_all add: metric_defs)

context lawful_services
begin

lemma uncounted_calls:
  "state_io_rel uncounted (gorm_Create_execution svc e)"
  "state_io_rel uncounted (gorm_Create_tasks svc ts)"
  "state_io_rel uncounted (redis_RPush svc k x)"
  by (rule uncounted_call [OF Create_execution_law] uncounted_call [OF Create_tasks_law]
      uncounted_call [OF RPush_law]; auto dest!: same_fields)+

lemma uncounted_Transaction:
  assumes "state_io_rel uncounted body"
  shows "state_io_rel uncounted (gorm_Transaction svc body)"
proof (rule state_io_relI)
  fix r w w'
  assume run: "run_state (gorm_Transaction svc body) w = (r, w')"
  obtain rb wb where body: "run_state body w = (rb, wb)" by fastforce
  from assms body have wb: "uncounted w wb" by (rule state_io_relD)
  note law = Transaction_law [unfolded transaction_law_def, rule_format, OF run body]
  have "same w w' \<or> same wb w' \<or> rolled_back w wb w'"
  proof (cases r)
    case (Inl e)
    with law show ?thesis by simp blast
  qed (use law in simp)
  with wb show "uncounted w w'"
    by (auto simp: rolled_back_def uncounted_def request_counts_def dest!: same_fields)
qed

lemma submission_uncounted:
  "state_io_rel uncounted (workflowService_SubmitWorkflow svc
     (NewWorkflowService (NewTaskRepository svc) (NewRedisQueue svc key)) e ts)"
proof -
  have create: "state_io_rel uncounted (taskRepository_CreateExecution svc e ts)" for e ts
    unfolding taskRepository_CreateExecution_def insert_execution_def
    by (intro uc.io_rules uncounted_log uncounted_Transaction uncounted_calls; simp)
  have push: "state_io_rel uncounted (RedisQueue_Push svc key x)" for x
    unfolding RedisQueue_Push_def by (intro uc.io_rules uncounted_log uncounted_calls; simp)
  have queue: "state_io_rel uncounted (workflowService_enqueueRootTasks svc
      (NewWorkflowService (NewTaskRepository svc) (NewRedisQueue svc key)) ts)" for ts
    by (induction ts) (auto intro!: uc.io_rules push simp: NewWorkflowService_def provider_fields)
  show ?thesis
    unfolding workflowService_SubmitWorkflow_def workflowService_persistWorkflow_def
    by (auto intro!: uc.io_rules create queue [unfolded NewWorkflowService_def]
        simp: NewWorkflowService_def provider_fields)
qed

lemma handler_uncounted:
  "state_io_rel uncounted (WorkflowHandler_SubmitWorkflow svc
     (NewWorkflowHandler (NewWorkflowService (NewTaskRepository svc) (NewRedisQueue svc key))) ids clock complaint decoded)"
  unfolding WorkflowHandler_SubmitWorkflow_def NewWorkflowHandler_def WorkflowHandler.simps respond_def
  by (intro uc.io_rules uncounted_log submission_uncounted; simp)

end

text \<open>The middleware around a handler that does not count.\<close>

lemma middleware_counts:
  assumes "state_io_rel uncounted handler" and "valid_utf8 (Method c)"
    and "run_state (PrometheusMiddleware c handler) w = (r, w')"
  shows "if valid_utf8 (request_path c)
    then \<exists>resp. r = Some resp \<and> request_counts w' =
      request_counts w @ [MInc HTTPRequestsTotal [Method c, request_path c, Itoa (http_status resp)]]
    else r = None \<and> request_counts w' = request_counts w"
proof (cases "valid_utf8 (request_path c)")
  case False
  obtain r1 w1 where run: "run_state handler w = (r1, w1)" by fastforce
  with assms(1) have "uncounted w w1" by (rule state_io_relD)
  with False assms(3) run show ?thesis
    by (auto simp: run_middleware_panics uncounted_def split: if_splits)
next
  case True
  define w1 where "w1 = w\<lparr>mlog := mlog w @ (if ContentLength c > 0
    then [MObserve HTTPRequestSizeBytes [Method c, request_path c]] else [])\<rparr>"
  obtain resp w2 where run: "run_state handler w1 = (resp, w2)" by fastforce
  with assms(1) have "uncounted w1 w2" by (rule state_io_relD)
  then have "request_counts w2 = request_counts w"
    by (auto simp: uncounted_def request_counts_def w1_def)
  moreover have "mname HTTPRequestsTotal = ''http_requests_total''" by (simp add: metric_defs)
  ultimately show ?thesis
    using run_middleware [OF assms(2) True run [unfolded w1_def]] assms(3) True
    by (auto simp: request_counts_def)
qed

end
