(* ===== verification/Store_Properties.thy ===== *)
theory Store_Properties
  imports Task_Repository Workflow_Repository Redis_Queue Event_Bus
begin

text \<open>
  What the infrastructure components promise: the task and workflow repositories, the queue
  and the event bus, each over any lawful services, with the runs on the reference services
  that show the hypotheses can hold.
\<close>

section \<open>Task repository\<close>

lemmas demo_eval = demo_defs reference_eval taskRepository_defs workflowRepository_defs

lemma claim_demo:
  "\<exists>w1. run_state (taskRepository_ClaimTask reference_services 1 worker 1) (demo_world []) = (Inr (), w1)"
  by (simp add: demo_eval jsonb_text_def)

text \<open>
  C19. Optimistic locking. Once a claim of a task at some version has succeeded, no later
  claim at the same version succeeds, whatever the rest of the program does in between.
\<close>

theorem claim_exclusive:
  assumes svc: "lawful_services svc" and "unique_ids w"
    and claim1: "run_state (taskRepository_ClaimTask svc i workerA v) w = (Inr (), w1)"
    and "evolves w1 w2"
    and claim2: "run_state (taskRepository_ClaimTask svc i workerB v) w2 = (r, w3)"
  shows "r \<noteq> Inr ()"
proof
  assume "r = Inr ()"
  then obtain t2 where t2: "t2 \<in> set (task_rows w2)" "ID t2 = i" "Version t2 = v"
    using lawful_services.ClaimTask_correct [OF svc claim2] by auto
  from lawful_services.ClaimTask_correct [OF svc claim1] obtain t where
    t: "t \<in> set (task_rows w)" "ID t = i" "Version t = v"
    and written: "tasks_written (\<lambda>t. ID t = i \<and> Version t = v) (claimed workerA v) w w1"
    by auto
  from written t obtain t1 where t1: "t1 \<in> set (task_rows w1)" "ID t1 = i" "Version t1 = v + 1"
    by (fastforce simp: tasks_written_def set_update_where claimed_def)
  from assms(4) t1(1) obtain t' where t': "t' \<in> set (task_rows w2)" "task_evolves t1 t'"
    unfolding evolves_def by (blast elim: rows_evolveE)
  have "evolves w w1"
    using state_io_relD [OF lawful_services.repository_evolves(3) [OF svc] claim1] .
  with assms(2,4) have "distinct (map ID (task_rows w2))"
    by (auto simp: evolves_def unique_ids_def)
  with t2 t' t1 have "t2 = t'"
    by (auto simp: task_evolves_def dest: distinct_key_unique)
  with t2 t' t1 show False by (simp add: task_evolves_def)
qed

theorem claim_exclusive_witness:
  "\<exists>w1. run_state (taskRepository_ClaimTask reference_services 1 ''w1'' 1) (demo_world []) = (Inr (), w1) \<and>
     fst (run_state (taskRepository_ClaimTask reference_services 1 ''w2'' 1) w1) \<noteq> Inr ()"
proof -
  obtain w1 where w1: "run_state (taskRepository_ClaimTask reference_services 1 ''w1'' 1) (demo_world []) = (Inr (), w1)"
    using claim_demo by blast
  with claim_exclusive [OF ref.lawful_services_axioms demo_unique_ids w1 evolves_refl prod.collapse [symmetric]]
  show ?thesis by blast
qed

text \<open>
  C23. A claim is a compare-and-swap on the version. A success changes the one row with the
  identifier and the version into a running row of this worker with the next version, and
  nothing else; "record not found" means that there was no such row and nothing changed.
\<close>

theorem claim_compare_and_swap:
  assumes "lawful_services svc"
    and "run_state (taskRepository_ClaimTask svc i worker v) w = (r, w')"
  shows "(r = Inr () \<longrightarrow> (\<exists>t \<in> set (task_rows w). ID t = i \<and> Version t = v) \<and>
            tasks_written (\<lambda>t. ID t = i \<and> Version t = v) (claimed worker v) w w') \<and>
         (r = Inl ErrRecordNotFound \<longrightarrow>
            (\<forall>t \<in> set (task_rows w). \<not> (ID t = i \<and> Version t = v)) \<and> unwritten w w')"
  using lawful_services.ClaimTask_correct [OF assms] by auto

theorem claim_compare_and_swap_witness:
  "\<exists>w'. run_state (taskRepository_ClaimTask reference_services 1 ''w1'' 1) (demo_world []) = (Inr (), w') \<and>
     tasks_written (\<lambda>t. ID t = 1 \<and> Version t = 1) (claimed ''w1'' 1) (demo_world []) w'"
proof -
  obtain w' where "run_state (taskRepository_ClaimTask reference_services 1 ''w1'' 1) (demo_world []) = (Inr (), w')"
    using claim_demo by blast
  with claim_compare_and_swap [OF ref.lawful_services_axioms this] show ?thesis by blast
qed

lemma demo_depends: "depends_on reference_services t ''a'' \<longleftrightarrow> t = demo_child"
  if "t = demo_root \<or> t = demo_child"
proof -
  have deps: "string_array (Dependencies demo_child) = Some [''a'']" "string_array (Dependencies demo_root) = Some []"
    by (simp_all add: demo_root_def demo_child_def string_array_def json_parse_def is_ws_def
        decode_escape_def code_def parse_literal_def parse_chars.simps)
  have "string_array (depParam ''a'') = Some [''a'']"
    unfolding depParam_def by (rule string_array_singleton) (simp add: plain_def code_def)
  with deps ref.jsonb_contains_law that show ?thesis
    by (auto simp: depends_on_def demo_root_def demo_child_def)
qed

lemma demo_rows_depend [simp]:
  "depends_on reference_services demo_child ''a''" "\<not> depends_on reference_services demo_root ''a''"
  using demo_depends [of demo_child] demo_depends [of demo_root] demo_fields by auto

lemma demo_jsonb_valid [simp]: "ref_jsonb_valid (depParam ''a'')"
proof -
  have "string_array (depParam ''a'') = Some [''a'']"
    unfolding depParam_def by (rule string_array_singleton) (simp add: plain_def code_def)
  then show ?thesis by (auto simp: ref_jsonb_valid_def string_array_def split: option.splits)
qed

lemma decrement_demo:
  "\<exists>w'. run_state (taskRepository_DecrementAndGetReadyTasks reference_services 7 ''a'') (demo_world []) = (Inr [2], w')"
  "\<exists>w'. run_state (taskRepository_DecrementAndSetSkipHint reference_services 7 ''a'') (demo_world []) = (Inr [2], w')"
proof -
  note dep = demo_rows_depend [unfolded depends_on_def]
  show "\<exists>w'. run_state (taskRepository_DecrementAndGetReadyTasks reference_services 7 ''a'') (demo_world []) = (Inr [2], w')"
    using dep by (simp add: reference_eval taskRepository_defs depends_on_def)
  show "\<exists>w'. run_state (taskRepository_DecrementAndSetSkipHint reference_services 7 ''a'') (demo_world []) = (Inr [2], w')"
    using dep by (simp add: reference_eval taskRepository_defs depends_on_def)
qed

text \<open>
  C21. The step of Kahn's algorithm. When the decrement for a completed parent returns a list,
  every child of the parent in the execution had its in-degree lowered by exactly one and
  became queued when it reached zero, no other row changed, and every returned identifier is
  that of a child that was waiting for this parent alone, returned at most once per row.
\<close>

theorem decrement_ready:
  assumes "lawful_services svc"
    and "run_state (taskRepository_DecrementAndGetReadyTasks svc ex p) w = (Inr ids, w')"
  shows "tasks_rewritten (\<lambda>t. ExecutionID t = ex \<and> depends_on svc t p) decremented w w' \<and>
         mset ids \<subseteq># mset (map ID (filter
           (\<lambda>t. (ExecutionID t = ex \<and> depends_on svc t p) \<and> InDegree t = 1) (task_rows w)))"
  using lawful_services.DecrementAndGetReadyTasks_correct [OF assms] by auto

theorem decrement_ready_witness:
  "\<exists>w'. run_state (taskRepository_DecrementAndGetReadyTasks reference_services 7 ''a'') (demo_world []) = (Inr [2], w') \<and>
     tasks_rewritten (\<lambda>t. ExecutionID t = 7 \<and> depends_on reference_services t ''a'') decremented (demo_world []) w'"
  using decrement_demo(1) decrement_ready [OF ref.lawful_services_axioms] by blast

text \<open>
  C22. The decrement for a terminated parent does the same and marks every child to be skipped.
\<close>

theorem decrement_skip:
  assumes "lawful_services svc"
    and "run_state (taskRepository_DecrementAndSetSkipHint svc ex p) w = (Inr ids, w')"
  shows "tasks_rewritten (\<lambda>t. ExecutionID t = ex \<and> depends_on svc t p) tainted w w' \<and>
         mset ids \<subseteq># mset (map ID (filter
           (\<lambda>t. (ExecutionID t = ex \<and> depends_on svc t p) \<and> InDegree t = 1) (task_rows w)))"
  using lawful_services.DecrementAndSetSkipHint_correct [OF assms] by auto

theorem decrement_skip_witness:
  "\<exists>w'. run_state (taskRepository_DecrementAndSetSkipHint reference_services 7 ''a'') (demo_world []) = (Inr [2], w') \<and>
     tasks_rewritten (\<lambda>t. ExecutionID t = 7 \<and> depends_on reference_services t ''a'') tainted (demo_world []) w'"
  using decrement_demo(2) decrement_skip [OF ref.lawful_services_axioms] by blast

text \<open>
  C24. Creating a workflow is atomic. It either leaves the tables alone and reports an error, or
  appends the execution and all of its tasks, whose identifiers are fresh; it reports success
  only in the second case.
\<close>

theorem create_atomic:
  assumes "lawful_services svc"
    and "run_state (taskRepository_CreateExecution svc e ts) w = (r, w')"
  shows "(r = Inr () \<longrightarrow> execution_created e ts w w') \<and>
         ((execution_fresh e ts w \<and> execution_created e ts w w') \<or> unwritten w w')"
  using lawful_services.CreateExecution_correct [OF assms] by (cases r) auto

text \<open>A workflow of its own execution: a root task and a task that waits for it.\<close>

definition new_execution :: WorkflowExecution where
  "new_execution = demo_execution\<lparr>we_ID := 8\<rparr>"

definition new_tasks :: "Task list" where
  "new_tasks = [demo_root\<lparr>ID := 5, ExecutionID := 8\<rparr>, demo_child\<lparr>ID := 6, ExecutionID := 8\<rparr>]"

lemma create_demo:
  "\<exists>w'. run_state (taskRepository_CreateExecution reference_services new_execution new_tasks)
     (demo_world []) = (Inr (), w')"
proof -
  have "list_all ref_jsonb_valid (jsonb_texts new_tasks)" by code_simp
  then show ?thesis by (simp add: reference_eval taskRepository_defs demo_execution_def new_execution_def new_tasks_def)
qed

theorem create_atomic_witness:
  "\<exists>w'. run_state (taskRepository_CreateExecution reference_services new_execution new_tasks)
     (demo_world []) = (Inr (), w') \<and> execution_created new_execution new_tasks (demo_world []) w'"
  using create_demo create_atomic [OF ref.lawful_services_axioms] by blast

text \<open>
  C30. The failure text is pasted into a JSON text without escaping. A message that needs no
  escaping gives the object with that message as its member \<open>error\<close>; with any message
  that breaks the text, such as one with a quotation mark, marking the task as failed reports
  an error and changes nothing: the task stays in the status it had.
\<close>

theorem mark_failed_needs_plain_message:
  assumes "lawful_services svc" and "json_parse (error_output msg) = None"
    and "run_state (taskRepository_MarkFailed svc i msg) w = (r, w')"
  shows "r \<noteq> Inr () \<and> unwritten w w'"
proof -
  let ?f = "\<lambda>t::Task. t\<lparr>Status := StatusFailed, LastError := msg, Output := error_output msg\<rparr>"
  obtain r1 w1 where call: "run_state (gorm_Updates_tasks svc (jsonb_text (error_output msg))
      (\<lambda>t. ID t = i) ?f) w = (r1, w1)" by fastforce
  have "\<not> list_all (jsonb_valid svc) (jsonb_text (error_output msg))"
    using assms(1,2) lawful_services.jsonb_valid_law by (force simp: jsonb_text_def error_output_def)
  with lawful_services.Updates_outcome [OF assms(1) call] obtain e where "r1 = Inl e" "unwritten w w1"
    by (auto split: sum.splits)
  with assms(3) call show ?thesis by (auto simp: taskRepository_MarkFailed_def)
qed

theorem mark_failed_needs_plain_message_witness:
  "\<exists>r w'. run_state (taskRepository_MarkFailed reference_services 1 [quote]) (demo_world []) = (r, w') \<and> r \<noteq> Inr ()"
proof -
  have "json_parse (error_output [quote]) = None"
    by (simp add: error_output_def json_parse_def is_ws_def decode_escape_def code_def
        parse_literal_def parse_chars.simps)
  from mark_failed_needs_plain_message [OF ref.lawful_services_axioms this] show ?thesis
    by (meson surj_pair)
qed

text \<open>A message that needs no escaping gives the object it is meant to give.\<close>

lemma error_output_plain:
  assumes "plain msg"
  shows "json_parse (error_output msg) = Some (JObj [(''error'', JStr msg)])"
proof -
  have "parse_chars (msg @ [quote, CHR ''}'']) = Some (msg, [CHR ''}''])"
    using parse_chars_plain [OF assms, of "[CHR ''}'']"] by simp
  then show ?thesis
    by (simp add: error_output_def json_parse_def is_ws_def parse_chars.simps code_def)
qed

section \<open>Workflow repository\<close>

text \<open>
  C28. A status update touches the one execution it names, only if its status is another one
  and not FAILED; the rest of the database stays as it is, whatever the call reports.
\<close>

theorem update_status_guarded:
  assumes "lawful_services svc"
    and "run_state (workflowRepository_UpdateStatus svc ex s) w = (r, w')"
  shows "execs_written (\<lambda>e. we_ID e = ex \<and> we_Status e \<noteq> s \<and> we_Status e \<noteq> WorkflowFailed)
           (\<lambda>e. e\<lparr>we_Status := s\<rparr>) w w' \<or> (r \<noteq> Inr () \<and> unwritten w w')"
  using lawful_services.UpdateStatus_correct [OF assms, unfolded status_writable_def [abs_def]]
  by (cases r) auto

theorem update_status_guarded_witness:
  "\<exists>r w'. run_state (workflowRepository_UpdateStatus reference_services 7 WorkflowCompleted) (demo_world []) = (r, w') \<and>
     (execs_written (\<lambda>e. we_ID e = 7 \<and> we_Status e \<noteq> WorkflowCompleted \<and> we_Status e \<noteq> WorkflowFailed)
        (\<lambda>e. e\<lparr>we_Status := WorkflowCompleted\<rparr>) (demo_world []) w' \<or> (r \<noteq> Inr () \<and> unwritten (demo_world []) w'))"
  using update_status_guarded [OF ref.lawful_services_axioms] by (meson surj_pair)

section \<open>Queue\<close>

section \<open>Event bus\<close>

text \<open>
  C35. What is published is what is received: both kinds of events survive the encoding as
  JSON and the decoding by the subscriber, with every reference identifier and error text.
\<close>

theorem events_roundtrip:
  assumes "lawful_services svc"
  shows "unmarshal_completed svc (json_print (completed_event_json svc ev)) = Some ev \<and>
         unmarshal_terminated svc (json_print (terminated_event_json svc ev')) = Some ev'"
  using lawful_services.completed_roundtrip [OF assms] lawful_services.terminated_roundtrip [OF assms] by simp

theorem events_roundtrip_witness:
  "unmarshal_completed reference_services (json_print (completed_event_json reference_services
     \<lparr>tc_ExecutionID = 7, tc_TaskID = 1, tc_RefID = [quote, bslash, CHR ''<'']\<rparr>)) =
     Some \<lparr>tc_ExecutionID = 7, tc_TaskID = 1, tc_RefID = [quote, bslash, CHR ''<'']\<rparr>"
  using events_roundtrip [OF ref.lawful_services_axioms] by blast

end
