(* ===== verification/App_Properties.thy ===== *)
theory App_Properties
  imports Exact_Effects Http_Counts Store_Properties
begin

text \<open>
  What the application components promise when they run on lawful services: the worker, the
  coordinator, the submission of workflows with its mapper and handler, the registry of
  actions and the collectors.
\<close>

section \<open>Worker\<close>

text \<open>The two workers of the program, with the key of their queue and their name.\<close>

definition a_worker :: "'h services \<Rightarrow> uuid \<Rightarrow> uuid \<Rightarrow> 'h Worker \<Rightarrow> string \<Rightarrow> string \<Rightarrow> bool" where
  "a_worker svc i j wk key name \<longleftrightarrow>
     wk = sv_mainWorker (main_server svc i j) \<and> key = main_key \<and> name = uuid_String svc i \<or>
     wk = sv_retryWorker (main_server svc i j) \<and> key = retry_key \<and> name = uuid_String svc j"

lemma a_worker_pool:
  assumes "lawful_services svc" and "a_worker svc i j wk key name"
  shows "wk = worker_ports.wk (NewTaskRepository svc) (NewWorkflowRepository svc) (NewRedisQueue svc key)
    (NewRedisQueue svc retry_key) (NewRedisEventBus svc) name InitRegistry"
  using assms(2) by (auto simp: a_worker_def lawful_services.pool_worker [OF assms(1)])

text \<open>
  C12. Refinement. Whatever fails, one round of a worker, of the main or of the retry pool, does
  what the abstract round allows: it takes at most one identifier from its queue and either loses
  it, skips the task, fails to claim it, or claims it at the version it read and then completes
  it, sends it to the retry queue once, fails it with its execution, or, if its action is not
  registered, fails it and then retries or fails it again, each write happening at most once and
  in this order. When no call fails and the head of the queue names a stored task, exactly this
  happens to that task: every write of its branch takes effect, once and in the order of the code.
\<close>

theorem worker_refines_round:
  assumes "lawful_services svc" and "a_worker svc i j wk key name"
    and "run_state (Worker_ProcessNextTask svc wk ctx) w = (u, w')"
  shows "task_round svc (redis_wires svc retry_key) key name InitRegistry ctx w w' \<and>
    (\<forall>quiet t xs. flawless_services svc quiet \<and> quiet (hidden w) \<and> unique_ids w \<and> t \<in> set (task_rows w) \<and>
       redis_list w key = uuid_String svc (ID t) # xs \<and> plain_action InitRegistry ctx t \<longrightarrow>
       round_done svc (redis_wires svc retry_key) key name InitRegistry ctx t xs w w')"
proof (intro conjI allI impI)
  show "task_round svc (redis_wires svc retry_key) key name InitRegistry ctx w w'"
    using lawful_services.worker_round [OF assms(1)] assms(2,3) by (auto simp: a_worker_def)
next
  fix quiet t xs
  assume "flawless_services svc quiet \<and> quiet (hidden w) \<and> unique_ids w \<and> t \<in> set (task_rows w) \<and>
    redis_list w key = uuid_String svc (ID t) # xs \<and> plain_action InitRegistry ctx t"
  with flawless_services.round_through [OF _ assms(3) [unfolded a_worker_pool [OF assms(1,2)]]]
  show "round_done svc (redis_wires svc retry_key) key name InitRegistry ctx t xs w w'" by blast
qed

text \<open>The task \<open>a\<close> of the small database in the main queue.\<close>

definition queued_world :: "schedule world" where
  "queued_world = (demo_world [])\<lparr>redis_list := (\<lambda>_. [])(main_key := [uuid_String reference_services (ID demo_root)])\<rparr>"

lemma demo_root_plain: "plain_action InitRegistry Background demo_root"
  by code_simp

theorem worker_refines_round_witness:
  "\<exists>w'. run_state (Worker_ProcessNextTask reference_services
       (sv_mainWorker (main_server reference_services 3 4)) Background) queued_world = ((), w') \<and>
     round_done reference_services (redis_wires reference_services retry_key) main_key
       (uuid_String reference_services 3) InitRegistry Background demo_root [] queued_world w'"
proof -
  obtain w' where run: "run_state (Worker_ProcessNextTask reference_services
      (sv_mainWorker (main_server reference_services 3 4)) Background) queued_world = ((), w')"
    by (metis old.unit.exhaust surj_pair)
  have w: "healthy (hidden queued_world)" "unique_ids queued_world" "demo_root \<in> set (task_rows queued_world)"
    "redis_list queued_world main_key = [uuid_String reference_services (ID demo_root)]"
    by (simp_all add: queued_world_def healthy_def unique_ids_def)
  have "a_worker reference_services 3 4 (sv_mainWorker (main_server reference_services 3 4)) main_key
      (uuid_String reference_services 3)" by (simp add: a_worker_def)
  from worker_refines_round [OF ref.lawful_services_axioms this run]
    calm.flawless_services_axioms w demo_root_plain
  have "round_done reference_services (redis_wires reference_services retry_key) main_key
      (uuid_String reference_services 3) InitRegistry Background demo_root [] queued_world w'" by blast
  with run show ?thesis by (intro exI conjI)
qed

text \<open>The rows as far as retries are concerned.\<close>

definition retry_view :: "'h world \<Rightarrow> (uuid \<times> int \<times> int) list" where
  "retry_view w = map (\<lambda>t. (ID t, RetryCount t, MaxRetries t)) (task_rows w)"

definition retries_bounded :: "'h world \<Rightarrow> bool" where
  "retries_bounded w \<longleftrightarrow> (\<forall>t \<in> set (task_rows w). RetryCount t \<le> MaxRetries t)"

lemma retries_bounded_view: "retries_bounded w \<longleftrightarrow> (\<forall>(i, c, m) \<in> set (retry_view w). c \<le> m)"
  by (auto simp: retries_bounded_def retry_view_def)

lemma retry_view_written:
  assumes "maybe (tasks_written P f) w w'"
    and "\<And>t. ID (f t) = ID t \<and> RetryCount (f t) = RetryCount t \<and> MaxRetries (f t) = MaxRetries t"
  shows "retry_view w' = retry_view w"
  using assms by (auto simp: maybe_def tasks_written_def unwritten_def retry_view_def update_where_def)

lemma retry_view_frame:
  "maybe (failed_execution ex) w w' \<Longrightarrow> retry_view w' = retry_view w"
  "maybe (sent_completed ws ev) w w' \<Longrightarrow> retry_view w' = retry_view w"
  "maybe (sent_terminated ws ev') w w' \<Longrightarrow> retry_view w' = retry_view w"
  "maybe (pushed k x) w w' \<Longrightarrow> retry_view w' = retry_view w"
  "queue_written ls w w' \<Longrightarrow> retry_view w' = retry_view w"
  "unwritten w w' \<Longrightarrow> retry_view w' = retry_view w"
  by (auto simp: maybe_def failed_execution_def execs_written_def sent_completed_def sent_terminated_def
      inbox_appended_def pushed_def queue_written_def unwritten_def retry_view_def)

lemma retry_view_rows:
  "maybe (row_written i (failed_row msg out)) w w' \<Longrightarrow> retry_view w' = retry_view w"
  "maybe (row_written i (skipped_row out)) w w' \<Longrightarrow> retry_view w' = retry_view w"
  "maybe (row_written i (completed out)) w w' \<Longrightarrow> retry_view w' = retry_view w"
  "maybe (tasks_written P (claimed worker v)) w w' \<Longrightarrow> retry_view w' = retry_view w"
  unfolding row_written_def
  by (erule retry_view_written; simp add: failed_row_def skipped_row_def completed_def claimed_def)+

lemma row_swapped_maybe: "row_swapped i v f w w' \<Longrightarrow> maybe (tasks_written (\<lambda>t. ID t = i \<and> Version t = v) f) w w'"
  by (simp add: row_swapped_def maybe_def)

lemma retried_bounded:
  assumes "maybe (tasks_written (\<lambda>r. ID r = ID t \<and> Version r = v) (retried v)) w w'"
    and "retries_bounded w" and "\<forall>(i, c, m) \<in> set (retry_view w). i = ID t \<longrightarrow> c < m"
  shows "retries_bounded w'"
  using assms
  by (fastforce simp: maybe_def tasks_written_def unwritten_def retries_bounded_def retry_view_def
      retried_def set_update_where)

lemma retry_effect_bounded:
  assumes "retry_effect svc ws t w w'" and "retries_bounded w"
    and "\<forall>(i, c, m) \<in> set (retry_view w). i = ID t \<longrightarrow> c < m"
  shows "retries_bounded w'"
  using assms(1) unfolding retry_effect_def
proof
  assume "maybe (tasks_written (\<lambda>r. ID r = ID t \<and> Version r = Version t) (retried (Version t))) w w'"
  then show ?thesis using assms(2,3) by (rule retried_bounded)
next
  assume "(row_swapped (ID t) (Version t) (retried (Version t)) OO
      maybe (pushed (w_retry_key ws) (uuid_String svc (ID t)))) w w'"
  then obtain w1 where "row_swapped (ID t) (Version t) (retried (Version t)) w w1"
    "maybe (pushed (w_retry_key ws) (uuid_String svc (ID t))) w1 w'" by blast
  then show ?thesis
    using retried_bounded [OF row_swapped_maybe assms(2,3)] retry_view_frame(4)
    by (metis retries_bounded_view)
qed

lemma failure_effect_view: "failure_effect ws t msg w w' \<Longrightarrow> retry_view w' = retry_view w"
  unfolding failure_effect_def using retry_view_rows(1) retry_view_frame(1,3) by (metis relcomppE)

lemma handle_failure_bounded:
  assumes "handle_failure_effect svc ws t msg w w'" and "retries_bounded w"
    and "\<forall>(i, c, m) \<in> set (retry_view w). i = ID t \<longrightarrow> c = RetryCount t \<and> m = MaxRetries t"
  shows "retries_bounded w'"
proof (cases "RetryCount t < MaxRetries t")
  case True
  with assms show ?thesis
    by (intro retry_effect_bounded [of svc ws t w w']) (auto simp: handle_failure_effect_def)
next
  case False
  with assms failure_effect_view show ?thesis
    by (fastforce simp: handle_failure_effect_def retries_bounded_view)
qed

lemma run_effect_bounded:
  assumes "run_effect svc ws reg ctx t w w'" and "retries_bounded w"
    and "\<forall>(i, c, m) \<in> set (retry_view w). i = ID t \<longrightarrow> c = RetryCount t \<and> m = MaxRetries t"
  shows "retries_bounded w'"
proof (cases "reg (Action t)")
  case None
  with assms(1) obtain out w1 w2 w3 where
    "maybe (row_written (ID t) (failed_row ''unknown action'' out)) w w1"
    "maybe (sent_terminated ws (terminated_event t TaskTerminationFailed ''unknown action'')) w1 w2"
    "maybe (failed_execution (ExecutionID t)) w2 w3"
    and last: "handle_failure_effect svc ws t ''unknown action'' w3 w'"
    by (auto simp: run_effect_def unknown_effect_def)
  then have "retry_view w3 = retry_view w"
    using retry_view_rows(1) retry_view_frame(1,3) by metis
  with last assms(2,3) show ?thesis
    by (intro handle_failure_bounded [OF last]) (simp_all add: retries_bounded_view)
next
  case (Some handler)
  show ?thesis
  proof (cases "handler ctx (Input t)")
    case (Inl err)
    with Some assms show ?thesis by (auto simp: run_effect_def intro: handle_failure_bounded)
  next
    case (Inr out)
    with Some assms(1) have "retry_view w' = retry_view w"
      unfolding run_effect_def success_effect_def
      by (auto dest!: retry_view_rows(3) retry_view_frame(2))
    with assms(2) show ?thesis by (simp add: retries_bounded_view)
  qed
qed

lemma task_round_bounded:
  assumes "task_round svc ws key worker reg ctx w w'" and "unique_ids w" and "retries_bounded w"
  shows "retries_bounded w'"
  using assms(1) unfolding task_round_def
proof (elim disjE exE conjE bexE)
  assume "unwritten w w'"
  with assms(3) show ?thesis by (simp add: unwritten_def retries_bounded_def)
next
  fix xs w1
  assume "queue_written ((redis_list w)(key := xs)) w w1" and "unwritten w1 w'"
  with assms(3) show ?thesis by (simp add: unwritten_def queue_written_def retries_bounded_def)
next
  fix xs w1 t
  assume pop: "queue_written ((redis_list w)(key := xs)) w w1"
    and t: "t \<in> set (task_rows w)" and effect: "task_effect svc ws worker reg ctx t w1 w'"
  from pop have w1: "retry_view w1 = retry_view w" by (rule retry_view_frame)
  with assms(3) have b1: "retries_bounded w1" by (simp add: retries_bounded_view)
  have snap: "\<forall>(i, c, m) \<in> set (retry_view w1). i = ID t \<longrightarrow> c = RetryCount t \<and> m = MaxRetries t"
    using t assms(2) distinct_key_unique [of ID "task_rows w"]
    unfolding w1 by (auto simp: retry_view_def unique_ids_def)
  show ?thesis
  proof (cases "SkipHint t")
    case True
    with effect have "retry_view w' = retry_view w1"
      unfolding task_effect_def skip_effect_def
      by (auto dest!: retry_view_rows(2) retry_view_frame(3) [of _ _ _ w'] simp: relcompp.simps)
         (auto dest: retry_view_rows(2) [OF maybeI(1)])
    with b1 show ?thesis by (simp add: retries_bounded_view)
  next
    case False
    with effect consider
        (refused) "maybe (tasks_written (\<lambda>r. ID r = ID t \<and> Version r = Version t) (claimed worker (Version t))) w1 w'"
      | (run) w2 where "row_swapped (ID t) (Version t) (claimed worker (Version t)) w1 w2"
          "run_effect svc ws reg ctx (t\<lparr>Version := Version t + 1\<rparr>) w2 w'"
      unfolding task_effect_def by auto
    then show ?thesis
    proof cases
      case refused
      then have "retry_view w' = retry_view w1" by (rule retry_view_rows)
      with b1 show ?thesis by (simp add: retries_bounded_view)
    next
      case run
      from row_swapped_maybe [OF run(1)] have "retry_view w2 = retry_view w1" by (rule retry_view_rows)
      with b1 snap run_effect_bounded [OF run(2)] show ?thesis by (simp add: retries_bounded_view)
    qed
  qed
qed

text \<open>
  C20. No task is retried more often than its row allows: a round of a worker, of the main or of
  the retry pool, keeps every retry counter within its maximum, whatever the actions return
  and whatever fails.
\<close>

theorem retries_stay_bounded:
  assumes "lawful_services svc" and "unique_ids w" and "retries_bounded w"
    and "wk = sv_mainWorker (main_server svc i j) \<or> wk = sv_retryWorker (main_server svc i j)"
    and "run_state (Worker_ProcessNextTask svc wk ctx) w = (u, w')"
  shows "retries_bounded w'"
proof -
  obtain key name where "task_round svc (redis_wires svc retry_key) key name InitRegistry ctx w w'"
    using assms(4)
  proof
    assume "wk = sv_mainWorker (main_server svc i j)"
    with lawful_services.worker_round [OF assms(1), of i main_key retry_key InitRegistry] assms(5)
    show thesis by (auto intro: that)
  next
    assume "wk = sv_retryWorker (main_server svc i j)"
    with lawful_services.worker_round [OF assms(1), of j retry_key retry_key InitRegistry] assms(5)
    show thesis by (auto intro: that)
  qed
  then show ?thesis using assms(2,3) by (rule task_round_bounded)
qed

theorem retries_stay_bounded_witness:
  "\<exists>w'. run_state (Worker_ProcessNextTask reference_services
       (sv_mainWorker (main_server reference_services 3 4)) Background) (demo_world []) = ((), w') \<and>
     retries_bounded w'"
proof -
  have "retries_bounded (demo_world faults)" for faults
    by (simp add: retries_bounded_def) (simp add: demo_defs)
  with retries_stay_bounded [OF ref.lawful_services_axioms demo_unique_ids _ disjI1 [OF refl]]
  show ?thesis by (metis old.unit.exhaust surj_pair)
qed

lemmas server_eval = provider_fields worker_fields coordinator_fields
  RedisQueue_Pop_def RedisQueue_Push_def taskRepository_defs workflowRepository_defs event_bus_defs
  ref_call_def ref_First_def guarded_def reference_calls(3,5-21)






section \<open>Coordinator\<close>

lemma coordinator_pool:
  assumes "lawful_services svc"
  shows "sv_coord (main_server svc i j) = coordinator_ports.co (NewTaskRepository svc) (NewWorkflowRepository svc)
    (NewRedisQueue svc main_key) (NewRedisEventBus svc)"
  using lawful_services.coord_coordinator [OF assms] by simp

text \<open>
  C13. Refinement. Whatever fails, handling the completion of a task lowers the in-degree of its
  children at most once, queues only children that were waiting for it alone, each at most once
  and in the order the database returned them, and looks at the execution only if it queued
  nothing. When no call fails it does exactly this: every child is lowered by one, all the
  children that were waiting for it alone are appended to the main queue, and if there are none
  the execution, unless it is FAILED, becomes COMPLETED if all its tasks are, and nothing else
  changes.
\<close>

theorem completion_refines_resolution:
  assumes "lawful_services svc"
    and "run_state (Coordinator_handleTaskCompleted svc (sv_coord (main_server svc i j)) ev) w = (u, w')"
  shows "resolve_effect svc main_key (depends_on svc) decremented True (tc_ExecutionID ev) (tc_RefID ev) w w' \<and>
    (\<forall>quiet. flawless_services svc quiet \<and> quiet (hidden w) \<and> printable (tc_RefID ev) \<and> plain (tc_RefID ev) \<longrightarrow>
       resolve_done svc main_key (depends_on svc) decremented True (tc_ExecutionID ev) (tc_RefID ev) w w')"
proof
  show "resolve_effect svc main_key (depends_on svc) decremented True (tc_ExecutionID ev) (tc_RefID ev) w w'"
    using lawful_services.coordinator_completed [OF assms(1)] assms(2) by simp
  show "\<forall>quiet. flawless_services svc quiet \<and> quiet (hidden w) \<and> printable (tc_RefID ev) \<and> plain (tc_RefID ev) \<longrightarrow>
      resolve_done svc main_key (depends_on svc) decremented True (tc_ExecutionID ev) (tc_RefID ev) w w'"
    using flawless_services.completed_through [OF _ assms(2) [unfolded coordinator_pool [OF assms(1)]]] by blast
qed

text \<open>The one child of the task \<open>a\<close> of the small database.\<close>

lemma demo_children: "unblocked (depends_on reference_services) 7 ''a'' (demo_world []) = {#2#}"
proof -
  have "string_array (Dependencies demo_root) = Some []" "string_array (Dependencies demo_child) = Some [''a'']"
    by code_simp+
  moreover have "string_array (depParam ''a'') = Some [''a'']"
    unfolding depParam_def by (rule string_array_singleton) (simp add: plain_def code_def)
  ultimately have "depends_on reference_services demo_child ''a''" "\<not> depends_on reference_services demo_root ''a''"
    by (simp_all add: depends_on_def ref.jsonb_contains_law)
  then show ?thesis by (simp add: unblocked_def children_def)
qed

lemma resolve_done_queued:
  assumes "resolve_done svc key dep f finishes ex p w w'" and "unblocked dep ex p w = {#i#}"
  shows "redis_list w' key = redis_list w key @ [uuid_String svc i]"
  using assms by (auto simp: resolve_done_def queue_written_def split: if_splits)

theorem completion_refines_resolution_witness:
  "\<exists>w'. run_state (Coordinator_handleTaskCompleted reference_services
       (sv_coord (main_server reference_services 3 4)) (completed_event demo_root)) (demo_world []) = ((), w') \<and>
     redis_list w' main_key = [uuid_String reference_services 2]"
proof -
  obtain w' where run: "run_state (Coordinator_handleTaskCompleted reference_services
       (sv_coord (main_server reference_services 3 4)) (completed_event demo_root)) (demo_world []) = ((), w')"
    by (metis old.unit.exhaust surj_pair)
  have ev: "tc_ExecutionID (completed_event demo_root) = 7" "tc_RefID (completed_event demo_root) = ''a''"
    by (simp_all add: completed_event_def demo_root_def)
  have "printable ''a''" "plain ''a''" "healthy (hidden (demo_world []))"
    by (simp_all add: printable_def plain_def code_def healthy_def)
  with completion_refines_resolution [OF ref.lawful_services_axioms run, unfolded ev] calm.flawless_services_axioms
  have "resolve_done reference_services main_key (depends_on reference_services) decremented True 7 ''a'' (demo_world []) w'"
    by blast
  from resolve_done_queued [OF this demo_children] run show ?thesis by (intro exI [of _ w']) simp
qed

text \<open>
  C14. Refinement. Handling a termination does the same with the children marked to be skipped,
  and never touches an execution, whatever fails; when no call fails every child is lowered by one
  and marked, and all the children that were waiting for this task alone are queued.
\<close>

theorem termination_refines_resolution:
  assumes "lawful_services svc"
    and "run_state (Coordinator_handleTaskTerminated svc (sv_coord (main_server svc i j)) ev) w = (u, w')"
  shows "resolve_effect svc main_key (depends_on svc) tainted False (tt_ExecutionID ev) (tt_RefID ev) w w' \<and>
    exec_rows w' = exec_rows w \<and>
    (\<forall>quiet. flawless_services svc quiet \<and> quiet (hidden w) \<and> printable (tt_RefID ev) \<and> plain (tt_RefID ev) \<longrightarrow>
       resolve_done svc main_key (depends_on svc) tainted False (tt_ExecutionID ev) (tt_RefID ev) w w')"
proof (intro conjI)
  show effect: "resolve_effect svc main_key (depends_on svc) tainted False (tt_ExecutionID ev) (tt_RefID ev) w w'"
    using lawful_services.coordinator_terminated [OF assms(1)] assms(2) by simp
  then show "exec_rows w' = exec_rows w"
    by (auto simp: resolve_effect_def tasks_rewritten_def unwritten_def queued_some_def queue_written_def)
  show "\<forall>quiet. flawless_services svc quiet \<and> quiet (hidden w) \<and> printable (tt_RefID ev) \<and> plain (tt_RefID ev) \<longrightarrow>
      resolve_done svc main_key (depends_on svc) tainted False (tt_ExecutionID ev) (tt_RefID ev) w w'"
    using flawless_services.terminated_through [OF _ assms(2) [unfolded coordinator_pool [OF assms(1)]]] by blast
qed

lemma resolve_done_rows:
  assumes "resolve_done svc key dep f finishes ex p w w'"
  shows "task_rows w' = update_where (children dep ex p) f (task_rows w)"
  using assms by (auto simp: resolve_done_def tasks_rewritten_def queue_written_def execs_written_def unwritten_def
      split: if_splits)

theorem termination_refines_resolution_witness:
  "\<exists>w'. run_state (Coordinator_handleTaskTerminated reference_services
       (sv_coord (main_server reference_services 3 4))
       (terminated_event demo_root TaskTerminationFailed ''x'')) (demo_world []) = ((), w') \<and>
     redis_list w' main_key = [uuid_String reference_services 2] \<and> tainted demo_child \<in> set (task_rows w') \<and>
     exec_rows w' = exec_rows (demo_world [])"
proof -
  let ?ev = "terminated_event demo_root TaskTerminationFailed ''x''"
  obtain w' where run: "run_state (Coordinator_handleTaskTerminated reference_services
       (sv_coord (main_server reference_services 3 4)) ?ev) (demo_world []) = ((), w')"
    by (metis old.unit.exhaust surj_pair)
  have ev: "tt_ExecutionID ?ev = 7" "tt_RefID ?ev = ''a''"
    by (simp_all add: terminated_event_def demo_root_def)
  have "printable ''a''" "plain ''a''" "healthy (hidden (demo_world []))"
    by (simp_all add: printable_def plain_def code_def healthy_def)
  with termination_refines_resolution [OF ref.lawful_services_axioms run, unfolded ev] calm.flawless_services_axioms
  have resolved: "resolve_done reference_services main_key (depends_on reference_services) tainted False 7 ''a'' (demo_world []) w'"
    and execs: "exec_rows w' = exec_rows (demo_world [])"
    by blast+
  have "children (depends_on reference_services) 7 ''a'' demo_child"
    using demo_children by (auto simp: unblocked_def split: if_splits)
  with resolve_done_rows [OF resolved] have "tainted demo_child \<in> set (task_rows w')" by simp
  with resolve_done_queued [OF resolved demo_children] run execs show ?thesis by (intro exI [of _ w']) simp
qed

section \<open>Submission\<close>

text \<open>
  C18. What a submission writes. A success returns the identifier of the execution, has stored
  it with all its tasks, and has queued exactly its root tasks, in order; an error leaves
  everything as it was, or the stored workflow with only the first few root tasks queued.
\<close>

theorem submission_writes:
  assumes "lawful_services svc"
    and "run_state (workflowService_SubmitWorkflow svc (sv_workflowSvc (main_server svc i j)) e ts) w = (r, w')"
  shows "case r of
      Inr n \<Rightarrow> n = we_ID e \<and> execution_fresh e ts w \<and>
        submitted svc main_key e ts (length (workflowService_getRootTasks ts)) w w'
    | Inl err \<Rightarrow> unwritten w w' \<or>
        (\<exists>n \<le> length (workflowService_getRootTasks ts). submitted svc main_key e ts n w w')"
  using lawful_services.submission_outcome [OF assms(1)] assms(2) by simp

lemma submission_demo:
  "\<exists>w'. run_state (workflowService_SubmitWorkflow reference_services
       (sv_workflowSvc (main_server reference_services 3 4)) new_execution new_tasks) (demo_world []) =
     (Inr 8, w')"
proof -
  have "list_all ref_jsonb_valid (jsonb_texts new_tasks)" by code_simp
  then show ?thesis
    by (simp add: workflowService_SubmitWorkflow_def workflowService_persistWorkflow_def NewWorkflowService_def
        server_eval ref_Transaction_def new_execution_def new_tasks_def demo_execution_def)
qed

theorem submission_writes_witness:
  "\<exists>w'. run_state (workflowService_SubmitWorkflow reference_services
       (sv_workflowSvc (main_server reference_services 3 4)) new_execution new_tasks) (demo_world []) =
     (Inr 8, w') \<and> submitted reference_services main_key new_execution new_tasks 1 (demo_world []) w'"
proof -
  obtain w' where run: "run_state (workflowService_SubmitWorkflow reference_services
      (sv_workflowSvc (main_server reference_services 3 4)) new_execution new_tasks) (demo_world []) =
      (Inr 8, w')"
    using submission_demo by (elim exE) (rule that)
  have "length (workflowService_getRootTasks new_tasks) = 1" by (simp add: new_tasks_def)
  with submission_writes [OF ref.lawful_services_axioms run]
  have "submitted reference_services main_key new_execution new_tasks 1 (demo_world []) w'"
    by simp
  with run show ?thesis by (intro exI conjI)
qed

text \<open>
  C33. The answer to a submission. A body that does not decode, or a request that violates a
  binding tag, changes nothing and gets 500 with the message; otherwise the answer is 201 with the
  identifier of the execution if the workflow is stored and all its root tasks are queued, and 500
  otherwise.
\<close>

theorem handler_answers:
  assumes "lawful_services svc"
    and "run_state (WorkflowHandler_SubmitWorkflow svc (sv_workflowHandler (main_server svc i j)) ids clock
           complaint decoded) w = (r, w')"
  shows "case decoded of
      Inl err \<Rightarrow> http_status r = 500 \<and> http_body r = error_body err \<and> w' = w
    | Inr req \<Rightarrow>
        if \<not> binding_ok req then http_status r = 500 \<and> http_body r = error_body (complaint req) \<and> w' = w
        else (case ToWorkflowExecution ids clock req of (e, ts) \<Rightarrow>
          (http_status r = 201 \<and> http_body r = response_json svc \<lparr>resp_ID = ids 0\<rparr> \<and>
             submitted svc main_key e ts (length (workflowService_getRootTasks ts)) w w') \<or>
          (http_status r = 500 \<and> (unwritten w w' \<or>
             (\<exists>n \<le> length (workflowService_getRootTasks ts). submitted svc main_key e ts n w w'))))"
proof (cases "\<exists>req. decoded = Inr req \<and> binding_ok req")
  case False
  with assms(2) show ?thesis
    by (auto simp: WorkflowHandler_SubmitWorkflow_def ShouldBindJSON_def StatusInternalServerError_def split: sum.splits)
next
  case True
  then obtain req where req: "decoded = Inr req" "binding_ok req" by blast
  obtain e ts where e: "ToWorkflowExecution ids clock req = (e, ts)" by fastforce
  then have id: "we_ID e = ids 0" by (auto simp: ToWorkflowExecution_simps NewWorkflow_def)
  obtain r1 w1 where submit: "run_state (workflowService_SubmitWorkflow svc
      (sv_workflowSvc (main_server svc i j)) e ts) w = (r1, w1)" by fastforce
  note out = lawful_services.submission_outcome [OF assms(1), of main_key e ts w r1 w1]
  show ?thesis
    using assms(2) req e id submit out
    by (cases r1) (auto simp: WorkflowHandler_SubmitWorkflow_def ShouldBindJSON_def NewWorkflowHandler_def
        StatusInternalServerError_def StatusCreated_def submitted_def)
qed

text \<open>A request with one task, and with none.\<close>

definition good_request :: CreateWorkflowRequest where
  "good_request = \<lparr>req_Type = ''onboarding'', req_UserID = 9, req_Tasks =
     [\<lparr>dto_RefID = ''a'', dto_Action = ''assign_equipment'', dto_Dependencies = None, dto_Input = Some []\<rparr>]\<rparr>"

definition empty_request :: CreateWorkflowRequest where
  "empty_request = good_request\<lparr>req_Tasks := []\<rparr>"

lemma good_request_run:
  "\<exists>r w'. run_state (WorkflowHandler_SubmitWorkflow reference_services
     (sv_workflowHandler (main_server reference_services 3 4)) (\<lambda>n. of_nat (n + 20)) (\<lambda>_. 1)
     (\<lambda>_. Err ''invalid'') (Inr good_request)) (demo_world []) = (r, w') \<and> http_status r = 201"
proof -
  have "list_all ref_jsonb_valid (jsonb_texts (ToTasks (\<lambda>n. of_nat (n + 20)) (\<lambda>_. 1) 1 20 (req_Tasks good_request)))"
    by code_simp
  moreover have "binding_ok good_request" by (simp add: binding_ok_def good_request_def)
  ultimately show ?thesis
    by (simp add: WorkflowHandler_SubmitWorkflow_def ShouldBindJSON_def ToWorkflowExecution_simps NewWorkflowHandler_def
        workflowService_SubmitWorkflow_def workflowService_persistWorkflow_def NewWorkflowService_def server_eval
        ref_Transaction_def good_request_def StatusCreated_def demo_execution_def NewWorkflow_def slice_len_def)
qed

theorem handler_answers_witness:
  "\<exists>r w' r' w''. run_state (WorkflowHandler_SubmitWorkflow reference_services
       (sv_workflowHandler (main_server reference_services 3 4)) (\<lambda>n. of_nat (n + 20)) (\<lambda>_. 1)
       (\<lambda>_. Err ''invalid'') (Inr good_request)) (demo_world []) = (r, w') \<and> http_status r = 201 \<and>
     redis_list w' main_key = [uuid_String reference_services 21] \<and>
     run_state (WorkflowHandler_SubmitWorkflow reference_services
       (sv_workflowHandler (main_server reference_services 3 4)) (\<lambda>n. of_nat (n + 20)) (\<lambda>_. 1)
       (\<lambda>_. Err ''invalid'') (Inr empty_request)) (demo_world []) = (r', w'') \<and>
     http_status r' = 500 \<and> w'' = demo_world []"
proof -
  let ?submit = "WorkflowHandler_SubmitWorkflow reference_services
      (sv_workflowHandler (main_server reference_services 3 4)) (\<lambda>n. of_nat (n + 20)) (\<lambda>_. 1) (\<lambda>_. Err ''invalid'')"
  obtain r w' where good: "run_state (?submit (Inr good_request)) (demo_world []) = (r, w')" "http_status r = 201"
    using good_request_run by blast
  obtain r' w'' where bad: "run_state (?submit (Inr empty_request)) (demo_world []) = (r', w'')"
    by (rule prod.exhaust)
  have tags: "binding_ok good_request" "\<not> binding_ok empty_request"
    by (simp_all add: binding_ok_def good_request_def empty_request_def)
  from handler_answers [OF ref.lawful_services_axioms good(1)] good(2) tags(1)
  have "redis_list w' main_key = [uuid_String reference_services 21]"
    by (auto simp: good_request_def ToWorkflowExecution_simps submitted_def slice_len_def)
  moreover from handler_answers [OF ref.lawful_services_axioms bad] tags(2)
  have "http_status r' = 500" "w'' = demo_world []" by simp_all
  ultimately show ?thesis using good bad by (intro exI conjI)
qed






section \<open>Mapper\<close>

text \<open>
  C36. The in-degree of a new task is the number of dependencies in the request, the task is
  queued exactly when there are none, and the stored dependencies read back as the list of
  the request, whatever characters its names contain.
\<close>

theorem mapper_dependencies:
  "let t = ToTask newID now ex d in
     InDegree t = slice_len (dto_Dependencies d) \<and>
     (Status t = StatusQueued) = (InDegree t = 0) \<and> (Status t = StatusPending) = (InDegree t \<noteq> 0) \<and>
     string_array (Dependencies t) = dto_Dependencies d"
  by (simp add: Let_def string_array_dependencies)

text \<open>
  C37. The stored input reads back as the JSON value of the request, its members in the order
  of their keys at every level.
\<close>

theorem mapper_input:
  assumes "dto_Input d = Some kvs" and "wf_json (JObj kvs)"
  shows "json_parse (Input (ToTask newID now ex d)) = Some (sort_members (JObj kvs))"
  using marshal_input_parse [of "dto_Input d"] assms by (simp del: sort_members.simps)

theorem mapper_input_witness:
  "json_parse (Input (ToTask 1 1 7 \<lparr>dto_RefID = ''a'', dto_Action = ''x'', dto_Dependencies = None,
     dto_Input = Some [(''k'', JStr [quote]), (''b'', JNull)]\<rparr>)) =
     Some (JObj [(''b'', JNull), (''k'', JStr [quote])])"
proof -
  have "sort_members (JObj [(''k'', JStr [quote]), (''b'', JNull)]) = JObj [(''b'', JNull), (''k'', JStr [quote])]"
    by simp
  with mapper_input [of "\<lparr>dto_RefID = ''a'', dto_Action = ''x'', dto_Dependencies = None,
     dto_Input = Some [(''k'', JStr [quote]), (''b'', JNull)]\<rparr>", OF _ _] show ?thesis by simp
qed

text \<open>
  C32. The query for the children of a parent finds exactly the tasks whose request lists the
  parent among their dependencies, provided the parent's name needs no escaping in JSON.
\<close>

theorem dependency_query:
  assumes "lawful_services svc" and "plain p"
  shows "depends_on svc (ToTask newID now ex d) p = (\<exists>ds. dto_Dependencies d = Some ds \<and> p \<in> set ds)"
  using depends_on_marshalled [OF assms ToTask_fields(9)] .

theorem dependency_query_witness:
  "depends_on reference_services (ToTask 1 1 7 \<lparr>dto_RefID = ''b'', dto_Action = ''x'',
     dto_Dependencies = Some [''a'', ''c''], dto_Input = None\<rparr>) ''c''"
proof -
  have "plain ''c''" by (simp add: plain_def code_def)
  from dependency_query [OF ref.lawful_services_axioms this] show ?thesis by simp
qed

text \<open>
  C31. Duplicate dependencies are counted but not resolved. A task that lists its one parent
  twice starts with in-degree two; the parent's completion lowers it to one and does not
  return the task, although no dependency is left: it is never queued.
\<close>

theorem duplicate_dependency_stuck:
  assumes "lawful_services svc" and "unique_ids w" and "plain p"
    and "t = stamp_task ts (task_column_defaults (ToTask i now ex
      \<lparr>dto_RefID = n, dto_Action = a, dto_Dependencies = Some [p, p], dto_Input = inp\<rparr>))"
    and "t \<in> set (task_rows w)"
    and "run_state (taskRepository_DecrementAndGetReadyTasks svc ex p) w = (Inr ids, w')"
  shows "InDegree t = 2 \<and> i \<notin> set ids \<and> decremented t \<in> set (task_rows w') \<and> InDegree (decremented t) = 1"
proof -
  have t: "ID t = i" "InDegree t = 2" "ExecutionID t = ex" "Dependencies t = marshal_dependencies (Some [p, p])"
    using assms(4) by (simp_all add: stamp_task_def task_column_defaults_def slice_len_def)
  then have dep: "depends_on svc t p"
    using depends_on_marshalled [OF assms(1,3) t(4)] by simp
  note decr = lawful_services.DecrementAndGetReadyTasks_correct [OF assms(1,6)]
  then have rows: "task_rows w' = update_where (\<lambda>t. ExecutionID t = ex \<and> depends_on svc t p) decremented (task_rows w)"
    and ids: "mset ids \<subseteq># mset (map ID (filter
      (\<lambda>t. (ExecutionID t = ex \<and> depends_on svc t p) \<and> InDegree t = 1) (task_rows w)))"
    by (auto simp: tasks_rewritten_def)
  have "decremented t \<in> set (task_rows w')"
    unfolding rows set_update_where using assms(5) dep t(3) by (auto intro!: bexI [of _ t])
  moreover have "i \<notin> set ids"
  proof
    assume "i \<in> set ids"
    with set_mset_mono [OF ids] obtain t' where t': "t' \<in> set (task_rows w)" "ID t' = i" "InDegree t' = 1"
      by auto
    with assms(2,5) t(1) have "t' = t"
      using distinct_key_unique [of ID "task_rows w" t' t] by (simp add: unique_ids_def)
    with t' t(2) show False by simp
  qed
  ultimately show ?thesis using t(2) by (simp add: decremented_def)
qed

text \<open>A stored task that lists its parent \<open>a\<close> twice.\<close>

definition doubled_task :: Task where
  "doubled_task = stamp_task 1 (task_column_defaults (ToTask 2 1 7
     \<lparr>dto_RefID = ''b'', dto_Action = ''x'', dto_Dependencies = Some [''a'', ''a''], dto_Input = None\<rparr>))"

lemma doubled_run:
  "\<exists>w'. run_state (taskRepository_DecrementAndGetReadyTasks reference_services 7 ''a'')
     ((demo_world [])\<lparr>task_rows := [doubled_task]\<rparr>) = (Inr [], w')"
proof -
  have "InDegree doubled_task = 2"
    by (simp add: doubled_task_def stamp_task_def task_column_defaults_def slice_len_def)
  then show ?thesis by (simp add: server_eval)
qed

theorem duplicate_dependency_stuck_witness:
  "\<exists>w'. run_state (taskRepository_DecrementAndGetReadyTasks reference_services 7 ''a'')
     ((demo_world [])\<lparr>task_rows := [doubled_task]\<rparr>) = (Inr [], w') \<and> decremented doubled_task \<in> set (task_rows w')"
proof -
  obtain w' where run: "run_state (taskRepository_DecrementAndGetReadyTasks reference_services 7 ''a'')
      ((demo_world [])\<lparr>task_rows := [doubled_task]\<rparr>) = (Inr [], w')"
    using doubled_run by (elim exE) (rule that)
  have "plain ''a''" by (simp add: plain_def code_def)
  from duplicate_dependency_stuck [OF ref.lawful_services_axioms _ this doubled_task_def _ run]
  have "decremented doubled_task \<in> set (task_rows w')"
    by (simp add: unique_ids_def demo_execution_def)
  with run show ?thesis by (intro exI conjI)
qed

section \<open>Registry\<close>

text \<open>
  C39. Every output a registered action can return is a JSON text, so the output column of the
  task takes it.
\<close>

theorem registered_outputs_are_json:
  assumes "InitRegistry action = Some handler" and "handler ctx input = Inr out"
  shows "json_parse out \<noteq> None"
  using assms by (rule handler_output_json)

theorem registered_outputs_are_json_witness:
  "\<exists>out. timeout_task Background [] = Inr out \<and> json_parse out \<noteq> None"
proof -
  have reg: "InitRegistry ''timeout_task'' = Some timeout_task" by (simp add: InitRegistry_def)
  have "\<exists>out. timeout_task Background [] = Inr out"
    by (simp add: timeout_task_result Background_def)
  then obtain out where "timeout_task Background [] = Inr out" by (elim exE) (rule that)
  with registered_outputs_are_json [OF reg this] show ?thesis by (intro exI conjI)
qed

text \<open>
  C38. The long-running action returns after at most a hundred polls of its context: with the
  context's error if one of the polls finds it done, with its output otherwise.
\<close>

theorem timeout_task_terminates:
  \<open>timeout_task ctx input =
     (if \<exists>k < 100. ctx_Done ctx k then Inl (ctx_Err ctx)
      else Inr ''{"status": "success", "completed": true}'')\<close>
  by (rule timeout_task_result)

end
