(* ===== verification/System_Demo.thy ===== *)
theory System_Demo
  imports System_Lossless App_Properties
begin

text \<open>
  One run of the whole program on the reference services: a request with a task \<open>a\<close> and a task
  \<open>b\<close> that depends on it arrives, \<open>a\<close> runs and succeeds, its event is handled, and a worker is
  about to run \<open>b\<close>. The witnesses of the properties of the running program are taken from it.
\<close>

section \<open>The request\<close>

definition demo_dto_a :: TaskDTO where
  "demo_dto_a = \<lparr>dto_RefID = ''a'', dto_Action = ''assign_equipment'', dto_Dependencies = None, dto_Input = None\<rparr>"

definition demo_dto_b :: TaskDTO where
  "demo_dto_b = demo_dto_a\<lparr>dto_RefID := ''b'', dto_Dependencies := Some [''a'']\<rparr>"

definition demo_request :: CreateWorkflowRequest where
  "demo_request = \<lparr>req_Type = ''onboarding'', req_UserID = 9, req_Tasks = [demo_dto_a, demo_dto_b]\<rparr>"

definition demo_a :: Task where "demo_a = ToTask 8 1 7 demo_dto_a"
definition demo_b :: Task where "demo_b = ToTask 9 1 7 demo_dto_b"

definition demo_server :: "schedule server" where
  "demo_server = main_server reference_services 3 4"

lemma demo_task_fields [simp]:
  "ID demo_a = 8" "ID demo_b = 9" "ExecutionID demo_a = 7" "ExecutionID demo_b = 7"
  "RefID demo_a = ''a''" "RefID demo_b = ''b''" "Action demo_a = ''assign_equipment''" "Action demo_b = ''assign_equipment''"
  "InDegree demo_a = 0" "InDegree demo_b = 1" "\<not> SkipHint demo_a" "\<not> SkipHint demo_b"
  "Version demo_a = 1" "Version demo_b = 1" "Output demo_a = []" "Output demo_b = []"
  "Dependencies demo_a = marshal_dependencies None" "Dependencies demo_b = marshal_dependencies (Some [''a''])"
  "Input demo_a = marshal_input None" "Input demo_b = marshal_input None"
  by (simp_all add: demo_a_def demo_b_def demo_dto_a_def demo_dto_b_def slice_len_def)

lemma demo_submission:
  "ToWorkflowExecution (\<lambda>n. of_nat (n + 7)) (\<lambda>_. 1) demo_request = (NewWorkflow 7 1 9 ''onboarding'', [demo_a, demo_b])"
  by (simp add: ToWorkflowExecution_simps demo_request_def demo_a_def demo_b_def)

lemma demo_sane: "sane_request InitRegistry demo_request"
  by (simp add: sane_request_def sane_task_def demo_request_def demo_dto_a_def demo_dto_b_def plain_def code_def InitRegistry_def)

section \<open>The shape of its states\<close>

text \<open>Only the first main worker moves, and there is one request.\<close>

definition demo_sys :: "schedule world \<Rightarrow> worker_pc \<Rightarrow> coord_pc \<Rightarrow> TaskCompletedEvent option \<Rightarrow> request_pc list \<Rightarrow>
    uuid list \<Rightarrow> (uuid \<times> bool) list \<Rightarrow> schedule sys" where
  "demo_sys w pc c x qs us hs =
     \<lparr>sys_world = w, sys_workers = pc # replicate 9 W_idle, sys_coord = c, sys_completed = x,
      sys_terminated = None, sys_requests = qs, sys_succeeded = us, sys_handled = hs\<rparr>"

abbreviation demo_lossless :: "schedule sys \<Rightarrow> bool" where
  "demo_lossless \<equiv> lossless reference_services demo_server healthy"

abbreviation demo_reachable :: "schedule sys \<Rightarrow> bool" where
  "demo_reachable \<equiv> reachable reference_services demo_server"

lemma demo_worker:
  assumes "demo_lossless (demo_sys w pc c x qs us hs)"
    and "run_state (worker_step reference_services (sv_mainWorker demo_server) Background pc) w = (pc', w')"
  shows "demo_lossless (demo_sys w' pc' c x qs (us @ success_of pc pc') hs)"
  using lossless.step [OF assms(1) sys_step.worker [where k = 0 and pc = pc' and w = w']] lossless_printable [OF assms(1)] assms(2)
  by (simp add: demo_sys_def worker_of_def demo_server_def del: worker_step.simps)

lemma demo_coordinator:
  assumes "demo_lossless (demo_sys w pc c x qs us hs)"
    and "run_state (coord_step reference_services (sv_coord demo_server) c) w = (c', w')"
  shows "demo_lossless (demo_sys w' pc c' x qs us (hs @ handled_of (depends_on reference_services) c w w'))"
  using lossless.step [OF assms(1) sys_step.coordinator [where c = c' and w = w']] lossless_printable [OF assms(1)] assms(2)
  by (simp add: demo_sys_def del: coord_step.simps handled_of.simps)

lemma demo_request_step:
  assumes "demo_lossless (demo_sys w pc c x [q] us hs)"
    and "run_state (request_step reference_services (sv_workflowSvc demo_server) q) w = (q', w')"
  shows "demo_lossless (demo_sys w' pc c x [q'] us hs)"
  using lossless.step [OF assms(1) sys_step.request [where k = 0 and q = q' and w = w']]
    printable_requests_step [OF lossless_printable [OF assms(1)], of reference_services "sv_workflowSvc demo_server" 0 w q' w'] assms(2)
  by (simp add: demo_sys_def del: request_step.simps)

lemma demo_receive:
  assumes "demo_lossless (demo_sys w pc c None qs us hs)"
    and "run_state (SubscribeToEvents (co_eventBus (sv_coord demo_server))) w = (x, w')"
  shows "demo_lossless (demo_sys w' pc c x qs us hs)"
  using lossless.step [OF assms(1) sys_step.receive_completed [where x = x and w = w']] lossless_printable [OF assms(1)] assms(2)
  by (simp add: demo_sys_def)

lemma demo_take:
  assumes "demo_lossless (demo_sys w pc C_idle (Some ev) qs us hs)"
  shows "demo_lossless (demo_sys (w\<lparr>mlog := mlog w @ [MInc CoordinatorEventsProcessedTotal [''completed'']]\<rparr>)
     pc (C_decrement ev) None qs us hs)"
  using lossless.step [OF assms(1) sys_step.take_completed [where ev = ev]] lossless_printable [OF assms(1)]
  by (simp add: demo_sys_def)

definition demo_start :: "schedule world" where
  "demo_start = (demo_world [])\<lparr>task_rows := [], exec_rows := []\<rparr>"

lemma demo_arrived:
  "demo_lossless (demo_sys demo_start W_idle C_idle None
     [R_create (NewWorkflow 7 1 9 ''onboarding'') [demo_a, demo_b]] [] [])"
proof -
  have "empty_world demo_start" "healthy (hidden demo_start)"
    by (simp_all add: empty_world_def healthy_def demo_start_def)
  from lossless.step [OF lossless.start [where quiet = healthy, OF this, of reference_services demo_server]
      sys_step.arrive [OF demo_sane demo_submission]]
  show ?thesis by (simp add: printable_requests_def printable_def code_def demo_sys_def sys_init_def demo_server_def replicate_Suc [symmetric] del: replicate_Suc)
qed

section \<open>The run\<close>

definition demo_workflow :: WorkflowExecution where
  "demo_workflow = NewWorkflow 7 1 9 ''onboarding''"

definition demo_holds :: "schedule world \<Rightarrow> Task list \<Rightarrow> string list \<Rightarrow> string list \<Rightarrow> bool" where
  "demo_holds w ts main msgs \<longleftrightarrow> task_rows w = ts \<and> redis_list w main_key = main \<and>
     inbox w completed_channel = msgs \<and> hidden w = [] \<and> exec_rows w = [stamp_execution 1 demo_workflow]"

lemma demo_holds_log [simp]: "demo_holds (w\<lparr>mlog := l\<rparr>) ts main msgs = demo_holds w ts main msgs"
  by (simp add: demo_holds_def)

definition demo_row :: "Task \<Rightarrow> Task" where
  "demo_row t = stamp_task 1 (task_column_defaults t)"

lemma demo_row_fields [simp]:
  "ID (demo_row t) = ID t" "ExecutionID (demo_row t) = ExecutionID t" "RefID (demo_row t) = RefID t"
  "Action (demo_row t) = Action t" "InDegree (demo_row t) = InDegree t" "SkipHint (demo_row t) = SkipHint t"
  "Dependencies (demo_row t) = Dependencies t" "Input (demo_row t) = Input t" "Output (demo_row t) = Output t"
  "Version (demo_row t) = (if Version t = 0 then 1 else Version t)"
  by (simp_all add: demo_row_def stamp_task_def task_column_defaults_def)

lemma demo_stored_json:
  "list_all ref_jsonb_valid (jsonb_texts [demo_a, demo_b])"
proof -
  have "ref_jsonb_valid (marshal_input None)"
    using marshal_input_parse [of None] by (simp add: ref_jsonb_valid_def)
  moreover have "ref_jsonb_valid (marshal_dependencies (Some xs))" for xs
    using string_array_dependencies [of "Some xs"]
    by (auto simp: ref_jsonb_valid_def string_array_def split: option.splits)
  moreover have "marshal_dependencies None = marshal_input None"
    by (simp add: marshal_dependencies_def marshal_input_def)
  ultimately show ?thesis by (simp add: jsonb_texts_def)
qed

lemma demo_stored:
  "\<exists>w. demo_lossless (demo_sys w W_idle C_idle None [R_push (NewWorkflow 7 1 9 ''onboarding'') [demo_a]] [] []) \<and>
     demo_holds w [demo_row demo_a, demo_row demo_b] [] []"
proof -
  obtain w where w: "run_state (taskRepository_CreateExecution reference_services (NewWorkflow 7 1 9 ''onboarding'')
      [demo_a, demo_b]) demo_start = (Inr (), w)" "demo_holds w [demo_row demo_a, demo_row demo_b] [] []"
    using demo_stored_json
    by (simp add: server_eval ref_Transaction_def demo_start_def demo_holds_def demo_row_def demo_workflow_def)
  then have "run_state (request_step reference_services (sv_workflowSvc demo_server)
      (R_create (NewWorkflow 7 1 9 ''onboarding'') [demo_a, demo_b])) demo_start =
      (R_push (NewWorkflow 7 1 9 ''onboarding'') [demo_a], w)"
    by (simp add: demo_server_def workflowService_persistWorkflow_def NewWorkflowService_def provider_fields)
  from demo_request_step [OF demo_arrived this] w(2) show ?thesis by blast
qed

lemma demo_pushed:
  "\<exists>w qs. demo_lossless (demo_sys w W_idle C_idle None qs [] []) \<and>
     demo_holds w [demo_row demo_a, demo_row demo_b] [uuid_String reference_services 8] []"
proof -
  obtain w where w: "demo_lossless (demo_sys w W_idle C_idle None [R_push (NewWorkflow 7 1 9 ''onboarding'') [demo_a]] [] [])"
    "demo_holds w [demo_row demo_a, demo_row demo_b] [] []" using demo_stored by (elim exE conjE) (rule that)
  then obtain w' where w': "run_state (RedisQueue_Push reference_services main_key (uuid_String reference_services 8)) w = (Inr (), w')"
    "demo_holds w' [demo_row demo_a, demo_row demo_b] [uuid_String reference_services 8] []"
    by (simp add: server_eval demo_holds_def)
  then have "run_state (request_step reference_services (sv_workflowSvc demo_server)
      (R_push (NewWorkflow 7 1 9 ''onboarding'') [demo_a])) w = (R_push (NewWorkflow 7 1 9 ''onboarding'') [], w')"
    by (simp add: demo_server_def NewWorkflowService_def provider_fields)
  from demo_request_step [OF w(1) this] w'(2) show ?thesis by blast
qed

lemma demo_found:
  assumes "demo_lossless (demo_sys w W_idle c x qs us hs)"
    and "demo_holds w ts (uuid_String reference_services (ID t) # main) msgs"
    and "filter (\<lambda>r. ID r = ID t) ts = [t]" and "\<not> SkipHint t"
  shows "\<exists>w. demo_lossless (demo_sys w (W_claim t) c x qs us hs) \<and> demo_holds w ts main msgs"
proof -
  obtain w1 where w1: "run_state (RedisQueue_Pop reference_services main_key) w = (Inr (uuid_String reference_services (ID t)), w1)"
    "demo_holds w1 ts main msgs"
    using assms(2) by (simp add: server_eval demo_holds_def)
  then have "run_state (worker_step reference_services (sv_mainWorker demo_server) Background W_idle) w = (W_find (ID t), w1)"
    by (simp add: demo_server_def worker_fields provider_fields ref.uuid_law)
  from demo_worker [OF assms(1) this]
  have r1: "demo_lossless (demo_sys w1 (W_find (ID t)) c x qs us hs)" by simp
  obtain w2 where w2: "run_state (taskRepository_FindTaskByID reference_services (ID t)) w1 = (Inr t, w2)"
    "demo_holds w2 ts main msgs"
    using w1(2) assms(3) by (simp add: server_eval demo_holds_def)
  have "run_state (worker_step reference_services (sv_mainWorker demo_server) Background (W_find (ID t))) w1 =
      (W_claim t, w2\<lparr>mlog := mlog w2 @ [MObserve WorkerQueueWaitTime []]\<rparr>)"
    using w2(1) assms(4) by (simp add: demo_server_def worker_fields provider_fields)
  from demo_worker [OF r1 this] w2(2) show ?thesis by (auto simp: demo_holds_def)
qed

text \<open>A worker claims the task it has found, runs it and publishes its completion.\<close>

definition demo_output :: string where
  \<open>demo_output = ''{"status": "success", "laptop_id": "LT-789", "monitor_id": "MN-456", "assigned": true}''\<close>

definition demo_claimed :: "Task \<Rightarrow> Task" where
  "demo_claimed t = (claimed (uuid_String reference_services 3) (Version t) t)\<lparr>UpdatedAt := 1\<rparr>"

definition demo_done :: "Task \<Rightarrow> Task" where
  "demo_done t = (completed demo_output (demo_claimed t))\<lparr>UpdatedAt := 1\<rparr>"

lemma demo_done_fields [simp]:
  "ID (demo_claimed t) = ID t" "ID (demo_done t) = ID t" "ExecutionID (demo_done t) = ExecutionID t"
  "Dependencies (demo_done t) = Dependencies t" "InDegree (demo_done t) = InDegree t"
  "Status (demo_done t) = StatusCompleted"
  by (simp_all add: demo_done_def demo_claimed_def completed_def claimed_def)

lemma demo_claims:
  assumes "demo_lossless (demo_sys w (W_claim t) c x qs us hs)" and "demo_holds w ts main msgs"
    and "Action t = ''assign_equipment''" and "filter (\<lambda>r. ID r = ID t \<and> Version r = Version t) ts = [t]"
    and "ts' = update_where (\<lambda>r. ID r = ID t \<and> Version r = Version t) demo_claimed ts"
  shows "\<exists>w. demo_lossless (demo_sys w (W_complete (t\<lparr>Version := Version t + 1\<rparr>) demo_output) c x qs (us @ [ID t]) hs) \<and>
     demo_holds w ts' main msgs"
proof -
  have "ts' = update_where (\<lambda>r. ID r = ID t \<and> Version r = Version t)
      (\<lambda>r. (claimed (uuid_String reference_services 3) (Version t) r)\<lparr>UpdatedAt := 1\<rparr>) ts"
    unfolding assms(5) by (auto simp: update_where_def demo_claimed_def)
  then obtain w2 where w2: "run_state (taskRepository_ClaimTask reference_services (ID t) (uuid_String reference_services 3) (Version t)) w = (Inr (), w2)"
    "demo_holds w2 ts' main msgs"
    using assms(2,4) by (simp add: server_eval demo_holds_def claimed_def)
  then have "\<exists>l. run_state (worker_step reference_services (sv_mainWorker demo_server) Background (W_claim t)) w =
      (W_complete (t\<lparr>Version := Version t + 1\<rparr>) demo_output, w2\<lparr>mlog := l\<rparr>)"
    by (simp add: demo_server_def worker_fields provider_fields Worker_claimTask_def run_action_def Let_def
        InitRegistry_def assign_equipment_def demo_output_def assms(3)) (rule exI, rule refl)
  then obtain l where "run_state (worker_step reference_services (sv_mainWorker demo_server) Background (W_claim t)) w =
      (W_complete (t\<lparr>Version := Version t + 1\<rparr>) demo_output, w2\<lparr>mlog := l\<rparr>)" by (elim exE) (rule that)
  from demo_worker [OF assms(1) this] w2(2) show ?thesis
    by (intro exI [of _ "w2\<lparr>mlog := l\<rparr>"] conjI) simp_all
qed

lemma demo_publishes:
  assumes "demo_lossless (demo_sys w (W_complete t demo_output) c x qs us hs)" and "demo_holds w ts main msgs"
    and "ts' = update_where (\<lambda>r. ID r = ID t) (\<lambda>r. (completed demo_output r)\<lparr>UpdatedAt := 1\<rparr>) ts"
  shows "\<exists>w. demo_lossless (demo_sys w W_idle c x qs us hs) \<and>
     demo_holds w ts' main (msgs @ [json_print (completed_event_json reference_services (completed_event t))])"
proof -
  have json: "ref_jsonb_valid demo_output" "demo_output \<noteq> []"
    using assign_equipment_json by (auto simp: ref_jsonb_valid_def demo_output_def)
  obtain w1 where w1: "run_state (taskRepository_MarkCompleted reference_services (ID t) demo_output) w = (Inr (), w1)"
    "demo_holds w1 ts' main msgs"
    using assms(2,3) json by (simp add: server_eval demo_holds_def completed_def jsonb_text_def)
  then have "\<exists>l. run_state (worker_step reference_services (sv_mainWorker demo_server) Background (W_complete t demo_output)) w =
      (W_complete_publish t, w1\<lparr>mlog := l\<rparr>)"
    by (simp add: demo_server_def worker_fields provider_fields) (rule exI, rule refl)
  then obtain l where l: "run_state (worker_step reference_services (sv_mainWorker demo_server) Background (W_complete t demo_output)) w =
      (W_complete_publish t, w1\<lparr>mlog := l\<rparr>)" by (elim exE) (rule that)
  define v where "v = w1\<lparr>mlog := l\<rparr>"
  note v = l [folded v_def]
  have held: "demo_holds v ts' main msgs" using w1(2) by (simp add: v_def)
  from demo_worker [OF assms(1) v] have r1: "demo_lossless (demo_sys v (W_complete_publish t) c x qs us hs)" by simp
  let ?msgs = "msgs @ [json_print (completed_event_json reference_services (completed_event t))]"
  obtain w2 where w2: "run_state (RedisEventBus_PublishTaskCompleted reference_services (completed_event t)) v = (Inr (), w2)"
    "demo_holds w2 ts' main ?msgs"
    using held by (simp add: server_eval demo_holds_def)
  then have "\<exists>l. run_state (worker_step reference_services (sv_mainWorker demo_server) Background (W_complete_publish t)) v =
      (W_idle, w2\<lparr>mlog := l\<rparr>)"
    by (simp add: demo_server_def worker_fields provider_fields end_claimed_def completed_event_def) (rule exI, rule refl)
  then obtain l' where l': "run_state (worker_step reference_services (sv_mainWorker demo_server) Background (W_complete_publish t)) v =
      (W_idle, w2\<lparr>mlog := l'\<rparr>)" by (elim exE) (rule that)
  from demo_worker [OF r1 l'] w2(2) show ?thesis
    by (intro exI [of _ "w2\<lparr>mlog := l'\<rparr>"] conjI) simp_all
qed

text \<open>The coordinator takes the event over.\<close>

lemma demo_takes:
  assumes "demo_lossless (demo_sys w pc C_idle None qs us hs)"
    and "demo_holds w ts main (json_print (completed_event_json reference_services ev) # msgs)"
  shows "\<exists>w. demo_lossless (demo_sys w pc (C_decrement ev) None qs us hs) \<and> demo_holds w ts main msgs"
proof -
  obtain w3 where w3: "run_state (RedisEventBus_SubscribeToEvents reference_services) w = (Some ev, w3)"
    "demo_holds w3 ts main msgs"
    using assms(2) by (simp add: server_eval demo_holds_def ref.completed_roundtrip)
  then have received: "run_state (SubscribeToEvents (co_eventBus (sv_coord demo_server))) w = (Some ev, w3)"
    by (simp add: demo_server_def coordinator_fields NewRedisEventBus_def)
  from demo_take [OF demo_receive [OF assms(1) received]] w3(2) show ?thesis
    by (intro exI [of _ "w3\<lparr>mlog := mlog w3 @ [MInc CoordinatorEventsProcessedTotal [''completed'']]\<rparr>"] conjI) simp_all
qed

section \<open>The first task\<close>

definition demo_a_done :: Task where "demo_a_done = demo_done (demo_row demo_a)"

lemma demo_a_done_fields [simp]:
  "ID demo_a_done = 8" "ExecutionID demo_a_done = 7" "Dependencies demo_a_done = marshal_dependencies None"
  "Status demo_a_done = StatusCompleted"
  by (simp_all add: demo_a_done_def)

definition demo_event_a :: TaskCompletedEvent where
  "demo_event_a = \<lparr>tc_ExecutionID = 7, tc_TaskID = 8, tc_RefID = ''a''\<rparr>"

lemma demo_announced:
  "\<exists>w qs. demo_lossless (demo_sys w W_idle (C_decrement demo_event_a) None qs [8] []) \<and>
     demo_holds w [demo_a_done, demo_row demo_b] [] []"
proof -
  let ?a = "demo_row demo_a" and ?b = "demo_row demo_b"
  obtain w qs where w: "demo_lossless (demo_sys w W_idle C_idle None qs [] [])"
    "demo_holds w [?a, ?b] [uuid_String reference_services 8] []"
    using demo_pushed by (elim exE conjE) (rule that)
  from demo_found [OF w(1), where t = ?a and ts = "[?a, ?b]" and main = "[]" and msgs = "[]"] w(2)
  obtain w1 where w1: "demo_lossless (demo_sys w1 (W_claim ?a) C_idle None qs [] [])" "demo_holds w1 [?a, ?b] [] []" by auto
  from demo_claims [OF w1, where ts' = "[demo_claimed ?a, ?b]"] obtain w2 where
    w2: "demo_lossless (demo_sys w2 (W_complete (?a\<lparr>Version := 2\<rparr>) demo_output) C_idle None qs [8] [])"
      "demo_holds w2 [demo_claimed ?a, ?b] [] []" by auto
  have ev: "completed_event (?a\<lparr>Version := 2\<rparr>) = demo_event_a" by (simp add: completed_event_def demo_event_a_def)
  from demo_publishes [OF w2, where ts' = "[demo_a_done, ?b]"] obtain w3 where
    w3: "demo_lossless (demo_sys w3 W_idle C_idle None qs [8] [])"
      "demo_holds w3 [demo_a_done, ?b] [] [json_print (completed_event_json reference_services demo_event_a)]"
    unfolding ev by (auto simp: demo_a_done_def demo_done_def)
  from demo_takes [OF w3] show ?thesis by blast
qed

text \<open>Its event releases \<open>b\<close>.\<close>

definition demo_next :: Task where
  "demo_next = decremented (demo_row demo_b)"

lemma demo_next_fields [simp]:
  "ID demo_next = 9" "ExecutionID demo_next = 7" "\<not> SkipHint demo_next" "InDegree demo_next = 0"
  "Dependencies demo_next = marshal_dependencies (Some [''a''])" "RefID demo_next = ''b''"
  "Action demo_next = ''assign_equipment''" "Version demo_next = 1"
  by (simp_all add: demo_next_def decremented_def)

lemma demo_resolved:
  "\<exists>w qs. demo_lossless (demo_sys w W_idle (C_queue [9] 1) None qs [8] [(8, True)]) \<and>
     demo_holds w [demo_a_done, demo_next] [] []"
proof -
  obtain w qs where w: "demo_lossless (demo_sys w W_idle (C_decrement demo_event_a) None qs [8] [])"
    "demo_holds w [demo_a_done, demo_row demo_b] [] []" using demo_announced by (elim exE conjE) (rule that)
  have plain: "plain ''a''" by (simp add: plain_def code_def)
  have dep: "jsonb_contains reference_services (marshal_dependencies (Some [''a''])) (depParam ''a'')"
    "\<not> jsonb_contains reference_services (marshal_dependencies None) (depParam ''a'')"
    using depends_on_marshalled [OF ref.lawful_services_axioms plain, of demo_next "Some [''a'']"]
      depends_on_marshalled [OF ref.lawful_services_axioms plain, of demo_a_done None]
    by (simp_all add: depends_on_def)
  then obtain w1 where w1: "run_state (taskRepository_DecrementAndGetReadyTasks reference_services 7 ''a'') w = (Inr [9], w1)"
    "demo_holds w1 [demo_a_done, demo_next] [] []"
    using w(2) by (simp add: server_eval demo_holds_def depends_on_def demo_next_def decremented_def)
  have "tasks_rewritten (children (depends_on reference_services) 7 ''a'') decremented w w1"
    using ref.DecrementAndGetReadyTasks_correct [OF w1(1)] by (auto simp: children_def [abs_def])
  moreover have run: "run_state (coord_step reference_services (sv_coord demo_server) (C_decrement demo_event_a)) w = (C_queue [9] 1, w1)"
    using w1(1) by (simp add: demo_server_def coordinator_fields provider_fields demo_event_a_def)
  ultimately show ?thesis
    using demo_coordinator [OF w(1) run] w1(2)
    by (intro exI [of _ w1] exI [of _ qs] conjI) (simp_all add: demo_event_a_def)
qed

section \<open>The second task\<close>

lemma demo_released:
  "\<exists>w qs. demo_lossless (demo_sys w (W_claim demo_next) C_idle None qs [8] [(8, True)]) \<and>
     demo_holds w [demo_a_done, demo_next] [] []"
proof -
  obtain w qs where w: "demo_lossless (demo_sys w W_idle (C_queue [9] 1) None qs [8] [(8, True)])"
    "demo_holds w [demo_a_done, demo_next] [] []" using demo_resolved by (elim exE conjE) (rule that)
  obtain w1 where w1: "run_state (RedisQueue_Push reference_services main_key (uuid_String reference_services 9)) w = (Inr (), w1)"
    "demo_holds w1 [demo_a_done, demo_next] [uuid_String reference_services 9] []"
    using w(2) by (simp add: server_eval demo_holds_def)
  then have "run_state (coord_step reference_services (sv_coord demo_server) (C_queue [9] 1)) w = (C_queue [] 1, w1)"
    by (simp add: demo_server_def coordinator_fields provider_fields)
  from demo_coordinator [OF w(1) this]
  have r1: "demo_lossless (demo_sys w1 W_idle (C_queue [] 1) None qs [8] [(8, True)])" by simp
  have "\<exists>l. run_state (coord_step reference_services (sv_coord demo_server) (C_queue [] 1)) w1 = (C_idle, w1\<lparr>mlog := l\<rparr>)"
    by (simp add: end_event_def) (rule exI, rule refl)
  then obtain l where "run_state (coord_step reference_services (sv_coord demo_server) (C_queue [] 1)) w1 = (C_idle, w1\<lparr>mlog := l\<rparr>)"
    by (elim exE) (rule that)
  from demo_coordinator [OF r1 this]
  have r2: "demo_lossless (demo_sys (w1\<lparr>mlog := l\<rparr>) W_idle C_idle None qs [8] [(8, True)])" by simp
  from demo_found [OF r2, where t = demo_next and ts = "[demo_a_done, demo_next]" and main = "[]" and msgs = "[]"] w1(2)
  show ?thesis by auto
qed

lemma demo_both:
  "\<exists>w qs. demo_lossless (demo_sys w (W_complete (demo_next\<lparr>Version := 2\<rparr>) demo_output) C_idle None qs [8, 9] [(8, True)]) \<and>
     demo_holds w [demo_a_done, demo_claimed demo_next] [] []"
proof -
  obtain w qs where w: "demo_lossless (demo_sys w (W_claim demo_next) C_idle None qs [8] [(8, True)])"
    "demo_holds w [demo_a_done, demo_next] [] []" using demo_released by (elim exE conjE) (rule that)
  from demo_claims [OF w, where ts' = "[demo_a_done, demo_claimed demo_next]"] show ?thesis by auto
qed

definition demo_event_b :: TaskCompletedEvent where
  "demo_event_b = \<lparr>tc_ExecutionID = 7, tc_TaskID = 9, tc_RefID = ''b''\<rparr>"

lemma demo_second_event:
  "\<exists>w qs. demo_lossless (demo_sys w W_idle (C_decrement demo_event_b) None qs [8, 9] [(8, True)]) \<and>
     demo_holds w [demo_a_done, demo_done demo_next] [] []"
proof -
  obtain w qs where w: "demo_lossless (demo_sys w (W_complete (demo_next\<lparr>Version := 2\<rparr>) demo_output) C_idle None qs [8, 9] [(8, True)])"
    "demo_holds w [demo_a_done, demo_claimed demo_next] [] []" using demo_both by (elim exE conjE) (rule that)
  have ev: "completed_event (demo_next\<lparr>Version := 2\<rparr>) = demo_event_b" by (simp add: completed_event_def demo_event_b_def)
  from demo_publishes [OF w, where ts' = "[demo_a_done, demo_done demo_next]"] obtain w3 where
    w3: "demo_lossless (demo_sys w3 W_idle C_idle None qs [8, 9] [(8, True)])"
      "demo_holds w3 [demo_a_done, demo_done demo_next] [] [json_print (completed_event_json reference_services demo_event_b)]"
    unfolding ev by (auto simp: demo_done_def)
  from demo_takes [OF w3] show ?thesis by blast
qed

text \<open>The second event releases nothing; the execution is checked and completed.\<close>

lemma demo_completed:
  "\<exists>w qs hs. demo_lossless (demo_sys w W_idle C_idle None qs [8, 9] hs) \<and>
     task_rows w = [demo_a_done, demo_done demo_next] \<and>
     map we_ID (exec_rows w) = [7] \<and> map we_Status (exec_rows w) = [WorkflowCompleted]"
proof -
  let ?ts = "[demo_a_done, demo_done demo_next]"
  obtain w qs where w: "demo_lossless (demo_sys w W_idle (C_decrement demo_event_b) None qs [8, 9] [(8, True)])"
    "demo_holds w ?ts [] []" using demo_second_event by (elim exE conjE) (rule that)
  have plain: "plain ''b''" by (simp add: plain_def code_def)
  have dep: "\<not> jsonb_contains reference_services (marshal_dependencies (Some [''a''])) (depParam ''b'')"
    "\<not> jsonb_contains reference_services (marshal_dependencies None) (depParam ''b'')"
    using depends_on_marshalled [OF ref.lawful_services_axioms plain, of demo_next "Some [''a'']"]
      depends_on_marshalled [OF ref.lawful_services_axioms plain, of demo_a_done None]
    by (simp_all add: depends_on_def)
  have "string_array (depParam ''b'') = Some [''b'']"
    unfolding depParam_def by (rule string_array_singleton) (rule plain)
  then have "ref_jsonb_valid (depParam ''b'')"
    by (auto simp: ref_jsonb_valid_def string_array_def split: option.splits)
  with dep obtain w1 where w1: "run_state (taskRepository_DecrementAndGetReadyTasks reference_services 7 ''b'') w = (Inr [], w1)"
    "demo_holds w1 ?ts [] []"
    using w(2) by (simp add: server_eval demo_holds_def depends_on_def)
  then have "run_state (coord_step reference_services (sv_coord demo_server) (C_decrement demo_event_b)) w = (C_check 7, w1)"
    by (simp add: demo_server_def coordinator_fields provider_fields demo_event_b_def)
  from demo_coordinator [OF w(1) this] obtain hs where
    r1: "demo_lossless (demo_sys w1 W_idle (C_check 7) None qs [8, 9] hs)" by blast
  obtain w2 where w2: "run_state (taskRepository_AreAllTasksCompleted reference_services 7) w1 = (Inr True, w2)"
    "demo_holds w2 ?ts [] []"
    using w1(2) by (simp add: server_eval demo_holds_def)
  then have "run_state (coord_step reference_services (sv_coord demo_server) (C_check 7)) w1 = (C_finish 7, w2)"
    by (simp add: demo_server_def coordinator_fields provider_fields)
  from demo_coordinator [OF r1 this] have r2: "demo_lossless (demo_sys w2 W_idle (C_finish 7) None qs [8, 9] hs)" by simp
  obtain w3 where w3: "run_state (workflowRepository_UpdateStatus reference_services 7 WorkflowCompleted) w2 = (Inr (), w3)"
    "task_rows w3 = ?ts" "map we_ID (exec_rows w3) = [7]" "map we_Status (exec_rows w3) = [WorkflowCompleted]"
    using w2(2) by (simp add: server_eval demo_holds_def stamp_execution_def demo_workflow_def NewWorkflow_def)
  then have "\<exists>l. run_state (coord_step reference_services (sv_coord demo_server) (C_finish 7)) w2 = (C_idle, w3\<lparr>mlog := l\<rparr>)"
    by (simp add: demo_server_def coordinator_fields provider_fields end_event_def) (rule exI, rule refl)
  then obtain l where "run_state (coord_step reference_services (sv_coord demo_server) (C_finish 7)) w2 = (C_idle, w3\<lparr>mlog := l\<rparr>)"
    by (elim exE) (rule that)
  from demo_coordinator [OF r2 this] w3(2-4) show ?thesis
    by (intro exI [of _ "w3\<lparr>mlog := l\<rparr>"] exI [of _ qs] exI [of _ hs] conjI) simp_all
qed

end
