(* ===== verification/Startup.thy ===== *)
theory Startup
  imports System_Run
begin

text \<open>
  How \<open>main\<close> starts: the database is opened, its pool is set up, the Redis client is made and
  tested, the parts are wired and the goroutines launched, and the router runs. What gorm,
  \<open>database/sql\<close>, go-redis and gin do is an argument; a failing call ends the process, by
  \<open>log.Fatal\<close> or by a panic, with what has been launched until then.
\<close>

section \<open>The Redis client\<close>

record redis_options =
  Addr :: string
  PoolSize :: nat

text \<open>
  The client of the library, as the options it was made from; \<open>ping\<close> is \<open>client.Ping\<close>. The left
  result is the message of the panic.
\<close>

definition NewRedisClient ::
  "(redis_options \<Rightarrow> ('h, unit) fallible) \<Rightarrow> string \<Rightarrow> ('h, string + redis_options) io" where
  "NewRedisClient ping address = do {
     let client = \<lparr>Addr = address, PoolSize = 100\<rparr>;
     r \<leftarrow> ping client;
     return (case r of
        Inl err \<Rightarrow> Inl (''failed to connect to redis: '' @ Error err)
      | Inr _ \<Rightarrow> Inr client)
   }"

section \<open>The process\<close>

record 'h environment =
  gorm_Open :: "string \<Rightarrow> ('h, unit) fallible"
  db_DB :: "('h, unit) fallible"
  client_Ping :: "redis_options \<Rightarrow> ('h, unit) fallible"
  router_Run :: "string \<Rightarrow> ('h, unit) fallible"

record pool_settings =
  MaxOpenConns :: nat
  MaxIdleConns :: nat
  ConnMaxLifetime :: nat

datatype 'h launch =
    Go_pool_collector nat
  | Go_queue_depth_collector string nat
  | Go_coordinator "'h Coordinator"
  | Go_worker "'h Worker" nat

datatype exit = Fatal string | Panic string

record 'h process =
  pr_pool :: "pool_settings option"
  pr_launched :: "'h launch list"
  pr_server :: "'h server option"
  pr_exit :: "exit option"

definition launched :: "'h process \<Rightarrow> 'h launch list \<Rightarrow> 'h process" where
  "launched p gs = p\<lparr>pr_launched := pr_launched p @ gs\<rparr>"

definition ended :: "'h process \<Rightarrow> exit \<Rightarrow> 'h process" where
  "ended p e = p\<lparr>pr_exit := Some e\<rparr>"

text \<open>\<open>Worker.StartPool\<close>: one goroutine per thread.\<close>

definition Worker_StartPool :: "'h Worker \<Rightarrow> nat \<Rightarrow> 'h launch list" where
  "Worker_StartPool wk concurrency = map (Go_worker wk) [0..<concurrency]"

definition dsn :: string where
  "dsn = ''host=localhost user=postgres password=postgres dbname=workflow_db port=5432 sslmode=disable''"

text \<open>
  From the Redis client on; \<open>id1\<close> and \<open>id2\<close> are the identifiers the workers draw. The intervals of
  the collectors are in seconds.
\<close>

definition main_wired ::
  "'h services \<Rightarrow> 'h environment \<Rightarrow> uuid \<Rightarrow> uuid \<Rightarrow> 'h process \<Rightarrow> ('h, 'h process) io" where
  "main_wired svc env id1 id2 p = do {
     let sv = main_server svc id1 id2;
     let p = launched p
       ([Go_queue_depth_collector main_key 10, Go_queue_depth_collector retry_key 10, Go_coordinator (sv_coord sv)] @
        Worker_StartPool (sv_mainWorker sv) (sv_mainWorkers sv) @
        Worker_StartPool (sv_retryWorker sv) (sv_retryWorkers sv));
     let p = p\<lparr>pr_server := Some sv\<rparr>;
     r \<leftarrow> router_Run env '':8080'';
     return (case r of
        Inl err \<Rightarrow> ended p (Fatal (''Failed to start server:'' @ Error err))
      | Inr _ \<Rightarrow> p)
   }"

definition main ::
  "'h services \<Rightarrow> 'h environment \<Rightarrow> uuid \<Rightarrow> uuid \<Rightarrow> ('h, 'h process) io" where
  "main svc env id1 id2 = do {
     let p = \<lparr>pr_pool = None, pr_launched = [], pr_server = None, pr_exit = None\<rparr>;
     r \<leftarrow> gorm_Open env dsn;
     case r of
       Inl err \<Rightarrow> return (ended p (Fatal (''Failed to connect to database:'' @ Error err)))
     | Inr _ \<Rightarrow> do {
         r \<leftarrow> db_DB env;
         case r of
           Inl err \<Rightarrow> return (ended p (Fatal (''Failed to get database instance:'' @ Error err)))
         | Inr _ \<Rightarrow> do {
             let p = p\<lparr>pr_pool := Some \<lparr>MaxOpenConns = 50, MaxIdleConns = 10, ConnMaxLifetime = 0\<rparr>\<rparr>;
             let p = launched p [Go_pool_collector 10];
             c \<leftarrow> NewRedisClient (client_Ping env) ''localhost:6379'';
             (case c of
                Inl msg \<Rightarrow> return (ended p (Panic msg))
              | Inr client \<Rightarrow> main_wired svc env id1 id2 p)
           }
       }
   }"

section \<open>What has been launched\<close>

text \<open>The goroutines that touch tasks.\<close>

fun task_goroutine :: "'h launch \<Rightarrow> bool" where
  "task_goroutine (Go_coordinator c) = True"
| "task_goroutine (Go_worker wk k) = True"
| "task_goroutine _ = False"

fun coordinator_goroutine :: "'h launch \<Rightarrow> bool" where
  "coordinator_goroutine (Go_coordinator c) = True"
| "coordinator_goroutine _ = False"

definition worker_goroutines :: "'h process \<Rightarrow> 'h Worker list" where
  "worker_goroutines p = List.map_filter (\<lambda>g. case g of Go_worker wk k \<Rightarrow> Some wk | _ \<Rightarrow> None) (pr_launched p)"

lemma map_filter_StartPool:
  "List.map_filter (\<lambda>g. case g of Go_worker wk k \<Rightarrow> Some wk | _ \<Rightarrow> None) (Worker_StartPool wk n) = replicate n wk"
  by (simp add: Worker_StartPool_def List.map_filter_def comp_def map_replicate_const)

lemma workers_of_server:
  "map (worker_of sv) [0..<sv_mainWorkers sv + sv_retryWorkers sv] =
     replicate (sv_mainWorkers sv) (sv_mainWorker sv) @ replicate (sv_retryWorkers sv) (sv_retryWorker sv)"
  by (rule nth_equalityI) (auto simp: worker_of_def nth_append)

lemma map_filter_append_launch:
  "List.map_filter f (xs @ ys) = List.map_filter f xs @ List.map_filter f ys"
  by (simp add: List.map_filter_def)

lemma main_wired_outcome:
  assumes "run_state (main_wired svc env id1 id2 p) w = (p', w')" and "\<not> list_ex task_goroutine (pr_launched p)"
  defines "sv \<equiv> main_server svc id1 id2"
  shows "pr_server p' = Some sv \<and> filter coordinator_goroutine (pr_launched p') = [Go_coordinator (sv_coord sv)] \<and>
    worker_goroutines p' = map (worker_of sv) [0..<length (sys_workers (sys_init sv v))] \<and> pr_pool p' = pr_pool p \<and>
    (case fst (run_state (router_Run env '':8080'') w) of
       Inl err \<Rightarrow> pr_exit p' = Some (Fatal (''Failed to start server:'' @ Error err)) | Inr _ \<Rightarrow> pr_exit p' = pr_exit p)"
proof -
  obtain r w1 where run: "run_state (router_Run env '':8080'') w = (r, w1)" by fastforce
  have none: "List.map_filter (\<lambda>g. case g of Go_worker wk k \<Rightarrow> Some wk | _ \<Rightarrow> None) gs = []"
    if "\<not> list_ex task_goroutine gs" for gs :: "'a launch list"
    using that by (induction gs) (auto simp: List.map_filter_simps split: launch.splits)
  have alone: "filter coordinator_goroutine gs = []" if "\<not> list_ex task_goroutine gs" for gs :: "'a launch list"
    using that by (induction gs) (auto elim: coordinator_goroutine.elims)
  have pool: "filter coordinator_goroutine (Worker_StartPool wk n) = []" for wk :: "'a Worker" and n
    by (simp add: Worker_StartPool_def)
  have "length (sys_workers (sys_init sv v)) = sv_mainWorkers sv + sv_retryWorkers sv" by (simp add: sys_init_def)
  with run assms(1) none [OF assms(2)] alone [OF assms(2)] pool show ?thesis
    by (auto simp: main_wired_def Let_def launched_def ended_def worker_goroutines_def workers_of_server
        map_filter_append_launch map_filter_StartPool List.map_filter_simps simp flip: sv_def split: sum.splits)
qed

lemma main_outcome:
  assumes "run_state (main svc env id1 id2) w = (p, w')"
  shows "(case pr_server p of
      None \<Rightarrow> pr_exit p \<noteq> None \<and> \<not> list_ex task_goroutine (pr_launched p)
    | Some sv \<Rightarrow> sv = main_server svc id1 id2 \<and> filter coordinator_goroutine (pr_launched p) = [Go_coordinator (sv_coord sv)] \<and>
        worker_goroutines p = map (worker_of sv) [0..<length (sys_workers (sys_init sv v))] \<and>
        pr_pool p = Some \<lparr>MaxOpenConns = 50, MaxIdleConns = 10, ConnMaxLifetime = 0\<rparr> \<and>
        (\<exists>w1 w2. run_state (client_Ping env \<lparr>Addr = ''localhost:6379'', PoolSize = 100\<rparr>) w1 = (Inr (), w2)))"
proof -
  obtain r w1 where o: "run_state (gorm_Open env dsn) w = (r, w1)" by fastforce
  show ?thesis
  proof (cases r)
    case (Inl err)
    with assms o show ?thesis by (auto simp: main_def ended_def)
  next
    case opened: (Inr u)
    obtain r2 w2 where d: "run_state (db_DB env) w1 = (r2, w2)" by fastforce
    show ?thesis
    proof (cases r2)
      case (Inl err)
      with assms o opened d show ?thesis by (auto simp: main_def ended_def)
    next
      case got: (Inr u2)
      let ?c = "\<lparr>Addr = ''localhost:6379'', PoolSize = 100\<rparr>"
      obtain r3 w3 where c: "run_state (client_Ping env ?c) w2 = (r3, w3)" by fastforce
      show ?thesis
      proof (cases r3)
        case (Inl err)
        with assms o opened d got c show ?thesis by (auto simp: main_def ended_def launched_def NewRedisClient_def Let_def)
      next
        case pinged: (Inr u3)
        define q :: "'a process" where "q = launched \<lparr>pr_pool = Some \<lparr>MaxOpenConns = 50, MaxIdleConns = 10, ConnMaxLifetime = 0\<rparr>,
            pr_launched = [], pr_server = None, pr_exit = None\<rparr> [Go_pool_collector 10]"
        have run: "run_state (main_wired svc env id1 id2 q) w3 = (p, w')"
          using assms o opened d got c pinged by (simp add: main_def NewRedisClient_def q_def Let_def)
        have q: "\<not> list_ex task_goroutine (pr_launched q)" "pr_pool q = Some \<lparr>MaxOpenConns = 50, MaxIdleConns = 10, ConnMaxLifetime = 0\<rparr>"
          by (simp_all add: q_def launched_def)
        from main_wired_outcome [OF run q(1)] q(2) c pinged show ?thesis by auto
      qed
    qed
  qed
qed

end
