(* ===== verification/System_Properties.thy ===== *)
theory System_Properties
  imports System_Demo Startup
begin

text \<open>
  The properties of the running program: in every state that its goroutines can reach, in any
  interleaving and with any pattern of failing calls. The requests that arrive are sane
  (\<open>sane_request\<close>): the reference identifiers of a request are distinct and need no escaping, its
  actions are registered, and no dependency list names a task twice; the code does not check
  this, and \<open>App_Properties\<close> has cases of what other requests do. The last witnesses come from the run of
  \<open>System_Demo\<close>, in which a task \<open>b\<close> waits for a task \<open>a\<close>.
\<close>

lemma demo_start_reachable: "demo_reachable (sys_init demo_server demo_start)"
  by (rule reachable.start) (simp add: empty_world_def demo_start_def)

lemma has_row_board:
  "has_row (b_tasks (board svc w)) u ex p \<longleftrightarrow>
     (\<exists>r \<in> set (task_rows w). ID r = u \<and> ExecutionID r = ex \<and> RefID r = p)"
  by (auto simp: has_row_def rows_def board_def)

lemma satisfied_board:
  assumes "satisfied (b_tasks (board svc w)) us (info t)" and "string_array (Dependencies t) = Some ds" and "p \<in> set ds"
  shows "\<exists>r \<in> set (task_rows w). ExecutionID r = ExecutionID t \<and> RefID r = p \<and> ID r \<in> set us"
  using assms by (force simp: satisfied_def deps_def has_row_board)

text \<open>
  C1. Dependencies first. When a goroutine is about to claim and run a task, every dependency
  the task lists is a task of the same execution whose action has already succeeded. This
  holds whatever calls have failed, including calls that report an error after their effect, for
  sane requests.
\<close>

theorem dependencies_first:
  assumes "lawful_services svc" and "reachable svc (main_server svc i j) s"
    and "k < length (sys_workers s)" and "sys_workers s ! k = W_claim t"
    and "string_array (Dependencies t) = Some ds" and "p \<in> set ds"
  shows "\<exists>r \<in> set (task_rows (sys_world s)).
    ExecutionID r = ExecutionID t \<and> RefID r = p \<and> ID r \<in> set (sys_succeeded s)"
proof -
  have "W_claim t \<in> set (sys_workers s)" using assms(3,4) by (metis nth_mem)
  with lawful_services.reachable_invariant [OF assms(1,2)]
  have "satisfied (b_tasks (board svc (sys_world s))) (sys_succeeded s) (info t)"
    by (auto simp: sys_inv_def inv_workers_def worker_ok_def)
  from satisfied_board [OF this assms(5,6)] show ?thesis .
qed

theorem dependencies_first_witness:
  "\<exists>s. demo_reachable s \<and> sys_workers s ! 0 = W_claim demo_next \<and>
     (\<exists>r \<in> set (task_rows (sys_world s)). ExecutionID r = 7 \<and> RefID r = ''a'' \<and> ID r \<in> set (sys_succeeded s))"
proof -
  obtain w qs where w: "demo_reachable (demo_sys w (W_claim demo_next) C_idle None qs [8] [(8, True)])"
    using demo_released by (elim exE conjE) (rule that [OF lossless_reachable])
  have deps: "string_array (Dependencies demo_next) = Some [''a'']" by (simp add: string_array_dependencies)
  from dependencies_first [OF ref.lawful_services_axioms w [unfolded demo_server_def] _ _ deps, of 0 "''a''"] w
  show ?thesis
    by (intro exI [of _ "demo_sys w (W_claim demo_next) C_idle None qs [8] [(8, True)]"] conjI)
      (simp_all add: demo_sys_def)
qed

text \<open>
  C3. A topological order. No action succeeds twice for the same task, and the actions succeed in
  an order in which every task comes after all the tasks it depends on. This holds in every
  interleaving and whatever calls have failed, for sane requests.
\<close>

theorem successes_in_order:
  assumes "lawful_services svc" and "reachable svc (main_server svc i j) s"
  shows "distinct (sys_succeeded s) \<and>
    (\<forall>us u vs t ds p. sys_succeeded s = us @ u # vs \<and> t \<in> set (task_rows (sys_world s)) \<and> ID t = u \<and>
       string_array (Dependencies t) = Some ds \<and> p \<in> set ds \<longrightarrow>
       (\<exists>r \<in> set (task_rows (sys_world s)). ExecutionID r = ExecutionID t \<and> RefID r = p \<and> ID r \<in> set us))"
proof (intro conjI allI impI)
  note inv = lawful_services.reachable_invariant [OF assms]
  then show "distinct (sys_succeeded s)" using succeeded_distinct [of "abs_sys svc s"] by (simp add: sys_inv_def)
  fix us u vs t ds p
  assume t: "sys_succeeded s = us @ u # vs \<and> t \<in> set (task_rows (sys_world s)) \<and> ID t = u \<and>
    string_array (Dependencies t) = Some ds \<and> p \<in> set ds"
  with inv have "in_order (b_tasks (board svc (sys_world s))) [] (us @ u # vs)"
    by (simp add: sys_inv_def inv_order_def)
  with t have "satisfied (b_tasks (board svc (sys_world s))) us (ident (info t))"
    by (auto simp: in_order_append rows_def board_def)
  then have "satisfied (b_tasks (board svc (sys_world s))) us (info t)"
    using satisfied_ident [of "ident (info t)" "info t"] by simp
  from satisfied_board [OF this] t
  show "\<exists>r \<in> set (task_rows (sys_world s)). ExecutionID r = ExecutionID t \<and> RefID r = p \<and> ID r \<in> set us" by blast
qed

theorem successes_in_order_witness:
  "\<exists>s t. demo_reachable s \<and> sys_succeeded s = [8, 9] \<and> distinct (sys_succeeded s) \<and>
     t \<in> set (task_rows (sys_world s)) \<and> ID t = 9 \<and>
     (\<exists>r \<in> set (task_rows (sys_world s)). ExecutionID r = ExecutionID t \<and> RefID r = ''a'' \<and> ID r \<in> set [8])"
proof -
  let ?s = "\<lambda>w qs. demo_sys w (W_complete (demo_next\<lparr>Version := 2\<rparr>) demo_output) C_idle None qs [8, 9] [(8, True)]"
  obtain w qs where w: "demo_reachable (?s w qs)" "demo_holds w [demo_a_done, demo_claimed demo_next] [] []"
    using demo_both by (elim exE conjE) (rule that [OF lossless_reachable])
  have t: "demo_claimed demo_next \<in> set (task_rows (sys_world (?s w qs)))" "ID (demo_claimed demo_next) = 9"
    and s: "sys_succeeded (?s w qs) = [8] @ 9 # []" "sys_succeeded (?s w qs) = [8, 9]"
    using w(2) by (simp_all add: demo_sys_def demo_holds_def)
  have "Dependencies (demo_claimed demo_next) = marshal_dependencies (Some [''a''])"
    by (simp add: demo_claimed_def claimed_def)
  then have deps: "string_array (Dependencies (demo_claimed demo_next)) = Some [''a'']"
    by (simp add: string_array_dependencies)
  have a: "''a'' \<in> set [''a'']" by simp
  note order = successes_in_order [OF ref.lawful_services_axioms w(1) [unfolded demo_server_def]]
  have "\<exists>r \<in> set (task_rows (sys_world (?s w qs))). ExecutionID r = ExecutionID (demo_claimed demo_next) \<and>
      RefID r = ''a'' \<and> ID r \<in> set [8]"
    using order [THEN conjunct2] s(1) t deps a by blast
  then show ?thesis using w(1) s(2) t order [THEN conjunct1]
    by (intro exI [of _ "?s w qs"] exI [of _ "demo_claimed demo_next"] conjI)
qed

lemma map_filter_member: "m \<in> set ms \<Longrightarrow> f m = Some y \<Longrightarrow> y \<in> set (List.map_filter f ms)"
  by (force simp: List.map_filter_def)

text \<open>
  C5. One holder. A task that a worker holds is held by no other worker, waits in no queue, is in
  no event (in an inbox of Redis, with a subscriber or with the coordinator), and is on no list of
  tasks that the coordinator or a request is about to queue. This holds in every state reachable
  with sane requests, whatever calls have failed.
\<close>

theorem one_holder:
  assumes "lawful_services svc" and "reachable svc (main_server svc i j) s"
    and "k < length (sys_workers s)" and "u \<in> set (worker_tokens (sys_workers s ! k))"
  shows "(\<forall>m < length (sys_workers s). m \<noteq> k \<longrightarrow> u \<notin> set (worker_tokens (sys_workers s ! m))) \<and>
    uuid_String svc u \<notin> set (redis_list (sys_world s) main_key) \<and>
    uuid_String svc u \<notin> set (redis_list (sys_world s) retry_key) \<and>
    (\<forall>m \<in> set (inbox (sys_world s) completed_channel). \<forall>ev. unmarshal_completed svc m = Some ev \<longrightarrow> tc_TaskID ev \<noteq> u) \<and>
    (\<forall>m \<in> set (inbox (sys_world s) terminated_channel). \<forall>ev. unmarshal_terminated svc m = Some ev \<longrightarrow> tt_TaskID ev \<noteq> u) \<and>
    (\<forall>ev. sys_completed s = Some ev \<longrightarrow> tc_TaskID ev \<noteq> u) \<and>
    (\<forall>ev. sys_terminated s = Some ev \<longrightarrow> tt_TaskID ev \<noteq> u) \<and>
    u \<notin> set (coord_tokens (sys_coord s)) \<and>
    (\<forall>m < length (sys_requests s). u \<notin> set (request_tokens (sys_requests s ! m)))"
proof -
  let ?a = "abs_sys svc s"
  have inv: "inv_tokens ?a" using lawful_services.reachable_invariant [OF assms(1,2)] by (simp add: sys_inv_def)
  have "places ?a = mset (worker_tokens (sys_workers s ! k)) + (others worker_tokens k (sys_workers s) +
      queued (board svc (sys_world s)) + announced (board svc (sys_world s)) + coord_places ?a +
      slots request_tokens (sys_requests s))"
    by (simp add: places_def slots_split [OF assms(3)])
  from places_once [OF inv this, of u] assms(4)
  have free: "u \<notin># others worker_tokens k (sys_workers s)" "u \<notin># queued (board svc (sys_world s))"
    "u \<notin># announced (board svc (sys_world s))" "u \<notin># coord_places ?a" "u \<notin># slots request_tokens (sys_requests s)"
    by simp_all
  have "tc_TaskID ev \<noteq> u" if "m \<in> set (inbox (sys_world s) completed_channel)" "unmarshal_completed svc m = Some ev" for m ev
    using map_filter_member [of m _ "unmarshal_completed svc", OF that] free(3) by (auto simp: announced_def board_def)
  moreover have "tt_TaskID ev \<noteq> u" if "m \<in> set (inbox (sys_world s) terminated_channel)" "unmarshal_terminated svc m = Some ev" for m ev
    using map_filter_member [of m _ "unmarshal_terminated svc", OF that] free(3) by (auto simp: announced_def board_def)
  moreover have "u \<notin> set (request_tokens (sys_requests s ! m))" if "m < length (sys_requests s)" for m
    using slots_split [OF that, of request_tokens] free(5) by auto
  moreover have parsed: "u \<in> set (parsed svc xs)" if "uuid_String svc u \<in> set xs" for xs
    using that by (rule lawful_services.parsed_String [OF assms(1)])
  moreover have "u \<notin> set (worker_tokens (sys_workers s ! m))" if "m < length (sys_workers s)" "m \<noteq> k" for m
    using others_member [OF that, of u worker_tokens] free(1) by blast
  moreover have "uuid_String svc u \<notin> set (redis_list (sys_world s) main_key)" "uuid_String svc u \<notin> set (redis_list (sys_world s) retry_key)"
    using free(2) parsed by (auto simp: queued_def board_def)
  moreover have "\<forall>ev. sys_completed s = Some ev \<longrightarrow> tc_TaskID ev \<noteq> u" "\<forall>ev. sys_terminated s = Some ev \<longrightarrow> tt_TaskID ev \<noteq> u"
    "u \<notin> set (coord_tokens (sys_coord s))"
    using free(4) by (auto simp: coord_places_def)
  ultimately show ?thesis by blast
qed

theorem one_holder_witness:
  "\<exists>s. demo_reachable s \<and> 9 \<in> set (worker_tokens (sys_workers s ! 0)) \<and> 9 \<notin> set (worker_tokens (sys_workers s ! 1)) \<and>
     uuid_String reference_services 9 \<notin> set (redis_list (sys_world s) main_key) \<and>
     (\<forall>m \<in> set (inbox (sys_world s) completed_channel).
        \<forall>ev. unmarshal_completed reference_services m = Some ev \<longrightarrow> tc_TaskID ev \<noteq> 9)"
proof -
  obtain w qs where w: "demo_reachable (demo_sys w (W_claim demo_next) C_idle None qs [8] [(8, True)])"
    using demo_released by (elim exE conjE) (rule that [OF lossless_reachable])
  let ?s = "demo_sys w (W_claim demo_next) C_idle None qs [8] [(8, True)]"
  have held: "0 < length (sys_workers ?s)" "9 \<in> set (worker_tokens (sys_workers ?s ! 0))" "1 < length (sys_workers ?s)"
    by (simp_all add: demo_sys_def)
  from one_holder [OF ref.lawful_services_axioms w [unfolded demo_server_def] held(1,2)] held w
  show ?thesis by (intro exI [of _ ?s] conjI) simp_all
qed

text \<open>
  C6. A success is final. Once the action of a task has returned an output, no worker fetches,
  claims, retries or fails the task again, and it is in neither queue (for sane requests).
\<close>

theorem success_is_final:
  assumes "lawful_services svc" and "reachable svc (main_server svc i j) s"
    and "u \<in> set (sys_succeeded s)" and "k < length (sys_workers s)"
  shows "(u \<in> set (worker_tokens (sys_workers s ! k)) \<longrightarrow> succeeding (sys_workers s ! k)) \<and>
    uuid_String svc u \<notin> set (redis_list (sys_world s) main_key) \<and>
    uuid_String svc u \<notin> set (redis_list (sys_world s) retry_key)"
proof -
  let ?a = "abs_sys svc s"
  have inv: "inv_tokens ?a" using lawful_services.reachable_invariant [OF assms(1,2)] by (simp add: sys_inv_def)
  have "u \<notin># live ?a" using not_run_again [OF inv] assms(3) by simp
  then have free: "u \<notin># queued (board svc (sys_world s))" "u \<notin> set (worker_live (sys_workers s ! k))"
    by (simp_all add: live_def slots_split [OF assms(4)])
  have parsed: "u \<in> set (parsed svc xs)" if "uuid_String svc u \<in> set xs" for xs
    using that by (rule lawful_services.parsed_String [OF assms(1)])
  with free show ?thesis by (auto simp: queued_def board_def worker_live_def split: if_splits)
qed

theorem success_is_final_witness:
  "\<exists>s. demo_reachable s \<and> 8 \<in> set (sys_succeeded s) \<and> 8 \<notin> set (worker_tokens (sys_workers s ! 0)) \<and>
     uuid_String reference_services 8 \<notin> set (redis_list (sys_world s) retry_key)"
proof -
  obtain w qs where w: "demo_reachable (demo_sys w (W_claim demo_next) C_idle None qs [8] [(8, True)])"
    using demo_released by (elim exE conjE) (rule that [OF lossless_reachable])
  let ?s = "demo_sys w (W_claim demo_next) C_idle None qs [8] [(8, True)]"
  have held: "8 \<in> set (sys_succeeded ?s)" "0 < length (sys_workers ?s)" "\<not> succeeding (sys_workers ?s ! 0)"
    by (simp_all add: demo_sys_def)
  from success_is_final [OF ref.lawful_services_axioms w [unfolded demo_server_def] held(1,2)] held w
  show ?thesis by (intro exI [of _ ?s] conjI) simp_all
qed

text \<open>
  C7. COMPLETED means done. The actions of all tasks of an execution whose status is COMPLETED
  have succeeded, although the check and the update are separate calls and other goroutines
  may run between them (for sane requests).
\<close>

theorem completed_means_succeeded:
  assumes "lawful_services svc" and "reachable svc (main_server svc i j) s"
    and "e \<in> set (exec_rows (sys_world s))" and "we_Status e = WorkflowCompleted"
    and "t \<in> set (task_rows (sys_world s))" and "ExecutionID t = we_ID e"
  shows "ID t \<in> set (sys_succeeded s)"
  using lawful_services.reachable_completions [OF assms(1,2)] assms(3-6)
  by (auto simp: completions_ok_def all_succeeded_def)

theorem completed_means_succeeded_witness:
  "\<exists>s e t. demo_reachable s \<and> e \<in> set (exec_rows (sys_world s)) \<and> we_Status e = WorkflowCompleted \<and>
     t \<in> set (task_rows (sys_world s)) \<and> ID t = 9 \<and> ID t \<in> set (sys_succeeded s)"
proof -
  let ?s = "\<lambda>w qs hs. demo_sys w W_idle C_idle None qs [8, 9] hs"
  obtain w qs hs where w: "demo_reachable (?s w qs hs)" "task_rows w = [demo_a_done, demo_done demo_next]"
    "map we_ID (exec_rows w) = [7]" "map we_Status (exec_rows w) = [WorkflowCompleted]"
    using demo_completed by (elim exE conjE) (rule that [OF lossless_reachable])
  obtain e where e: "exec_rows w = [e]" "we_ID e = 7" "we_Status e = WorkflowCompleted"
    using w(3,4) by (cases "exec_rows w") auto
  have facts: "e \<in> set (exec_rows (sys_world (?s w qs hs)))"
    "demo_done demo_next \<in> set (task_rows (sys_world (?s w qs hs)))" "ExecutionID (demo_done demo_next) = we_ID e"
    using w(2) e by (simp_all add: demo_sys_def)
  have nine: "ID (demo_done demo_next) = 9" by simp
  note completed_means_succeeded [OF ref.lawful_services_axioms w(1) [unfolded demo_server_def] facts(1) e(3) facts(2,3)]
  then show ?thesis using w(1) facts(1,2) e(3) nine
    by (intro exI [of _ "?s w qs hs"] exI [of _ e] exI [of _ "demo_done demo_next"] conjI)
qed

text \<open>
  C16. What the counters mean. The in-degree of a stored task is the number of its dependencies
  whose event has not been handled, and a task one of whose dependencies was handled as
  terminated carries the skip hint (for sane requests: a list that names a task twice is excluded).
\<close>

theorem in_degree_counts:
  assumes "lawful_services svc" and "reachable svc (main_server svc i j) s"
    and "t \<in> set (task_rows (sys_world s))"
  shows "InDegree t = int (card (unresolved (b_tasks (board svc (sys_world s))) (sys_handled s) (info t))) \<and>
    (\<forall>p \<in> deps (info t). resolved (b_tasks (board svc (sys_world s))) (sys_handled s) False (ExecutionID t) p \<longrightarrow> SkipHint t)"
proof -
  have "info t \<in> set (b_tasks (board svc (sys_world s)))" using assms(3) by (simp add: board_def)
  with lawful_services.reachable_invariant [OF assms(1,2)] show ?thesis
    by (force simp: sys_inv_def inv_degrees_def degrees_ok_def skips_ok_def)
qed

theorem in_degree_counts_witness:
  "\<exists>s. demo_reachable s \<and> demo_next \<in> set (task_rows (sys_world s)) \<and>
     unresolved (b_tasks (board reference_services (sys_world s))) (sys_handled s) (info demo_next) = {}"
proof -
  let ?s = "\<lambda>w qs. demo_sys w (W_claim demo_next) C_idle None qs [8] [(8, True)]"
  obtain w qs where w: "demo_reachable (?s w qs)" "demo_holds w [demo_a_done, demo_next] [] []"
    using demo_released by (elim exE conjE) (rule that [OF lossless_reachable])
  then have t: "demo_next \<in> set (task_rows (sys_world (?s w qs)))" by (simp add: demo_sys_def demo_holds_def)
  from in_degree_counts [OF ref.lawful_services_axioms w(1) [unfolded demo_server_def] t]
  have "unresolved (b_tasks (board reference_services (sys_world (?s w qs)))) (sys_handled (?s w qs)) (info demo_next) = {}"
    by (auto simp: unresolved_def)
  with w(1) t show ?thesis by (intro exI [of _ "?s w qs"] conjI)
qed

text \<open>
  C15. Refinement. From a state reachable with sane requests every step of every goroutine, successful or not, is a
  move of the abstract system, which knows only what the database, the queues and the channels
  say about the resolution of dependencies.
\<close>

theorem system_refines:
  assumes "lawful_services svc" and "reachable svc (main_server svc i j) s" and "sys_step svc (main_server svc i j) s t"
  shows "move InitRegistry (abs_sys svc s) (abs_sys svc t)"
  using lawful_services.step_is_move [OF assms(1,3) lawful_services.reachable_invariant [OF assms(1,2)]] .

theorem system_refines_witness:
  "\<exists>s t. demo_reachable s \<and> sys_step reference_services demo_server s t \<and>
     move InitRegistry (abs_sys reference_services s) (abs_sys reference_services t)"
proof -
  have "sys_step reference_services (main_server reference_services 3 4) (sys_init demo_server demo_start)
      ((sys_init demo_server demo_start)\<lparr>sys_requests := sys_requests (sys_init demo_server demo_start) @
        [R_create (NewWorkflow 7 1 9 ''onboarding'') [demo_a, demo_b]]\<rparr>)"
    by (rule sys_step.arrive [OF demo_sane demo_submission])
  with system_refines [OF ref.lawful_services_axioms demo_start_reachable [unfolded demo_server_def [abs_def]], of _]
    demo_start_reachable
  show ?thesis unfolding demo_server_def by blast
qed

text \<open>
  C17. Monotone history. Every step of the running program updates rows within the monotone
  order of the domain: no row disappears or changes its identity, versions and retry counters
  never decrease, a FAILED execution stays FAILED, identifiers stay unique, and the collectors
  are called with as many label values as they were declared with.
\<close>

theorem steps_evolve:
  assumes "lawful_services svc" and "sys_step svc (main_server svc i j) s t"
  shows "evolves (sys_world s) (sys_world t)"
  using lawful_services.system_step_evolves [OF assms] .

theorem steps_evolve_witness:
  "\<exists>t. sys_step reference_services (main_server reference_services 3 4)
       (demo_sys (demo_world []) W_idle C_idle (Some demo_event_a) [] [] []) t \<and>
     sys_coord t = C_decrement demo_event_a \<and> evolves (demo_world []) (sys_world t)"
proof -
  let ?s = "demo_sys (demo_world []) W_idle C_idle (Some demo_event_a) [] [] []"
  have "sys_step reference_services (main_server reference_services 3 4) ?s
      (?s\<lparr>sys_world := (demo_world [])\<lparr>mlog := mlog (demo_world []) @ [MInc CoordinatorEventsProcessedTotal [''completed'']]\<rparr>,
        sys_coord := C_decrement demo_event_a, sys_completed := None\<rparr>)" (is "sys_step _ _ _ ?t")
    by (rule sys_step.take_completed) (simp_all add: demo_sys_def)
  from this steps_evolve [OF ref.lawful_services_axioms this] show ?thesis
    by (intro exI [of _ ?t] conjI) (simp_all add: demo_sys_def)
qed

text \<open>
  C25. The goroutine of a worker that is never interrupted does exactly what \<open>ProcessNextTask\<close>
  does: cut at its calls, its steps are the code.
\<close>

theorem worker_steps_are_the_code:
  "run_state (do { pc \<leftarrow> worker_step svc wk ctx W_idle; worker_finish 8 svc wk ctx pc }) w =
     (W_idle, snd (run_state (Worker_ProcessNextTask svc wk ctx) w))"
  by (rule worker_uninterrupted)

text \<open>
  C26. The same for the coordinator and both kinds of events: some number of uninterrupted steps
  is the handler of the event.
\<close>

theorem coordinator_steps_are_the_code:
  "(\<exists>n. run_state (coord_finish n svc c (C_decrement ev)) w =
     (C_idle, snd (run_state (Coordinator_handleTaskCompleted svc c ev) w))) \<and>
   (\<exists>n. run_state (coord_finish n svc c (C_taint ev')) w =
     (C_idle, snd (run_state (Coordinator_handleTaskTerminated svc c ev') w)))"
  using coordinator_uninterrupted_completed coordinator_uninterrupted_terminated by blast

text \<open>C27. The same for a request, with its answer.\<close>

theorem request_steps_are_the_code:
  "run_state (request_finish (Suc (Suc (length (workflowService_getRootTasks ts)))) svc s (R_create e ts)) w =
     (case run_state (workflowService_SubmitWorkflow svc s e ts) w of (r, w') \<Rightarrow> (R_done r, w'))"
  by (rule request_uninterrupted)

text \<open>
  C34. Startup. \<open>main\<close> either ends with a fatal error or a panic before any goroutine that
  touches tasks is launched, or the database is open and Redis has answered, the parts are wired
  as in \<open>main_server\<close>, and the worker goroutines and the one coordinator launched are those of the
  running program of \<open>System_Run\<close>.
\<close>

theorem startup_all_or_nothing:
  assumes "run_state (main svc env i j) w = (p, w')"
  shows "case pr_server p of
      None \<Rightarrow> pr_exit p \<noteq> None \<and> \<not> list_ex task_goroutine (pr_launched p)
    | Some sv \<Rightarrow> sv = main_server svc i j \<and> filter coordinator_goroutine (pr_launched p) = [Go_coordinator (sv_coord sv)] \<and>
        worker_goroutines p = map (worker_of sv) [0..<length (sys_workers (sys_init sv v))] \<and>
        pr_pool p = Some \<lparr>MaxOpenConns = 50, MaxIdleConns = 10, ConnMaxLifetime = 0\<rparr> \<and>
        (\<exists>w1 w2. run_state (client_Ping env \<lparr>Addr = ''localhost:6379'', PoolSize = 100\<rparr>) w1 = (Inr (), w2))"
  using main_outcome [OF assms] .

text \<open>A start at which Redis does not answer.\<close>

definition demo_environment :: "schedule environment" where
  "demo_environment = \<lparr>gorm_Open = \<lambda>s. return (Inr ()), db_DB = return (Inr ()),
     client_Ping = \<lambda>c. return (Inl (Err ''connection refused'')), router_Run = \<lambda>a. return (Inr ())\<rparr>"

theorem startup_all_or_nothing_witness:
  "\<exists>p. run_state (main reference_services demo_environment 3 4) demo_start = (p, demo_start) \<and>
     pr_exit p = Some (Panic ''failed to connect to redis: connection refused'') \<and>
     pr_launched p = [Go_pool_collector 10] \<and> \<not> list_ex task_goroutine (pr_launched p)"
proof -
  obtain p where p: "run_state (main reference_services demo_environment 3 4) demo_start = (p, demo_start)"
    "pr_exit p = Some (Panic ''failed to connect to redis: connection refused'')" "pr_server p = None"
    "pr_launched p = [Go_pool_collector 10]"
    by (simp add: main_def demo_environment_def NewRedisClient_def launched_def ended_def Let_def)
  from startup_all_or_nothing [OF p(1)] p show ?thesis by (intro exI [of _ p]) simp
qed

end
