(* ===== verification/Liveness_Properties.thy ===== *)
theory Liveness_Properties
  imports System_Outcome System_Properties
begin

text \<open>
  The properties of runs in which no call fails (\<open>flawless_services\<close>, \<open>lossless\<close>) and the requests
  are sane (\<open>sane_request\<close>) with names of printable ASCII characters: no task is lost, every fair run comes to rest
  after a bounded number of calls that do anything, and then the workflows are decided. The
  witnesses continue the run of \<open>System_Demo\<close> with a round-robin scheduler.
\<close>

lemma demo_resolvable:
  assumes "task_rows w = [demo_row demo_a, demo_row demo_b]"
  shows "resolvable w"
proof -
  have deps: "deps (info (demo_row demo_a)) = {}" "deps (info (demo_row demo_b)) = {''a''}"
    by (simp_all add: deps_def string_array_dependencies)
  have graph: "dependency w = {((7, ''a''), (7, ''b''))}"
    by (simp add: dependency_def assms deps)
  have "acyclic {((7 :: uuid, ''a''), (7, ''b''))}"
    by (simp add: acyclic_insert) (simp add: acyclic_def)
  with graph deps assms show ?thesis by (auto simp: resolvable_def)
qed

lemma demo_under_way:
  "\<exists>s. demo_lossless s \<and> resolvable (sys_world s) \<and> (\<forall>e ts. R_create e ts \<notin> set (sys_requests s)) \<and>
     task_rows (sys_world s) = [demo_row demo_a, demo_row demo_b]"
proof -
  obtain w where w: "demo_lossless (demo_sys w W_idle C_idle None [R_push (NewWorkflow 7 1 9 ''onboarding'') [demo_a]] [] [])"
    "demo_holds w [demo_row demo_a, demo_row demo_b] [] []" using demo_stored by (elim exE conjE) (rule that)
  then show ?thesis
    by (intro exI [of _ "demo_sys w W_idle C_idle None [R_push (NewWorkflow 7 1 9 ''onboarding'') [demo_a]] [] []"])
      (simp add: demo_sys_def demo_holds_def demo_resolvable)
qed

lemma demo_at_rest:
  "\<exists>s r. demo_lossless s \<and> settled s \<and> resolvable (sys_world s) \<and> r \<in> set (task_rows (sys_world s)) \<and> ID r = 9 \<and>
     ExecutionID r = 7 \<and> RefID r = ''b'' \<and> deps (info r) = {''a''}"
proof -
  obtain s where s: "demo_lossless s" "resolvable (sys_world s)" "\<And>e ts. R_create e ts \<notin> set (sys_requests s)"
    "task_rows (sys_world s) = [demo_row demo_a, demo_row demo_b]" using demo_under_way by blast
  let ?run = "scheduled reference_services demo_server (round_robin (goroutines s)) s"
  obtain n where n: "settled (?run n)"
    using calm.fair_settles [OF s(1) [unfolded demo_server_def] round_robin_fair] unfolding demo_server_def by blast
  have loss: "demo_lossless (?run n)" using calm.scheduled_lossless [OF s(1)] .
  have graph: "rows (b_tasks (board reference_services (sys_world (?run n)))) = rows (b_tasks (board reference_services (sys_world s)))"
    using calm.scheduled_graph [OF s(1) [unfolded demo_server_def] s(3)] unfolding demo_server_def by blast
  have "ident (info (demo_row demo_b)) \<in> rows (b_tasks (board reference_services (sys_world s)))"
    using s(4) by (simp add: rows_def board_def)
  then obtain r where r: "r \<in> set (task_rows (sys_world (?run n)))" "ident (info r) = ident (info (demo_row demo_b))"
    unfolding graph [symmetric] by (auto simp: rows_def board_def)
  have "ID r = 9 \<and> ExecutionID r = 7 \<and> RefID r = ''b'' \<and> deps (info r) = deps (info (demo_row demo_b))"
    using arg_cong [OF r(2), of i_ID] arg_cong [OF r(2), of i_Exec] arg_cong [OF r(2), of i_Ref] arg_cong [OF r(2), of deps]
    by simp
  then have "ID r = 9 \<and> ExecutionID r = 7 \<and> RefID r = ''b'' \<and> deps (info r) = {''a''}"
    by (simp add: deps_def string_array_dependencies)
  moreover have "resolvable (sys_world (?run n))" using resolvable_cong [OF graph] s(2) by simp
  ultimately show ?thesis using loss n r(1) by blast
qed

text \<open>
  C2. Every workflow finishes. When no call fails and no further request arrives, under any
  scheduler that comes back to every goroutine, there is a time after which every task is
  COMPLETED, FAILED or SKIPPED and every execution with tasks is COMPLETED or FAILED, provided
  the stored workflows are resolvable: every dependency names a stored task of its execution, and
  there is no cycle. The requests stored so far are sane.
\<close>

theorem every_workflow_finishes:
  assumes "flawless_services svc quiet" and "lossless svc (main_server svc i j) quiet s"
    and "\<forall>e ts. R_create e ts \<notin> set (sys_requests s)" and "resolvable (sys_world s)"
    and "fair \<sigma> (goroutines s)"
  shows "\<exists>n. \<forall>m \<ge> n. let w = sys_world (scheduled svc (main_server svc i j) \<sigma> s m) in
    (\<forall>r \<in> set (task_rows w). Status r \<in> {StatusCompleted, StatusFailed, StatusSkipped}) \<and>
    (\<forall>e \<in> set (exec_rows w). (\<exists>r \<in> set (task_rows w). ExecutionID r = we_ID e) \<longrightarrow>
       we_Status e \<in> {WorkflowCompleted, WorkflowFailed})"
proof -
  let ?run = "scheduled svc (main_server svc i j) \<sigma> s"
  obtain n where n: "\<forall>m \<ge> n. settled (?run m)" using flawless_services.fair_settles [OF assms(1,2,5)] by blast
  show ?thesis
  proof (intro exI [of _ n] allI impI)
    fix m assume "n \<le> m"
    note rest = n [rule_format, OF this]
    note loss = flawless_services.scheduled_lossless [OF assms(1,2), of \<sigma> m]
    have dag: "resolvable (sys_world (?run m))"
      using flawless_services.scheduled_resolvable [OF assms(1,2), of \<sigma> m] assms(3,4) by blast
    note task = flawless_services.settled_status [OF assms(1) loss rest dag]
    note exec = flawless_services.settled_execution [OF assms(1) loss rest dag]
    show "let w = sys_world (?run m) in
      (\<forall>r \<in> set (task_rows w). Status r \<in> {StatusCompleted, StatusFailed, StatusSkipped}) \<and>
      (\<forall>e \<in> set (exec_rows w). (\<exists>r \<in> set (task_rows w). ExecutionID r = we_ID e) \<longrightarrow>
         we_Status e \<in> {WorkflowCompleted, WorkflowFailed})"
      unfolding Let_def using task exec by blast
  qed
qed

theorem every_workflow_finishes_witness:
  "\<exists>s n. demo_lossless s \<and> length (task_rows (sys_world s)) = 2 \<and>
     (\<forall>m \<ge> n. \<forall>r \<in> set (task_rows (sys_world (scheduled reference_services demo_server (round_robin (goroutines s)) s m))).
        Status r \<in> {StatusCompleted, StatusFailed, StatusSkipped})"
proof -
  obtain s where s: "demo_lossless s" "resolvable (sys_world s)" "\<forall>e ts. R_create e ts \<notin> set (sys_requests s)"
    "task_rows (sys_world s) = [demo_row demo_a, demo_row demo_b]" using demo_under_way by blast
  from every_workflow_finishes [OF calm.flawless_services_axioms s(1) [unfolded demo_server_def] s(3,2) round_robin_fair] s(1,4)
  show ?thesis unfolding Let_def demo_server_def by (intro exI [of _ s]) auto
qed

text \<open>
  C9. Every run comes to rest. When no call fails and no further request arrives, a fair run of
  sane requests ends with all workers idle, all queues and channels empty, every event handled and
  every request answered, whatever the dependencies are, cycles and unknown names included.
\<close>

theorem every_run_settles:
  assumes "flawless_services svc quiet" and "lossless svc (main_server svc i j) quiet s" and "fair \<sigma> (goroutines s)"
  shows "\<exists>n. \<forall>m \<ge> n. settled (scheduled svc (main_server svc i j) \<sigma> s m)"
  using flawless_services.fair_settles [OF assms] .

theorem every_run_settles_witness:
  "\<exists>s n. demo_lossless s \<and> task_rows (sys_world s) \<noteq> [] \<and>
     (\<forall>m \<ge> n. settled (scheduled reference_services demo_server (round_robin (goroutines s)) s m))"
proof -
  obtain s where s: "demo_lossless s" "task_rows (sys_world s) = [demo_row demo_a, demo_row demo_b]"
    using demo_under_way by blast
  from every_run_settles [OF calm.flawless_services_axioms s(1) [unfolded demo_server_def] round_robin_fair] s
  show ?thesis unfolding demo_server_def by (intro exI [of _ s]) auto
qed

text \<open>
  C11. A bound. Without failures and further requests, and for sane requests, the calls that do anything are at most as
  many as \<open>work\<close> says: a sum over the tasks that still wait or may still be retried, the queued
  tasks and messages, and what the goroutines hold.
\<close>

theorem work_bounds_the_calls:
  assumes "flawless_services svc quiet" and "lossless svc (main_server svc i j) quiet s"
  shows "busy_turns svc (main_server svc i j) \<sigma> s n \<le> work s"
  using flawless_services.busy_turns_work [OF assms, of \<sigma> n] by simp

theorem work_bounds_the_calls_witness:
  "\<exists>s. demo_lossless s \<and> task_rows (sys_world s) \<noteq> [] \<and>
     busy_turns reference_services demo_server (round_robin (goroutines s)) s 1000 \<le> work s"
proof -
  obtain s where s: "demo_lossless s" "task_rows (sys_world s) = [demo_row demo_a, demo_row demo_b]"
    using demo_under_way by blast
  from work_bounds_the_calls [OF calm.flawless_services_axioms s(1) [unfolded demo_server_def]] s
  show ?thesis unfolding demo_server_def by (intro exI [of _ s]) auto
qed

text \<open>
  C4. What the statuses mean at rest. When no call has failed, the requests were sane and all
  stored workflows are resolvable (every dependency names a stored task of its execution, no
  cycle), every task is COMPLETED, FAILED or SKIPPED, and it is SKIPPED exactly if a task it
  depends on is not COMPLETED.
\<close>

theorem settled_tasks_decided:
  assumes "flawless_services svc quiet" and "lossless svc (main_server svc i j) quiet s"
    and "settled s" and "resolvable (sys_world s)" and "r \<in> set (task_rows (sys_world s))"
  shows "Status r \<in> {StatusCompleted, StatusFailed, StatusSkipped} \<and>
    (Status r = StatusSkipped \<longleftrightarrow> (\<exists>r' \<in> set (task_rows (sys_world s)).
       ExecutionID r' = ExecutionID r \<and> RefID r' \<in> deps (info r) \<and> Status r' \<noteq> StatusCompleted))"
  using flawless_services.settled_status [OF assms] flawless_services.settled_skipped [OF assms] by blast

theorem settled_tasks_decided_witness:
  "\<exists>s r. demo_lossless s \<and> r \<in> set (task_rows (sys_world s)) \<and> ID r = 9 \<and>
     Status r \<in> {StatusCompleted, StatusFailed, StatusSkipped} \<and>
     (Status r = StatusSkipped \<longleftrightarrow> (\<exists>r' \<in> set (task_rows (sys_world s)).
        ExecutionID r' = 7 \<and> RefID r' = ''a'' \<and> Status r' \<noteq> StatusCompleted))"
proof -
  obtain s r where s: "demo_lossless s" "settled s" "resolvable (sys_world s)" "r \<in> set (task_rows (sys_world s))" "ID r = 9"
    "ExecutionID r = 7" "deps (info r) = {''a''}" using demo_at_rest by blast
  from settled_tasks_decided [OF calm.flawless_services_axioms s(1) [unfolded demo_server_def] s(2-4)] s show ?thesis
    by (intro exI [of _ s] exI [of _ r]) auto
qed

text \<open>
  C8. What the executions say at rest. When no call has failed, the requests were sane and all
  stored workflows are resolvable (every dependency names a stored task of its execution, no
  cycle), an execution with tasks is COMPLETED if all its tasks are COMPLETED, and otherwise
  FAILED with a FAILED task. With a failing call, a cycle or an unknown name it may stay RUNNING.
\<close>

theorem settled_executions_decided:
  assumes "flawless_services svc quiet" and "lossless svc (main_server svc i j) quiet s"
    and "settled s" and "resolvable (sys_world s)" and "e \<in> set (exec_rows (sys_world s))"
    and "t \<in> set (task_rows (sys_world s))" and "ExecutionID t = we_ID e"
  shows "if \<exists>r \<in> set (task_rows (sys_world s)). ExecutionID r = we_ID e \<and> Status r \<noteq> StatusCompleted
    then we_Status e = WorkflowFailed \<and>
      (\<exists>r \<in> set (task_rows (sys_world s)). ExecutionID r = we_ID e \<and> Status r = StatusFailed)
    else we_Status e = WorkflowCompleted"
  using flawless_services.settled_execution [OF assms(1-5)] assms(6,7) by (auto simp: all_completed_def)

theorem settled_executions_decided_witness:
  "\<exists>s e. demo_lossless s \<and> e \<in> set (exec_rows (sys_world s)) \<and> we_ID e = 7 \<and>
     we_Status e \<in> {WorkflowCompleted, WorkflowFailed}"
proof -
  obtain s r where s: "demo_lossless s" "settled s" "resolvable (sys_world s)" "r \<in> set (task_rows (sys_world s))" "ExecutionID r = 7"
    using demo_at_rest by blast
  have "sys_inv InitRegistry (abs_sys reference_services s)"
    using ref.reachable_invariant lossless_reachable [OF s(1) [unfolded demo_server_def]] .
  moreover have "info r \<in> set (b_tasks (a_board (abs_sys reference_services s)))" using s(4) by (simp add: board_def)
  ultimately have "i_Exec (info r) \<in> b_execs (a_board (abs_sys reference_services s))" unfolding sys_inv_def inv_rows_def by blast
  then obtain e where e: "e \<in> set (exec_rows (sys_world s))" "we_ID e = 7" using s(5) by (auto simp: board_def)
  from settled_executions_decided [OF calm.flawless_services_axioms s(1) [unfolded demo_server_def] s(2,3) e(1) s(4)] s(1,5) e
  show ?thesis by (intro exI [of _ s] exI [of _ e]) (auto split: if_splits)
qed

text \<open>
  C10. No task is lost. When no call fails and the requests are sane, every stored task is in exactly one place: waiting for
  its parents, in one of the queues, in the hands of one goroutine, in one event, or handled.
\<close>

theorem no_task_is_lost:
  assumes "flawless_services svc quiet" and "lossless svc (main_server svc i j) quiet s"
    and "r \<in> set (task_rows (sys_world s))"
  shows "count (places (abs_sys svc s)) (ID r) = 1"
proof -
  let ?a = "abs_sys svc s"
  have "places ?a = task_ids (a_board ?a)"
    using flawless_services.lossless_healthy [OF assms(1,2)] by (simp add: healthy_state_def kept_def)
  moreover have "inv_tokens ?a"
    using lawful_services.reachable_invariant [OF flawless_services.axioms(1) [OF assms(1)] lossless_reachable [OF assms(2)]]
    by (simp add: sys_inv_def)
  then have "distinct (map i_ID (b_tasks (a_board ?a)))" by (simp add: inv_tokens_def)
  moreover have "ID r \<in> set (map i_ID (b_tasks (a_board ?a)))" using assms(3) by (simp add: board_def)
  ultimately show ?thesis by (simp add: task_ids_def distinct_count_atmost_1 del: mset_map)
qed

theorem no_task_is_lost_witness:
  "\<exists>s. demo_lossless s \<and> count (places (abs_sys reference_services s)) 9 = 1"
proof -
  obtain s where s: "demo_lossless s" "task_rows (sys_world s) = [demo_row demo_a, demo_row demo_b]"
    using demo_under_way by blast
  from no_task_is_lost [OF calm.flawless_services_axioms s(1) [unfolded demo_server_def], of "demo_row demo_b"] s
  show ?thesis by (intro exI [of _ s]) simp
qed

end
