(* ===== verification/Spec2Isabelle.thy ===== *)
theory Spec2Isabelle
  imports Liveness_Properties
begin

text \<open>
  A verification development for go-tempo, a workflow engine: clients submit a graph of tasks
  over HTTP, a coordinator releases every task once its parents are done, and pools of workers
  run the tasks. PostgreSQL holds the tasks and executions, Redis the queues and the events.

  \<^bold>\<open>How the program works.\<close> \<open>cmd/server/main.go\<close> wires everything. A \<open>POST /api/v1/workflows\<close>
  goes through the metrics middleware to \<open>WorkflowHandler.SubmitWorkflow\<close>, which maps the request
  to an execution and its tasks (\<open>internal/mapper\<close>) and hands them to \<open>workflowService\<close>: one
  transaction stores them, then the tasks without dependencies are pushed on the main queue.
  Nine goroutines of \<open>mainWorker\<close> pop the main queue, one goroutine of \<open>retryWorker\<close> the retry
  queue. A round of a worker (\<open>ProcessNextTask\<close>) fetches the task, skips it if a parent was
  terminated, claims it with a version check, runs its action, and completes it, retries it or
  fails it; the end of a task is published as an event. Two subscriber goroutines turn the
  messages into events, and the coordinator handles one event at a time: one statement lowers
  the in-degree of the children (and taints them after a termination), those that reach zero
  are queued, and a completion that released nothing asks whether the execution is finished.

  \<^bold>\<open>Theories, in the order of their imports.\<close>
  \<^item> \<open>Prelude\<close>: errors, the state monad of the stateful code (\<open>HOL-Library.State_Monad\<close>), \<open>defer\<close>,
    loops over slices, in-place updates of rows, preorders of worlds; the collections
    \<open>step_defs\<close> and \<open>evolve_intros\<close> that drive the component proofs.
  \<^item> \<open>Json\<close>: \<open>encoding/json\<close> as the program uses it, a printer and a parser with a proved round
    trip, also for \<open>jsonb\<close> values.
  \<^item> \<open>Domain\<close>: \<open>internal/domain\<close>, a record per struct with the field names of the source, a
    datatype per set of string constants, the factories and methods.
  \<^item> \<open>Metrics\<close>: \<open>internal/metrics/metrics.go\<close> and \<open>collector.go\<close>, every collector with its name,
    labels and buckets.
  \<^item> \<open>Services\<close>: gorm with PostgreSQL, go-redis and google/uuid as the record \<open>services\<close>, a parameter
    of every definition that calls them, and the locale \<open>lawful_services\<close> with their documented
    behaviour: any call may fail, and a failed statement may still have taken effect.
  \<^item> \<open>Evolution\<close>: the preorder of worlds that every call keeps.
  \<^item> \<open>Reference_Services\<close>: a concrete instance with an arbitrary schedule of failures, and the
    interpretation of \<open>lawful_services\<close> on it; the witnesses evaluate it.
  \<^item> \<open>Ports\<close>: \<open>internal/core/ports/ports.go\<close>, each interface as a record of operations and as a
    locale with the laws its clients rely on (\<open>task_queue\<close>, \<open>event_bus\<close>, \<open>task_repository\<close>,
    \<open>workflow_repository\<close>).
  \<^item> \<open>Task_Repository\<close>, \<open>Workflow_Repository\<close>, \<open>Redis_Queue\<close>, \<open>Event_Bus\<close>: the implementations under
    \<open>internal/core/postgres/repository\<close> and \<open>internal/infrastructure/redis\<close>, each with the exact effect
    of every operation on every branch, and the sublocale that discharges its port's laws.
  \<^item> \<open>Dto_Mapper\<close>: \<open>internal/api/dto\<close> and \<open>internal/mapper\<close>.
  \<^item> \<open>Workflow_Service\<close>, \<open>Worker\<close>, \<open>Coordinator\<close>: \<open>internal/service\<close>, \<open>internal/worker/worker.go\<close>,
    \<open>internal/coordinator\<close>; each is written over the ports, and its lemmas are proved once in a
    locale that assumes only the ports' laws. \<open>Registry\<close>: the seven actions of
    \<open>internal/worker/registry.go\<close>.
  \<^item> \<open>Server\<close>: \<open>internal/api/handler\<close>, \<open>internal/api/middleware\<close> with the panic of a label value that is
    not UTF-8, and the assembly of \<open>main\<close>. \<open>Http_Counts\<close>: nothing but the middleware counts requests.
  \<^item> \<open>Store_Properties\<close>, \<open>App_Properties\<close>: the properties of the single operations with their
    witnesses. \<open>Exact_Effects\<close>: what a round of a worker and the handling of an event do when no call
    fails, as relations without alternatives, beside the relations of \<open>Worker\<close> and \<open>Coordinator\<close> that
    hold whatever fails.
  \<^item> \<open>System\<close>: every goroutine cut at its calls, as a program counter and a step function, and the
    proof that a goroutine that is not interrupted runs the sequential code.
  \<^item> \<open>System_Run\<close>: the goroutines of \<open>main\<close> over one world as the step relation \<open>sys_step\<close>, and
    \<open>reachable\<close>.
  \<^item> \<open>System_Abstract\<close>: an abstract system that keeps only what concerns the resolution of
    dependencies, with its moves; \<open>System_Tokens\<close>, \<open>System_Invariant\<close> and \<open>System_Safety\<close> prove its
    invariants; \<open>System_Refinement\<close> shows that every step of the program is a move.
  \<^item> \<open>System_Progress\<close>: what the steps make of the rows, and when an execution becomes COMPLETED.
  \<^item> \<open>Flawless\<close>: the locale \<open>flawless_services\<close> for runs in which no service fails, what every
    operation of the ports then does, and its interpretation on the reference services;
    \<open>System_Lossless\<close>: the steps of the goroutines in such runs, with exactly one effect each.
  \<^item> \<open>System_Account\<close>, \<open>System_Status\<close>, \<open>System_Skips\<close>, \<open>System_Healthy\<close>: the invariants of those runs.
    No task is lost; a task whose end is announced has the status that says so; the copies that
    workers hold are current, so that no version check misses; a task with the skip hint is never
    run; an execution whose tasks are all done is COMPLETED or about to be.
  \<^item> \<open>System_Work\<close>: a measure of the work left, which every call that does anything lowers;
    \<open>System_Liveness\<close>: schedules of the goroutines, fairness, and the proof that every fair run
    comes to rest; \<open>System_Outcome\<close>: what the rows say then.
  \<^item> \<open>Startup\<close>: the order of \<open>main\<close>, its fatal errors, and \<open>internal/infrastructure/redis/client.go\<close>.
  \<^item> \<open>System_Demo\<close>: a run of the whole program with two tasks, from submission to COMPLETED.
  \<^item> \<open>System_Properties\<close>, \<open>Liveness_Properties\<close>: the properties of the running program.

  \<^bold>\<open>What is proved.\<close> Of the single operations: what each query and update does to the rows, the
  exclusiveness of claims, the guards of status updates, the exactness of the decrements and of
  the completion check, queues in order, round trips of events, inputs and dependency lists, the
  refinement of a worker's round and of the coordinator's handlers by abstract ones, with exactly
  their effects when no call fails, answers of the handler, one count per request, bounds of retries, termination of the polling action. Of the running program, in
  every interleaving and for every pattern of failing calls: a task runs only after all of its
  dependencies have succeeded, no two goroutines hold a task, no action succeeds twice,
  successes come in a topological order, in-degrees count unhandled dependencies, and a COMPLETED
  execution has only succeeded tasks. Of the running program when no call fails: no task is lost,
  the calls that do anything are bounded by a measure of the state, every fair run comes to rest,
  and then each task of a resolvable workflow (every dependency names a stored task, and there is
  no cycle) is COMPLETED, FAILED or, exactly if a task it depends on is not COMPLETED, SKIPPED, and
  its execution is COMPLETED or FAILED accordingly.

  \<^bold>\<open>Conventions.\<close> Go's \<open>error\<close> is the left side of a sum. Strings are byte lists; \<open>uuid\<close> is a word of
  128 bits. Go's \<open>int\<close> is \<open>int\<close>: in-degrees are bounded by the length of a list and retry counts by
  \<open>MaxRetries\<close>, and a version grows by one per statement. Ignored errors are written \<open>ignore\<close>. Goroutines interleave at calls
  of the repositories, the queues and the bus; increments of collectors belong to the call
  before or after them. \<open>sys_succeeded\<close> and \<open>sys_handled\<close> are history variables that no goroutine
  reads. \<open>sys_step\<close> admits requests that are \<open>sane_request\<close>: distinct reference identifiers that
  need no escaping, no duplicates in a dependency list, registered actions; unknown dependencies
  and cycles are admitted. All properties of the running program are about such requests; the
  handler itself accepts any request that passes the binding tags. Recursion that is not structural has fuel: the JSON parser gets the
  length of its text, which the round trips show to be enough; \<open>Worker_poolLoop\<close> counts the rounds
  of a pool goroutine, which never ends by itself; \<open>worker_finish\<close> needs eight steps for any
  round, as the equivalence with \<open>ProcessNextTask\<close> shows.

  Liveness is stated for the scheduler \<open>\<sigma>\<close>, which names the goroutine of each turn and comes back to
  every one; the two cases of the coordinator's \<open>select\<close> are scheduled apart. A call of a goroutine
  that has nothing to do (a poll of an empty queue) is a turn that changes nothing. Names in the
  requests of these runs are printable ASCII, for which PostgreSQL's \<open>jsonb\<close> is sure to take the
  parameter of the decrement.

  \<^bold>\<open>Not modelled.\<close> What gorm, \<open>database/sql\<close>, go-redis and gin do inside (arguments of the
  definitions), log lines, the values of observed durations, and the time that passes in an
  action or between ticks: they do not influence any result. The decoding and dispatch of gin and
  the texts of its validator are arguments of the handler and of the middleware; its recovery of a
  panic is the result \<open>None\<close> of the middleware. Redirects that gin answers before any handler are
  left out. \<open>main\<close> passes a context that is never
  cancelled. The error results of the two subscriptions are always nil in the code, so the fatal
  exits of \<open>Coordinator.Start\<close> cannot be taken and have no branch.

  Three simplifications of the services. A row gives back the text that was stored, while \<open>jsonb\<close>
  normalises spacing, the order of members, repeated members and the writing of numbers; the
  lengths that \<open>varchar\<close> columns allow are not laws (an insert may be refused for any reason).
  \<open>encoding/json\<close> writes invalid UTF-8 as U+FFFD where the printer copies the bytes; the strings
  of the program come from decoded requests, which are valid. A channel of Redis holds its messages
  for the subscriber, so the moment at which a subscription becomes active is not modelled: in runs
  with failures a publication may get lost at any time, in runs without every one arrives.
\<close>

end
